(* ===== verification/Prelude.thy ===== *)
theory Prelude
  imports Complex_Main "HOL-Library.Word" "HOL-Library.AList" "HOL-Library.Char_ord" "HOL-Library.List_Lexorder"
begin

text \<open>
  Shared vocabulary of the development: the model's basic types, the key/value containers the web
  app stores its records in (a JavaScript \<open>Map\<close> or object, and an IndexedDB object store), the
  interface both containers provide, and the generic list lemmas the components use.
\<close>

section \<open>Collections of facts\<close>

named_theorems record_defs \<open>unfolding rules for small record-building operations\<close>
named_theorems store_simps \<open>lookup laws of the local stores\<close>

section \<open>Basic types\<close>

text \<open>
  Timestamps are JavaScript numbers holding whole milliseconds since the epoch (\<open>Date.now()\<close>), so
  they are unbounded integers here. Identifiers and other text are \<^typ>\<open>string\<close>, a list of code
  units; bytes of an \<open>ArrayBuffer\<close> are \<^typ>\<open>8 word\<close>.
\<close>

type_synonym millis = int
type_synonym ident = string
type_synonym byte = "8 word"

section \<open>A JavaScript \<open>Map\<close> (or object) as an association list\<close>

text \<open>
  \<open>Map.set\<close> overwrites in place when the key is present and appends otherwise, which is
  \<^const>\<open>AList.update\<close>; \<open>Map.delete\<close> is \<^const>\<open>AList.delete\<close>, \<open>Map.get\<close> is \<^const>\<open>map_of\<close> and
  \<open>[...m.values()]\<close> is the second components in order.
\<close>

definition js_values :: "('k \<times> 'v) list \<Rightarrow> 'v list" where
  "js_values m = map snd m"

definition js_well_formed :: "('k \<times> 'v) list \<Rightarrow> bool" where
  "js_well_formed m \<longleftrightarrow> distinct (map fst m)"

lemma js_well_formed_Nil [simp]: "js_well_formed []"
  by (simp add: js_well_formed_def)

lemma js_well_formed_update [simp]: "js_well_formed m \<Longrightarrow> js_well_formed (AList.update k v m)"
  by (simp add: js_well_formed_def distinct_update)

lemma js_well_formed_delete [simp]: "js_well_formed m \<Longrightarrow> js_well_formed (AList.delete k m)"
  by (simp add: js_well_formed_def distinct_delete)

lemma set_js_values:
  "js_well_formed m \<Longrightarrow> set (js_values m) = ran (map_of m)"
  by (simp add: js_values_def js_well_formed_def ran_distinct)

lemma update_fresh: "k \<notin> fst ` set m \<Longrightarrow> AList.update k v m = m @ [(k, v)]"
  by (induction m) auto

lemma update_append_left: "k \<in> fst ` set m \<Longrightarrow> AList.update k v (m @ m') = AList.update k v m @ m'"
  by (induction m) auto

lemma update_append_right: "k \<notin> fst ` set m \<Longrightarrow> AList.update k v (m @ m') = m @ AList.update k v m'"
  by (induction m) auto

lemma set_update_subset: "set (AList.update k v al) \<subseteq> insert (k, v) (set al)"
  by (induction al) auto

section \<open>An IndexedDB object store\<close>

text \<open>
  An object store keeps one record per key, and \<open>getAll\<close> returns the records in ascending key
  order. It is an association list kept sorted by key.
\<close>

fun idb_put :: "'k::linorder \<Rightarrow> 'v \<Rightarrow> ('k \<times> 'v) list \<Rightarrow> ('k \<times> 'v) list" where
  "idb_put k v [] = [(k, v)]"
| "idb_put k v ((k', v') # s) =
     (if k = k' then (k, v) # s
      else if k < k' then (k, v) # (k', v') # s
      else (k', v') # idb_put k v s)"

definition idb_delete :: "'k \<Rightarrow> ('k \<times> 'v) list \<Rightarrow> ('k \<times> 'v) list" where
  "idb_delete k s = filter (\<lambda>(k', _). k' \<noteq> k) s"

definition idb_get :: "('k \<times> 'v) list \<Rightarrow> 'k \<Rightarrow> 'v option" where
  "idb_get s k = map_of s k"

definition idb_get_all :: "('k \<times> 'v) list \<Rightarrow> 'v list" where
  "idb_get_all s = map snd s"

definition idb_sorted :: "('k::linorder \<times> 'v) list \<Rightarrow> bool" where
  "idb_sorted s \<longleftrightarrow> sorted_wrt (<) (map fst s)"

lemma set_map_fst_idb_put: "set (map fst (idb_put k v s)) = insert k (set (map fst s))"
  by (induction k v s rule: idb_put.induct) auto

lemma map_of_idb_put: "map_of (idb_put k v s) = (map_of s)(k \<mapsto> v)"
  by (induction k v s rule: idb_put.induct) (auto simp: fun_eq_iff)

lemma idb_sorted_put: "idb_sorted s \<Longrightarrow> idb_sorted (idb_put k v s)"
proof (induction k v s rule: idb_put.induct)
  case (2 k v k' v' s)
  have keys: "set (map fst (idb_put k v s)) = insert k (set (map fst s))"
    by (rule set_map_fst_idb_put)
  show ?case
    using 2 keys by (auto simp: idb_sorted_def)
qed (simp add: idb_sorted_def)

lemma idb_sorted_delete: "idb_sorted s \<Longrightarrow> idb_sorted (idb_delete k s)"
  unfolding idb_sorted_def idb_delete_def
  by (induction s) (auto split: prod.splits)

lemma map_of_idb_delete: "map_of (idb_delete k s) = (map_of s)(k := None)"
  by (induction s) (auto simp: idb_delete_def fun_eq_iff)

lemma idb_sorted_distinct: "idb_sorted s \<Longrightarrow> distinct (map fst s)"
  by (simp add: idb_sorted_def strict_sorted_iff)

section \<open>The interface of a keyed container\<close>

text \<open>
  What the vault code relies on, whichever container a record kind lives in: writing, dropping and
  listing records, with a lookup that sees exactly the last write of a key. The client lemmas give
  the effect of writing a whole document and of dropping a list of keys, one at a time, as the sync
  engine does.
\<close>

locale keyed_container =
  fixes put :: "'k \<Rightarrow> 'v \<Rightarrow> 's \<Rightarrow> 's"
    and drop_key :: "'k \<Rightarrow> 's \<Rightarrow> 's"
    and get :: "'s \<Rightarrow> 'k \<Rightarrow> 'v option"
    and listing :: "'s \<Rightarrow> 'v list"
    and wf :: "'s \<Rightarrow> bool"
  assumes get_put: "get (put k v s) = (get s)(k \<mapsto> v)"
    and get_drop: "get (drop_key k s) = (get s)(k := None)"
    and set_listing: "wf s \<Longrightarrow> set (listing s) = ran (get s)"
    and wf_put: "wf s \<Longrightarrow> wf (put k v s)"
    and wf_drop: "wf s \<Longrightarrow> wf (drop_key k s)"
begin

lemma wf_put_all: "wf s \<Longrightarrow> wf (foldl (\<lambda>s r. put (f r) (g r) s) s rs)"
  by (induction rs arbitrary: s) (simp_all add: wf_put)

lemma wf_drop_all: "wf s \<Longrightarrow> wf (foldl (\<lambda>s r. drop_key (f r) s) s rs)"
  by (induction rs arbitrary: s) (simp_all add: wf_drop)

lemma get_put_all:
  assumes "distinct (map f rs)"
  shows "get (foldl (\<lambda>s r. put (f r) (g r) s) s rs) = get s ++ map_of (map (\<lambda>r. (f r, g r)) rs)"
  using assms
proof (induction rs arbitrary: s)
  case (Cons r rs)
  have dom: "f r \<notin> dom (map_of (map (\<lambda>r. (f r, g r)) rs))"
    using Cons.prems by (auto simp: dom_map_of_conv_image_fst)
  have "get (foldl (\<lambda>s r. put (f r) (g r) s) s (r # rs))
      = (get s)(f r \<mapsto> g r) ++ map_of (map (\<lambda>r. (f r, g r)) rs)"
    using Cons.IH [of "put (f r) (g r) s"] Cons.prems by (simp add: get_put fun_upd_def)
  also have "\<dots> = get s ++ map_of (map (\<lambda>r. (f r, g r)) (r # rs))"
    using dom by (auto simp: map_add_def fun_eq_iff domIff split: option.splits)
  finally show ?case .
qed simp

lemma get_drop_all:
  "get (foldl (\<lambda>s r. drop_key (f r) s) s rs) = (\<lambda>k. if k \<in> f ` set rs then None else get s k)"
  by (induction rs arbitrary: s) (auto simp: get_drop fun_eq_iff)

end

interpretation js_map: keyed_container AList.update AList.delete map_of js_values js_well_formed
  by unfold_locales (simp_all add: update_conv' delete_conv' set_js_values fun_eq_iff)

interpretation idb_store: keyed_container idb_put idb_delete idb_get idb_get_all idb_sorted
proof unfold_locales
  show "idb_sorted s \<Longrightarrow> set (idb_get_all s) = ran (idb_get s)" for s :: "('a \<times> 'b) list"
    by (auto simp: idb_get_all_def idb_get_def [abs_def] ran_distinct idb_sorted_distinct)
qed (simp_all add: idb_get_def [abs_def] map_of_idb_put map_of_idb_delete idb_sorted_put
      idb_sorted_delete)

section \<open>Codecs and invariants\<close>

text \<open>
  Two more interfaces. A codec is an encoder whose decoder gives every valid value back; a guarded system is a step
  relation with an invariant its steps keep.
\<close>

locale codec =
  fixes valid :: "'a \<Rightarrow> bool"
    and enc :: "'a \<Rightarrow> 'b"
    and dec :: "'b \<Rightarrow> 'a option"
  assumes dec_enc: "valid x \<Longrightarrow> dec (enc x) = Some x"
begin

lemma enc_eq_iff: "valid x \<Longrightarrow> valid y \<Longrightarrow> enc x = enc y \<longleftrightarrow> x = y"
  using dec_enc by (metis option.inject)

lemma dec_all: "list_all valid xs \<Longrightarrow> map (dec \<circ> enc) xs = map Some xs"
  by (induction xs) (simp_all add: dec_enc)

end

locale guarded_system =
  fixes step :: "'s \<Rightarrow> 's \<Rightarrow> bool"
    and inv :: "'s \<Rightarrow> bool"
  assumes step_keeps: "inv s \<Longrightarrow> step s s' \<Longrightarrow> inv s'"
begin

lemma run_keeps: "inv s \<Longrightarrow> step\<^sup>*\<^sup>* s s' \<Longrightarrow> inv s'"
  by (rotate_tac, induction rule: rtranclp_induct) (simp_all add: step_keeps)

end

section \<open>Generic list lemmas\<close>

declare distinct_map_filter [simp]

lemma map_of_map_pair_eq_Some_iff:
  "distinct (map f xs) \<Longrightarrow> map_of (map (\<lambda>x. (f x, x)) xs) k = Some x \<longleftrightarrow> x \<in> set xs \<and> f x = k"
  by (auto simp: map_of_eq_Some_iff o_def)

section \<open>Numbers as text\<close>

text \<open>\<open>n.toString(radix)\<close> for a natural number and a radix up to ten.\<close>

definition digit_char :: "nat \<Rightarrow> char" where
  "digit_char d = char_of (48 + d)"

fun show_radix :: "nat \<Rightarrow> nat \<Rightarrow> string" where
  "show_radix b n = (if n < b \<or> b < 2 then [digit_char n] else show_radix b (n div b) @ [digit_char (n mod b)])"

declare show_radix.simps [simp del]

definition show_nat :: "nat \<Rightarrow> string" where
  "show_nat n = show_radix 10 n"

definition show_int :: "int \<Rightarrow> string" where
  "show_int i = (if i < 0 then CHR ''-'' # show_nat (nat (- i)) else show_nat (nat i))"

text \<open>Reading digits back, most significant first.\<close>

definition read_radix :: "nat \<Rightarrow> string \<Rightarrow> nat" where
  "read_radix b s = foldl (\<lambda>acc c. acc * b + (of_char c - 48)) 0 s"

lemma of_char_digit_char: "d < 10 \<Longrightarrow> of_char (digit_char d) = 48 + d"
  by (simp add: digit_char_def of_char_of take_bit_nat_eq_self)

lemma read_radix_snoc: "read_radix b (s @ [c]) = read_radix b s * b + (of_char c - 48)"
  by (simp add: read_radix_def)

lemma read_radix_show:
  assumes "2 \<le> b" "b \<le> 10"
  shows "read_radix b (show_radix b n) = n"
  using assms
proof (induction b n rule: show_radix.induct)
  case (1 b n)
  show ?case
  proof (cases "n < b")
    case True
    with 1 have "n < 10" by simp
    with True show ?thesis
      by (simp add: show_radix.simps [of b n] read_radix_def of_char_digit_char)
  next
    case False
    have "n mod b < b" using 1 by simp
    then have "n mod b < 10" using 1 by linarith
    with False 1 show ?thesis
      by (simp add: show_radix.simps [of b n] read_radix_snoc of_char_digit_char)
  qed
qed

lemma show_radix_inject:
  "2 \<le> b \<Longrightarrow> b \<le> 10 \<Longrightarrow> show_radix b m = show_radix b n \<longleftrightarrow> m = n"
  by (metis read_radix_show)

lemma show_radix_digits:
  assumes "2 \<le> b" "b \<le> 10"
  shows "\<forall>c\<in>set (show_radix b n). 48 \<le> (of_char c :: nat) \<and> of_char c < (48 + b :: nat)"
  using assms
proof (induction b n rule: show_radix.induct)
  case (1 b n)
  have "n mod b < b" using 1 by simp
  moreover have "n mod b < 10" using calculation 1 by linarith
  moreover have "n < b \<Longrightarrow> n < 10" using 1 by linarith
  ultimately show ?case
    using 1 by (subst show_radix.simps) (auto simp: of_char_digit_char)
qed

lemma show_radix_neq_Nil [simp]: "show_radix b n \<noteq> []"
  by (subst show_radix.simps) simp

lemma length_show_radix:
  assumes "2 \<le> b" "n < b ^ k" "0 < k"
  shows "length (show_radix b n) \<le> k"
  using assms
proof (induction b n arbitrary: k rule: show_radix.induct)
  case (1 b n)
  show ?case
  proof (cases "n < b")
    case True
    with 1 show ?thesis by (simp add: show_radix.simps [of b n])
  next
    case False
    obtain j where k: "k = Suc j" using \<open>0 < k\<close> by (cases k) auto
    have "0 < j"
      using False 1(3) k by (cases j) auto
    moreover have "n div b < b ^ j"
      using 1(2,3) k by (simp add: less_mult_imp_div_less mult.commute)
    ultimately have "length (show_radix b (n div b)) \<le> j"
      using 1 False by simp
    with False 1(2) k show ?thesis
      by (simp add: show_radix.simps [of b n])
  qed
qed

section \<open>JSON values\<close>

text \<open>
  What \<open>JSON.parse\<close> or \<open>request.json()\<close> hands a validator: the value is \<open>unknown\<close> until its type
  has been tested. A number is a finite value or one of the three special doubles; \<open>JUndef\<close> is a
  property that is not there.
\<close>

datatype jsnum = Num rat | NaN | PosInf | NegInf

datatype json =
  JUndef | JNull | JBool bool | JNum jsnum | JStr string | JArr "json list" | JObj "(string \<times> json) list"

fun json_field :: "json \<Rightarrow> string \<Rightarrow> json" where
  "json_field (JObj fs) k = (case map_of fs k of None \<Rightarrow> JUndef | Some v \<Rightarrow> v)"
| "json_field _ k = JUndef"

fun js_isInteger :: "json \<Rightarrow> bool" where
  "js_isInteger (JNum (Num q)) = (of_int \<lfloor>q\<rfloor> = q)"
| "js_isInteger _ = False"

fun js_isFinite :: "json \<Rightarrow> bool" where
  "js_isFinite (JNum (Num q)) = True"
| "js_isFinite _ = False"

section \<open>UTF-8\<close>

text \<open>\<open>TextEncoder.encode\<close> (and \<open>Buffer.from(s, "utf8")\<close>) on text whose code units fit a byte.\<close>

definition utf8_char :: "char \<Rightarrow> byte list" where
  "utf8_char c = (let n = of_char c :: nat in
     if n < 128 then [of_nat n] else [of_nat (192 + n div 64), of_nat (128 + n mod 64)])"

definition utf8 :: "string \<Rightarrow> byte list" where
  "utf8 s = concat (map utf8_char s)"

lemma utf8_Nil [simp]: "utf8 [] = []"
  by (simp add: utf8_def)

lemma utf8_append: "utf8 (s @ t) = utf8 s @ utf8 t"
  by (simp add: utf8_def)

definition is_ascii :: "string \<Rightarrow> bool" where
  "is_ascii s \<longleftrightarrow> (\<forall>c\<in>set s. (of_char c :: nat) < 128)"

lemma utf8_ascii: "is_ascii s \<Longrightarrow> utf8 s = map of_char s"
  by (induction s) (auto simp: utf8_def utf8_char_def is_ascii_def Let_def of_nat_of_char)

lemma length_utf8_bounds: "length s \<le> length (utf8 s) \<and> length (utf8 s) \<le> 2 * length s"
  by (induction s) (auto simp: utf8_def utf8_char_def Let_def)

lemma utf8_char_neq_Nil: "utf8_char c \<noteq> []"
  by (simp add: utf8_char_def Let_def)

lemma utf8_char_inject:
  assumes "utf8_char c @ s = utf8_char d @ t"
  shows "c = d \<and> s = t"
proof -
  have code: "of_char c < (256 :: nat)" "of_char d < (256 :: nat)"
    by (simp_all add: of_char_def)
  have bytes: "of_nat a = (of_nat b :: byte) \<longleftrightarrow> a = b" if "a < 256" "b < 256" for a b
    using that by (auto dest: arg_cong [where f = unat] simp: unat_of_nat)
  have small: "of_char c div 64 < (4 :: nat)" "of_char d div 64 < (4 :: nat)"
    using code by linarith+
  have "(of_char c :: nat) = of_char d \<and> s = t"
  proof (cases "of_char c < (128 :: nat)"; cases "of_char d < (128 :: nat)")
    assume "of_char c < (128 :: nat)" "of_char d < (128 :: nat)"
    then show ?thesis using assms bytes by (simp add: utf8_char_def Let_def)
  next
    assume *: "of_char c < (128 :: nat)" "\<not> of_char d < (128 :: nat)"
    have "of_char c = (192 + of_char d div 64 :: nat)"
      using assms * small bytes [of "of_char c" "192 + of_char d div 64"] by (simp add: utf8_char_def Let_def)
    with * show ?thesis by simp
  next
    assume *: "\<not> of_char c < (128 :: nat)" "of_char d < (128 :: nat)"
    have "of_char d = (192 + of_char c div 64 :: nat)"
      using assms * small bytes [of "192 + of_char c div 64" "of_char d"] by (simp add: utf8_char_def Let_def)
    with * show ?thesis by simp
  next
    assume *: "\<not> of_char c < (128 :: nat)" "\<not> of_char d < (128 :: nat)"
    have "(of_char c div 64 :: nat) = of_char d div 64" "(of_char c mod 64 :: nat) = of_char d mod 64" "s = t"
      using assms * small bytes [of "192 + of_char c div 64" "192 + of_char d div 64"] bytes [of "128 + of_char c mod 64" "128 + of_char d mod 64"]
      by (simp_all add: utf8_char_def Let_def)
    then show ?thesis by (metis div_mult_mod_eq)
  qed
  then show ?thesis
    by (metis char_of_char)
qed

lemma utf8_inject: "utf8 s = utf8 t \<longleftrightarrow> s = t"
proof
  show "utf8 s = utf8 t \<Longrightarrow> s = t"
  proof (induction s arbitrary: t)
    case Nil
    then show ?case by (cases t) (auto simp: utf8_def utf8_char_neq_Nil)
  next
    case (Cons c s)
    show ?case
    proof (cases t)
      case Nil
      then show ?thesis using Cons.prems by (simp add: utf8_def utf8_char_neq_Nil)
    next
      case (Cons d t')
      have "utf8_char c @ utf8 s = utf8_char d @ utf8 t'"
        using Cons.prems Cons by (simp add: utf8_def)
      from utf8_char_inject [OF this] show ?thesis
        using Cons.IH [of t'] Cons by simp
    qed
  qed
qed simp

end
