(* ===== verification/Vault_Merge.thy ===== *)
theory Vault_Merge
  imports Prelude
begin

text \<open>
  The vault document and its merge (\<open>apps/web/src/lib/vault/sync.ts\<close>, \<open>mergeById\<close> and
  \<open>mergeVault\<close>), with the record kinds it holds (\<open>lib/hosts.ts\<close>, \<open>lib/hostkeys.ts\<close>,
  \<open>lib/snippets.ts\<close>). The merge is shown to implement last-write-wins per identifier with the
  remote copy winning a tie, to honour tombstones, and to lose nothing but what a tombstone outranks.
\<close>

section \<open>Record kinds\<close>

datatype HostAuth = AuthKey | AuthPassword

record Host =
  host_id :: ident
  host_label :: string
  host_hostname :: string
  host_port :: int
  host_username :: string
  host_auth :: "HostAuth option"
  host_keyId :: "ident option"
  host_agentId :: "ident option"
  host_folder :: "string option"
  host_tags :: "string list option"
  host_createdAt :: millis
  host_lastUsedAt :: "millis option"
  host_updatedAt :: "millis option"

text \<open>A portable key as it travels. Its \<open>mode\<close> field is the constant \<open>"portable"\<close>.\<close>

record SyncedKey =
  key_id :: ident
  key_label :: string
  key_publicKeyRaw :: string
  key_wrapped_iv :: string
  key_wrapped_ciphertext :: string
  key_createdAt :: millis

record PinnedHostKey =
  pin_id :: ident
  pin_key :: string
  pin_fingerprint :: string
  pin_type :: string
  pinnedAt :: millis
  lastSeenAt :: millis

record Snippet =
  snippet_id :: ident
  snippet_name :: string
  snippet_body :: string
  snippet_description :: "string option"
  snippet_tags :: "string list option"
  snippet_createdAt :: millis
  snippet_updatedAt :: millis

type_synonym Tombstones = "(ident \<times> millis) list"

text \<open>
  Documents written before snippets existed arrive without that field, hence the option there; the
  merge reads it with \<open>?? []\<close>.
\<close>

record VaultDocument =
  hosts :: "Host list"
  keys :: "SyncedKey list"
  hostKeys :: "PinnedHostKey list"
  snippets :: "Snippet list option"
  tombstones :: Tombstones
  updatedAt :: millis

definition emptyDoc :: VaultDocument where
  "emptyDoc = \<lparr>hosts = [], keys = [], hostKeys = [], snippets = Some [], tombstones = [],
     updatedAt = 0\<rparr>"

definition or_empty :: "'a list option \<Rightarrow> 'a list" where
  "or_empty xs = (case xs of None \<Rightarrow> [] | Some ys \<Rightarrow> ys)"

lemma or_empty_simps [simp]: "or_empty None = []" "or_empty (Some ys) = ys"
  by (simp_all add: or_empty_def)

section \<open>The merge\<close>

definition merge_step ::
  "('r \<Rightarrow> ident) \<Rightarrow> ('r \<Rightarrow> millis) \<Rightarrow> (ident \<times> 'r) list \<Rightarrow> 'r \<Rightarrow> (ident \<times> 'r) list" where
  "merge_step ident stamp byId item =
     (case map_of byId (ident item) of
        None \<Rightarrow> AList.update (ident item) item byId
      | Some existing \<Rightarrow>
          if stamp item > stamp existing then AList.update (ident item) item byId else byId)"

text \<open>A missing tombstone and one stamped 0 are both falsy, so neither removes anything.\<close>

definition outlives :: "Tombstones \<Rightarrow> ident \<Rightarrow> millis \<Rightarrow> bool" where
  "outlives ts i w = (case map_of ts i of None \<Rightarrow> True | Some deletedAt \<Rightarrow> deletedAt = 0 \<or> w > deletedAt)"

definition mergeById ::
  "('r \<Rightarrow> ident) \<Rightarrow> 'r list \<Rightarrow> 'r list \<Rightarrow> ('r \<Rightarrow> millis) \<Rightarrow> Tombstones \<Rightarrow> 'r list" where
  "mergeById ident local remote stamp ts =
     filter (\<lambda>item. outlives ts (ident item) (stamp item))
       (js_values (foldl (merge_step ident stamp) [] (remote @ local)))"

definition hostStamp :: "Host \<Rightarrow> millis" where
  "hostStamp h =
     (case host_updatedAt h of Some u \<Rightarrow> u
      | None \<Rightarrow> (case host_lastUsedAt h of Some u \<Rightarrow> u | None \<Rightarrow> host_createdAt h))"

definition merge_tombstones :: "Tombstones \<Rightarrow> Tombstones \<Rightarrow> Tombstones" where
  "merge_tombstones local remote =
     foldl (\<lambda>ts (i, w). AList.update i (max (case map_of ts i of None \<Rightarrow> 0 | Some t \<Rightarrow> t) w) ts)
       remote local"

definition mergeVault :: "VaultDocument \<Rightarrow> VaultDocument \<Rightarrow> VaultDocument" where
  "mergeVault local remote =
     (let ts = merge_tombstones (tombstones local) (tombstones remote) in
      \<lparr>hosts = mergeById host_id (hosts local) (hosts remote) hostStamp ts,
       keys = mergeById key_id (keys local) (keys remote) key_createdAt ts,
       hostKeys = mergeById pin_id (hostKeys local) (hostKeys remote) pinnedAt ts,
       snippets = Some (mergeById snippet_id (or_empty (snippets local)) (or_empty (snippets remote))
                          snippet_updatedAt ts),
       tombstones = ts,
       updatedAt = max (updatedAt local) (updatedAt remote)\<rparr>)"

section \<open>Last write wins\<close>

text \<open>
  The specification of the merge: \<^term>\<open>x\<close> is the last write among \<^term>\<open>xs\<close> for its identifier when
  no copy has a newer stamp and every copy ahead of it in the list has a strictly older one. With the
  remote side listed first, that is "newest wins, the remote copy wins a tie".
\<close>

definition wins :: "('r \<Rightarrow> ident) \<Rightarrow> ('r \<Rightarrow> millis) \<Rightarrow> 'r list \<Rightarrow> 'r \<Rightarrow> bool" where
  "wins ident stamp xs x \<longleftrightarrow>
     (\<exists>pre post. xs = pre @ x # post
        \<and> (\<forall>y\<in>set pre. ident y = ident x \<longrightarrow> stamp y < stamp x)
        \<and> (\<forall>y\<in>set post. ident y = ident x \<longrightarrow> stamp y \<le> stamp x))"

lemma wins_Nil [simp]: "\<not> wins ident stamp [] x"
  by (simp add: wins_def)

lemma wins_snoc:
  "wins ident stamp (xs @ [y]) x \<longleftrightarrow>
     (wins ident stamp xs x \<and> (ident y = ident x \<longrightarrow> stamp y \<le> stamp x))
     \<or> (x = y \<and> (\<forall>z\<in>set xs. ident z = ident y \<longrightarrow> stamp z < stamp y))"
  (is "?l \<longleftrightarrow> ?r1 \<or> ?r2")
proof
  assume ?l
  then obtain pre post where eq: "xs @ [y] = pre @ x # post"
    and older: "\<forall>z\<in>set pre. ident z = ident x \<longrightarrow> stamp z < stamp x"
    and newer: "\<forall>z\<in>set post. ident z = ident x \<longrightarrow> stamp z \<le> stamp x"
    by (auto simp: wins_def)
  show "?r1 \<or> ?r2"
  proof (cases post rule: rev_cases)
    case Nil
    with eq older show ?thesis by auto
  next
    case (snoc post' z)
    with eq have "xs = pre @ x # post'" and "y = z" by auto
    with older newer snoc show ?thesis by (auto simp: wins_def)
  qed
next
  assume "?r1 \<or> ?r2"
  then show ?l
  proof
    assume ?r1
    then obtain pre post where "xs = pre @ x # post"
      and "\<forall>z\<in>set pre. ident z = ident x \<longrightarrow> stamp z < stamp x"
      and "\<forall>z\<in>set (post @ [y]). ident z = ident x \<longrightarrow> stamp z \<le> stamp x"
      by (auto simp: wins_def)
    then show ?l
      unfolding wins_def by (intro exI [of _ pre] exI [of _ "post @ [y]"]) auto
  next
    assume ?r2
    then show ?l
      unfolding wins_def by (intro exI [of _ xs] exI [of _ "[]"]) auto
  qed
qed

lemma wins_in_set: "wins ident stamp xs x \<Longrightarrow> x \<in> set xs"
  by (auto simp: wins_def)

lemma wins_newest: "wins ident stamp xs x \<Longrightarrow> y \<in> set xs \<Longrightarrow> ident y = ident x \<Longrightarrow> stamp y \<le> stamp x"
  by (fastforce simp: wins_def)

lemma wins_unique:
  "wins ident stamp xs x \<Longrightarrow> wins ident stamp xs x' \<Longrightarrow> ident x = ident x' \<Longrightarrow> x = x'"
proof (induction xs rule: rev_induct)
  case (snoc y xs)
  then show ?case
    by (fastforce simp: wins_snoc dest: wins_in_set)
qed simp

lemma merge_fold_snoc:
  "foldl (merge_step ident stamp) m (xs @ [y]) =
     merge_step ident stamp (foldl (merge_step ident stamp) m xs) y"
  by simp

lemma merge_step_well_formed: "js_well_formed m \<Longrightarrow> js_well_formed (merge_step ident stamp m y)"
  by (auto simp: merge_step_def split: option.splits)

lemma merge_fold_well_formed:
  "js_well_formed m \<Longrightarrow> js_well_formed (foldl (merge_step ident stamp) m xs)"
  by (induction xs arbitrary: m) (simp_all add: merge_step_well_formed)

lemma map_of_merge_step:
  "map_of (merge_step ident stamp m y) =
     (case map_of m (ident y) of
        None \<Rightarrow> (map_of m)(ident y \<mapsto> y)
      | Some e \<Rightarrow> if stamp y > stamp e then (map_of m)(ident y \<mapsto> y) else map_of m)"
  by (simp add: merge_step_def update_conv' split: option.splits)

lemma dom_merge_fold:
  "dom (map_of (foldl (merge_step ident stamp) [] xs)) = ident ` set xs"
proof (induction xs rule: rev_induct)
  case (snoc y xs)
  then show ?case
    by (auto simp: map_of_merge_step insert_absorb split: option.splits if_splits)
qed simp

lemma merge_fold_sound:
  "map_of (foldl (merge_step ident stamp) [] xs) k = Some x \<Longrightarrow> ident x = k \<and> wins ident stamp xs x"
proof (induction xs arbitrary: k x rule: rev_induct)
  case (snoc y xs)
  let ?m = "foldl (merge_step ident stamp) [] xs"
  show ?case
  proof (cases "map_of ?m (ident y)")
    case None
    then have fresh: "\<forall>z\<in>set xs. ident z \<noteq> ident y"
      using dom_merge_fold [of ident stamp xs] by (metis domIff imageI)
    with snoc None show ?thesis
      by (auto simp: map_of_merge_step wins_snoc split: if_splits dest!: wins_in_set)
  next
    case (Some e)
    then have e: "ident e = ident y" "wins ident stamp xs e"
      using snoc.IH by blast+
    have newest: "\<forall>z\<in>set xs. ident z = ident y \<longrightarrow> stamp z \<le> stamp e"
      using wins_newest [OF e(2)] e(1) by simp
    show ?thesis
    proof (cases "k = ident y \<and> stamp y > stamp e")
      case True
      with snoc.prems Some have "x = y"
        by (simp add: map_of_merge_step)
      moreover have "\<forall>z\<in>set xs. ident z = ident y \<longrightarrow> stamp z < stamp y"
        using newest True by fastforce
      ultimately show ?thesis
        using True by (simp add: wins_snoc)
    next
      case False
      with snoc.prems Some have old: "map_of ?m k = Some x"
        by (auto simp: map_of_merge_step split: if_splits)
      then have "k = ident y \<longrightarrow> x = e" using Some by auto
      with snoc.IH [OF old] False show ?thesis
        by (auto simp: wins_snoc)
    qed
  qed
qed simp

lemma map_of_merge_fold:
  "map_of (foldl (merge_step ident stamp) [] xs) k = Some x \<longleftrightarrow> wins ident stamp xs x \<and> ident x = k"
proof
  assume r: "wins ident stamp xs x \<and> ident x = k"
  then have "k \<in> dom (map_of (foldl (merge_step ident stamp) [] xs))"
    by (auto simp: dom_merge_fold dest: wins_in_set)
  then obtain x' where x': "map_of (foldl (merge_step ident stamp) [] xs) k = Some x'"
    by blast
  with merge_fold_sound [OF x'] r show "map_of (foldl (merge_step ident stamp) [] xs) k = Some x"
    using wins_unique [of ident stamp xs x x'] by simp
qed (auto dest: merge_fold_sound)

lemma wins_exists:
  assumes "y \<in> set xs"
  obtains x where "wins ident stamp xs x" "ident x = ident y" "stamp y \<le> stamp x"
proof -
  have "ident y \<in> dom (map_of (foldl (merge_step ident stamp) [] xs))"
    using assms by (simp add: dom_merge_fold)
  then obtain x where "map_of (foldl (merge_step ident stamp) [] xs) (ident y) = Some x"
    by blast
  then have x: "wins ident stamp xs x" "ident x = ident y"
    by (simp_all add: map_of_merge_fold)
  then show thesis
    using that wins_newest [OF x(1) assms] by simp
qed

section \<open>What the merge of one kind returns\<close>

lemma set_mergeById:
  "set (mergeById ident l r stamp ts) =
     {x. wins ident stamp (r @ l) x \<and> outlives ts (ident x) (stamp x)}"
proof -
  let ?m = "foldl (merge_step ident stamp) [] (r @ l)"
  have "set (js_values ?m) = ran (map_of ?m)"
    by (intro set_js_values merge_fold_well_formed) simp
  also have "\<dots> = {x. wins ident stamp (r @ l) x}"
    by (auto simp: ran_def map_of_merge_fold simp del: foldl_append)
  finally show ?thesis
    by (auto simp: mergeById_def)
qed

lemma map_ident_js_values_merge:
  "map ident (js_values (foldl (merge_step ident stamp) [] xs)) = map fst (foldl (merge_step ident stamp) [] xs)"
proof -
  have "\<forall>(k, v) \<in> set (foldl (merge_step ident stamp) [] xs). ident v = k"
    using merge_fold_well_formed [of "[]" ident stamp xs]
    by (auto simp: js_well_formed_def dest: map_of_is_SomeI merge_fold_sound)
  then show ?thesis
    by (auto simp: js_values_def)
qed

lemma distinct_mergeById: "distinct (map ident (mergeById ident l r stamp ts))"
proof -
  have "distinct (map ident (js_values (foldl (merge_step ident stamp) [] (r @ l))))"
    using merge_fold_well_formed [of "[]" ident stamp "r @ l"]
    by (simp only: map_ident_js_values_merge) (simp add: js_well_formed_def)
  then show ?thesis
    unfolding mergeById_def by (rule distinct_map_filter)
qed

text \<open>Nothing disappears but what a tombstone at least as new as the record removes.\<close>

lemma mergeById_loses_nothing:
  assumes "x \<in> set l \<union> set r"
  shows "(\<exists>y\<in>set (mergeById ident l r stamp ts). ident y = ident x \<and> stamp x \<le> stamp y)
       \<or> (\<exists>t. map_of ts (ident x) = Some t \<and> stamp x \<le> t)"
proof -
  have "x \<in> set (r @ l)" using assms by auto
  then obtain y where y: "wins ident stamp (r @ l) y" "ident y = ident x" "stamp x \<le> stamp y"
    by (rule wins_exists)
  show ?thesis
  proof (cases "outlives ts (ident y) (stamp y)")
    case True
    with y show ?thesis by (auto simp: set_mergeById)
  next
    case False
    then obtain t where "map_of ts (ident y) = Some t" "stamp y \<le> t"
      by (auto simp: outlives_def split: option.splits)
    with y show ?thesis by auto
  qed
qed

text \<open>
  Merging against a side that already holds the answer changes nothing: the stability that lets the
  sync engine report "up to date". Extra local records are appended after the remote ones.
\<close>

lemma foldl_merge_step_distinct:
  assumes "distinct (map ident xs)"
  shows "foldl (merge_step ident stamp) [] xs = map (\<lambda>x. (ident x, x)) xs"
  using assms
proof (induction xs rule: rev_induct)
  case (snoc y xs)
  then have fresh: "ident y \<notin> fst ` set (map (\<lambda>x. (ident x, x)) xs)"
    by auto
  then have "map_of (map (\<lambda>x. (ident x, x)) xs) (ident y) = None"
    by (simp only: map_of_eq_None_iff) simp
  with snoc fresh show ?case
    by (simp add: merge_step_def [of _ _ _ y] update_fresh)
qed simp

lemma foldl_merge_step_append:
  assumes dominated: "\<And>y. y \<in> set l \<Longrightarrow> ident y \<in> dom (map_of m) \<Longrightarrow>
      \<exists>x. map_of m (ident y) = Some x \<and> stamp y \<le> stamp x"
    and disjoint: "dom (map_of m) \<inter> dom (map_of e) = {}"
  shows "foldl (merge_step ident stamp) (m @ e) l =
      m @ foldl (merge_step ident stamp) e (filter (\<lambda>y. ident y \<notin> dom (map_of m)) l)"
  using assms
proof (induction l arbitrary: e)
  case (Cons y l)
  have dom_m: "dom (map_of m) = fst ` set m"
    by (rule dom_map_of_conv_image_fst)
  show ?case
  proof (cases "ident y \<in> dom (map_of m)")
    case True
    then obtain x where x: "map_of m (ident y) = Some x" "stamp y \<le> stamp x"
      using Cons.prems(1) by auto
    have "map_of e (ident y) = None"
      using True Cons.prems(2) by (auto simp: domIff)
    then have "merge_step ident stamp (m @ e) y = m @ e"
      using x by (simp add: merge_step_def map_add_def)
    with True Cons show ?thesis by simp
  next
    case False
    then have "ident y \<notin> fst ` set m" and "map_of m (ident y) = None"
      by (simp_all add: dom_m [symmetric] domIff)
    then have "merge_step ident stamp (m @ e) y = m @ merge_step ident stamp e y"
      by (auto simp: merge_step_def map_add_def update_append_right split: option.splits)
    moreover have "dom (map_of m) \<inter> dom (map_of (merge_step ident stamp e y)) = {}"
      using False Cons.prems(2) by (auto simp: map_of_merge_step split: option.splits)
    ultimately show ?thesis
      using False Cons.IH [of "merge_step ident stamp e y"] Cons.prems(1) by simp
  qed
qed simp

lemma mergeById_stable:
  assumes distinct: "distinct (map ident r)"
    and survive: "\<And>x. x \<in> set r \<Longrightarrow> outlives ts (ident x) (stamp x)"
    and dominated: "\<And>x y. y \<in> set l \<Longrightarrow> x \<in> set r \<Longrightarrow> ident y = ident x \<Longrightarrow> stamp y \<le> stamp x"
  shows "mergeById ident l r stamp ts =
      r @ mergeById ident (filter (\<lambda>y. ident y \<notin> ident ` set r) l) [] stamp ts"
proof -
  let ?m = "map (\<lambda>x. (ident x, x)) r"
  have dom_m: "dom (map_of ?m) = ident ` set r"
    by (auto simp: dom_map_of_conv_image_fst image_image)
  have "foldl (merge_step ident stamp) (?m @ []) l =
      ?m @ foldl (merge_step ident stamp) [] (filter (\<lambda>y. ident y \<notin> dom (map_of ?m)) l)"
  proof (rule foldl_merge_step_append)
    fix y assume y: "y \<in> set l" "ident y \<in> dom (map_of ?m)"
    then obtain x where x: "x \<in> set r" "ident x = ident y"
      by (auto simp: dom_m)
    then have "map_of ?m (ident y) = Some x"
      using distinct by (simp add: map_of_map_pair_eq_Some_iff)
    with y x dominated [of y x] show "\<exists>x. map_of ?m (ident y) = Some x \<and> stamp y \<le> stamp x"
      by simp
  qed simp
  then have "foldl (merge_step ident stamp) [] (r @ l) =
      ?m @ foldl (merge_step ident stamp) [] (filter (\<lambda>y. ident y \<notin> ident ` set r) l)"
    by (simp add: foldl_merge_step_distinct distinct dom_m)
  moreover have "filter (\<lambda>x. outlives ts (ident x) (stamp x)) r = r"
    using survive by (simp add: filter_id_conv)
  ultimately show ?thesis
    by (simp add: mergeById_def js_values_def o_def)
qed

section \<open>Tombstones\<close>

lemma map_of_merge_tombstones:
  assumes "js_well_formed l"
  shows "map_of (merge_tombstones l r) i =
     (case map_of l i of
        None \<Rightarrow> map_of r i
      | Some w \<Rightarrow> Some (max (case map_of r i of None \<Rightarrow> 0 | Some t \<Rightarrow> t) w))"
  using assms unfolding merge_tombstones_def
proof (induction l arbitrary: r)
  case (Cons p l)
  obtain k a where p: "p = (k, a)" by (cases p)
  have "map_of l k = None"
    using Cons.prems by (simp add: p js_well_formed_def map_of_eq_None_iff)
  moreover have "js_well_formed l"
    using Cons.prems by (simp add: js_well_formed_def)
  ultimately show ?case
    using Cons.IH by (auto simp: p update_conv' split: option.splits)
qed simp

lemma merged_tombstone_covers:
  assumes "js_well_formed l" "map_of l i = Some t \<or> map_of r i = Some t"
  shows "\<exists>t'. map_of (merge_tombstones l r) i = Some t' \<and> t \<le> t'"
  using assms(2) by (auto simp: map_of_merge_tombstones [OF assms(1)] split: option.splits)

lemma mergeById_deleted:
  assumes "map_of ts i = Some t'" "t \<le> t'" "0 < t"
    and older: "\<forall>x\<in>set l \<union> set r. ident x = i \<longrightarrow> stamp x \<le> t"
  shows "i \<notin> ident ` set (mergeById ident l r stamp ts)"
proof
  assume "i \<in> ident ` set (mergeById ident l r stamp ts)"
  then obtain x where x: "wins ident stamp (r @ l) x" "outlives ts (ident x) (stamp x)" "i = ident x"
    by (auto simp: set_mergeById)
  then have "t < stamp x"
    using assms(1-3) by (auto simp: outlives_def)
  moreover have "x \<in> set l \<union> set r"
    using wins_in_set [OF x(1)] by auto
  ultimately show False
    using older x(3) by fastforce
qed

lemma merge_tombstones_well_formed:
  "js_well_formed r \<Longrightarrow> js_well_formed (merge_tombstones l r)"
  unfolding merge_tombstones_def
  by (induction l arbitrary: r) (simp_all add: split_beta)

lemma merge_tombstones_absorb:
  assumes "js_well_formed l" "js_well_formed r"
  shows "map_of (merge_tombstones l (merge_tombstones l r)) = map_of (merge_tombstones l r)"
  using assms by (auto simp: fun_eq_iff map_of_merge_tombstones split: option.splits)

lemma outlives_cong: "map_of ts = map_of ts' \<Longrightarrow> outlives ts = outlives ts'"
  by (simp add: outlives_def fun_eq_iff)

lemma mergeById_cong: "map_of ts = map_of ts' \<Longrightarrow> mergeById ident l r stamp ts = mergeById ident l r stamp ts'"
  using outlives_cong [of ts ts'] by (simp add: mergeById_def)

lemma mergeById_eq_Nil:
  assumes "\<And>y. y \<in> set l \<Longrightarrow> \<not> outlives ts (ident y) (stamp y)"
  shows "mergeById ident l [] stamp ts = []"
proof -
  have "set (mergeById ident l [] stamp ts) = {}"
    using assms by (auto simp: set_mergeById dest: wins_in_set)
  then show ?thesis by simp
qed

lemma not_outlives_mono: "\<not> outlives ts i t \<Longrightarrow> t' \<le> t \<Longrightarrow> \<not> outlives ts i t'"
  by (auto simp: outlives_def split: option.splits)

lemma mergeById_absorb:
  "mergeById ident l (mergeById ident l r stamp ts) stamp ts = mergeById ident l r stamp ts"
proof -
  let ?r' = "mergeById ident l r stamp ts"
  have "mergeById ident l ?r' stamp ts =
      ?r' @ mergeById ident (filter (\<lambda>y. ident y \<notin> ident ` set ?r') l) [] stamp ts"
    by (rule mergeById_stable)
      (auto simp: distinct_mergeById set_mergeById dest: wins_newest)
  moreover have "mergeById ident (filter (\<lambda>y. ident y \<notin> ident ` set ?r') l) [] stamp ts = []"
  proof (rule mergeById_eq_Nil)
    fix y assume y: "y \<in> set (filter (\<lambda>y. ident y \<notin> ident ` set ?r') l)"
    then have "y \<in> set (r @ l)" by simp
    then obtain x where x: "wins ident stamp (r @ l) x" "ident x = ident y" "stamp y \<le> stamp x"
      by (rule wins_exists)
    from y have "ident x \<notin> ident ` set ?r'" by (simp add: x(2))
    then have "x \<notin> set ?r'" by blast
    then have "\<not> outlives ts (ident y) (stamp x)"
      using x(1,2) by (simp add: set_mergeById)
    with x(3) show "\<not> outlives ts (ident y) (stamp y)"
      by (rule not_outlives_mono [rotated])
  qed
  ultimately show ?thesis by simp
qed

lemma wins_append_commute:
  assumes distinct: "distinct (map ident xs)" "distinct (map ident ys)"
    and no_tie: "\<And>x y. x \<in> set xs \<Longrightarrow> y \<in> set ys \<Longrightarrow> ident x = ident y \<Longrightarrow> stamp x = stamp y \<Longrightarrow> x = y"
    and x: "wins ident stamp (xs @ ys) x"
  shows "wins ident stamp (ys @ xs) x"
proof -
  have "x \<in> set (ys @ xs)"
    using wins_in_set [OF x] by auto
  then obtain x' where x': "wins ident stamp (ys @ xs) x'" "ident x' = ident x" "stamp x \<le> stamp x'"
    by (rule wins_exists)
  have mem: "x \<in> set xs \<union> set ys" "x' \<in> set xs \<union> set ys"
    using wins_in_set [OF x] wins_in_set [OF x'(1)] by auto
  have "stamp x' = stamp x"
    using wins_newest [OF x, of x'] mem x'(2,3) by auto
  with mem x'(2) have "x = x'"
    using no_tie [of x x'] no_tie [of x' x] distinct by (auto simp: distinct_map dest: inj_onD)
  with x' show ?thesis by simp
qed

lemma set_mergeById_commute:
  assumes "distinct (map ident l)" "distinct (map ident r)"
    and "\<And>x y. x \<in> set l \<Longrightarrow> y \<in> set r \<Longrightarrow> ident x = ident y \<Longrightarrow> stamp x = stamp y \<Longrightarrow> x = y"
  shows "set (mergeById ident l r stamp ts) = set (mergeById ident r l stamp ts)"
proof -
  have "wins ident stamp (r @ l) x \<longleftrightarrow> wins ident stamp (l @ r) x" for x
    using wins_append_commute [of ident r l stamp x] wins_append_commute [of ident l r stamp x] assms
    by metis
  then show ?thesis by (simp add: set_mergeById)
qed

section \<open>Properties of the vault merge\<close>

lemmas mergeVault_sel =
  mergeVault_def Let_def VaultDocument.select_convs or_empty_simps

text \<open>
  C1. The merged document holds, for every kind, exactly the records that are the last write for
  their identifier among both documents (newest stamp; the remote copy on a tie) and that are newer
  than any tombstone for that identifier, and it holds one record per identifier.
\<close>

theorem mergeVault_last_write_wins:
  "let d = mergeVault l r in
       set (hosts d) = {x. wins host_id hostStamp (hosts r @ hosts l) x
             \<and> outlives (tombstones d) (host_id x) (hostStamp x)}
       \<and> set (keys d) = {x. wins key_id key_createdAt (keys r @ keys l) x
             \<and> outlives (tombstones d) (key_id x) (key_createdAt x)}
       \<and> set (hostKeys d) = {x. wins pin_id pinnedAt (hostKeys r @ hostKeys l) x
             \<and> outlives (tombstones d) (pin_id x) (pinnedAt x)}
       \<and> set (or_empty (snippets d)) =
           {x. wins snippet_id snippet_updatedAt (or_empty (snippets r) @ or_empty (snippets l)) x
             \<and> outlives (tombstones d) (snippet_id x) (snippet_updatedAt x)}
       \<and> distinct (map host_id (hosts d)) \<and> distinct (map key_id (keys d))
       \<and> distinct (map pin_id (hostKeys d)) \<and> distinct (map snippet_id (or_empty (snippets d)))"
  by (simp add: mergeVault_sel set_mergeById distinct_mergeById)

text \<open>
  Two small documents for the examples: a laptop that renamed a host and unpinned a server, and the
  copy the server still holds.
\<close>

definition sample_host :: "string \<Rightarrow> millis \<Rightarrow> Host" where
  "sample_host label w =
     \<lparr>host_id = ''h1'', host_label = label, host_hostname = ''db'', host_port = 22,
      host_username = ''root'', host_auth = None, host_keyId = None, host_agentId = None,
      host_folder = None, host_tags = None, host_createdAt = 10, host_lastUsedAt = None,
      host_updatedAt = Some w\<rparr>"

definition sample_pin :: "millis \<Rightarrow> PinnedHostKey" where
  "sample_pin w =
     \<lparr>pin_id = ''db:22'', pin_key = ''AAAA'', pin_fingerprint = ''SHA256:x'', pin_type = ''ssh-ed25519'',
      pinnedAt = w, lastSeenAt = w\<rparr>"

definition sample_local :: VaultDocument where
  "sample_local = emptyDoc\<lparr>hosts := [sample_host ''renamed'' 30], tombstones := [(''db:22'', 25)]\<rparr>"

definition sample_remote :: VaultDocument where
  "sample_remote = emptyDoc\<lparr>hosts := [sample_host ''old'' 20], hostKeys := [sample_pin 15]\<rparr>"

lemmas sample_defs = sample_local_def sample_remote_def sample_host_def sample_pin_def emptyDoc_def

text \<open>
  C2. Merging loses no write: a host of either document is still in the merged document, in that
  version or a newer one, unless the merged tombstones hold a deletion at least as new.
\<close>

theorem mergeVault_loses_nothing:
  assumes "x \<in> set (hosts l) \<union> set (hosts r)"
  shows "(\<exists>y\<in>set (hosts (mergeVault l r)). host_id y = host_id x \<and> hostStamp x \<le> hostStamp y)
       \<or> (\<exists>t. map_of (tombstones (mergeVault l r)) (host_id x) = Some t \<and> hostStamp x \<le> t)"
  using mergeById_loses_nothing [OF assms, of host_id hostStamp] by (simp add: mergeVault_sel)

theorem mergeVault_loses_nothing_witness:
  "\<exists>y\<in>set (hosts (mergeVault sample_local sample_remote)). host_id y = ''h1'' \<and> 20 \<le> hostStamp y"
  using mergeVault_loses_nothing [of "sample_host ''old'' 20" sample_local sample_remote]
  by (simp add: sample_defs hostStamp_def mergeVault_sel merge_tombstones_def)

text \<open>
  A deletion recorded on either side beats every copy that is not newer than it: no host, key,
  pin or snippet with that identifier is left in the merged document.
\<close>

theorem mergeVault_tombstone_wins:
  assumes wf: "js_well_formed (tombstones l)"
    and tomb: "map_of (tombstones l) i = Some t \<or> map_of (tombstones r) i = Some t"
    and pos: "0 < t"
  shows "((\<forall>x\<in>set (hosts l) \<union> set (hosts r). host_id x = i \<longrightarrow> hostStamp x \<le> t)
            \<longrightarrow> i \<notin> host_id ` set (hosts (mergeVault l r)))
       \<and> ((\<forall>x\<in>set (keys l) \<union> set (keys r). key_id x = i \<longrightarrow> key_createdAt x \<le> t)
            \<longrightarrow> i \<notin> key_id ` set (keys (mergeVault l r)))
       \<and> ((\<forall>x\<in>set (hostKeys l) \<union> set (hostKeys r). pin_id x = i \<longrightarrow> pinnedAt x \<le> t)
            \<longrightarrow> i \<notin> pin_id ` set (hostKeys (mergeVault l r)))
       \<and> ((\<forall>x\<in>set (or_empty (snippets l)) \<union> set (or_empty (snippets r)). snippet_id x = i \<longrightarrow> snippet_updatedAt x \<le> t)
            \<longrightarrow> i \<notin> snippet_id ` set (or_empty (snippets (mergeVault l r))))"
proof -
  obtain t' where t': "map_of (merge_tombstones (tombstones l) (tombstones r)) i = Some t'" "t \<le> t'"
    using merged_tombstone_covers [OF wf tomb] by blast
  show ?thesis
    unfolding mergeVault_sel by (intro conjI impI mergeById_deleted [OF t' pos])
qed

theorem mergeVault_tombstone_wins_witness:
  "''db:22'' \<notin> pin_id ` set (hostKeys (mergeVault sample_local sample_remote))"
  using mergeVault_tombstone_wins [of sample_local "''db:22''" 25 sample_remote]
  by (simp add: sample_defs js_well_formed_def)

text \<open>
  The merge is stable: merging the same local document into its own result changes no record and
  no tombstone, so a repeated sync has nothing left to say.
\<close>

theorem mergeVault_stable:
  assumes "js_well_formed (tombstones l)" "js_well_formed (tombstones r)"
  shows "hosts (mergeVault l (mergeVault l r)) = hosts (mergeVault l r)
       \<and> keys (mergeVault l (mergeVault l r)) = keys (mergeVault l r)
       \<and> hostKeys (mergeVault l (mergeVault l r)) = hostKeys (mergeVault l r)
       \<and> snippets (mergeVault l (mergeVault l r)) = snippets (mergeVault l r)
       \<and> map_of (tombstones (mergeVault l (mergeVault l r))) = map_of (tombstones (mergeVault l r))"
  by (simp add: mergeVault_sel mergeById_absorb merge_tombstones_absorb [OF assms]
      mergeById_cong [OF merge_tombstones_absorb [OF assms]])

theorem mergeVault_stable_witness:
  "hosts (mergeVault sample_local (mergeVault sample_local sample_remote)) = [sample_host ''renamed'' 30]"
proof -
  have "hosts (mergeVault sample_local sample_remote) = [sample_host ''renamed'' 30]"
    by (simp add: sample_defs mergeVault_sel mergeById_def merge_step_def hostStamp_def
        merge_tombstones_def js_values_def outlives_def)
  moreover have "js_well_formed (tombstones sample_local)" "js_well_formed (tombstones sample_remote)"
    by (simp_all add: sample_defs js_well_formed_def)
  ultimately show ?thesis
    using mergeVault_stable [of sample_local sample_remote] by simp
qed

text \<open>
  Which side is called local only matters on a tie: when no identifier has two different copies
  with one stamp, merging the other way round gives the same hosts.
\<close>

theorem mergeVault_symmetric_without_ties:
  assumes "js_well_formed (tombstones l)" "js_well_formed (tombstones r)"
    and "\<forall>t\<in>snd ` set (tombstones l) \<union> snd ` set (tombstones r). 0 \<le> t"
    and "distinct (map host_id (hosts l))" "distinct (map host_id (hosts r))"
    and no_tie: "\<forall>x\<in>set (hosts l). \<forall>y\<in>set (hosts r).
        host_id x = host_id y \<longrightarrow> hostStamp x = hostStamp y \<longrightarrow> x = y"
  shows "set (hosts (mergeVault l r)) = set (hosts (mergeVault r l))"
proof -
  let ?a = "merge_tombstones (tombstones l) (tombstones r)"
  let ?b = "merge_tombstones (tombstones r) (tombstones l)"
  have nonneg: "0 \<le> t" if "map_of (tombstones l) i = Some t \<or> map_of (tombstones r) i = Some t" for i t
  proof -
    have "(i, t) \<in> set (tombstones l) \<union> set (tombstones r)"
      using that by (auto dest: map_of_SomeD)
    then have "t \<in> snd ` set (tombstones l) \<union> snd ` set (tombstones r)"
      by force
    with assms(3) show ?thesis by blast
  qed
  have "map_of ?a i = map_of ?b i" for i
    using nonneg [of i] by (auto simp: map_of_merge_tombstones assms(1,2) max_def split: option.splits)
  then have ts: "map_of ?a = map_of ?b" by (simp add: fun_eq_iff)
  have "set (mergeById host_id (hosts l) (hosts r) hostStamp ?a)
      = set (mergeById host_id (hosts r) (hosts l) hostStamp ?a)"
    using assms(4,5) no_tie by (intro set_mergeById_commute) auto
  then show ?thesis
    by (simp add: mergeVault_sel mergeById_cong [OF ts])
qed

theorem mergeVault_symmetric_without_ties_witness:
  "set (hosts (mergeVault sample_local sample_remote)) = set (hosts (mergeVault sample_remote sample_local))"
  by (rule mergeVault_symmetric_without_ties) (simp_all add: sample_defs js_well_formed_def hostStamp_def)

text \<open>
  On a tie the merge is not symmetric: two copies of one host with the same stamp and different
  contents resolve to whichever side is passed as remote, so the two argument orders disagree.
\<close>

theorem mergeVault_tie_not_symmetric:
  "\<exists>a b. hosts (mergeVault a b) \<noteq> hosts (mergeVault b a)
     \<and> hosts (mergeVault a b) = hosts b \<and> hosts (mergeVault b a) = hosts a"
proof (intro exI conjI)
  let ?a = "emptyDoc\<lparr>hosts := [sample_host ''a'' 20]\<rparr>"
  let ?b = "emptyDoc\<lparr>hosts := [sample_host ''b'' 20]\<rparr>"
  show ab: "hosts (mergeVault ?a ?b) = hosts ?b" and ba: "hosts (mergeVault ?b ?a) = hosts ?a"
    by (simp_all add: sample_defs mergeVault_sel mergeById_def merge_step_def hostStamp_def
        merge_tombstones_def js_values_def outlives_def)
  show "hosts (mergeVault ?a ?b) \<noteq> hosts (mergeVault ?b ?a)"
    unfolding ab ba by (simp add: sample_host_def)
qed

end
