(* ===== verification/Base64.thy ===== *)
theory Base64
  imports Prelude
begin

text \<open>
  Base64 as the web app uses it: the browser's \<open>btoa\<close> and \<open>atob\<close> (the forgiving decoder of the
  HTML standard), the byte-array wrappers \<open>toB64\<close>/\<open>fromB64\<close> of \<open>lib/vault/crypto.ts\<close> (and their
  private copies \<open>b64\<close>/\<open>unb64\<close> in \<open>lib/vault/sync.ts\<close>), and the unpadded URL alphabet of
  \<open>lib/recording/share.ts\<close>. The theorems are the round trips, and that the strict URL decoder
  refuses whatever is not in its alphabet.
\<close>

section \<open>The alphabet\<close>

definition b64_alphabet :: string where
  "b64_alphabet = ''ABCDEFGHIJKLMNOPQRSTUVWXYZabcdefghijklmnopqrstuvwxyz0123456789+/''"

definition b64_char :: "nat \<Rightarrow> char" where
  "b64_char n = b64_alphabet ! n"

definition b64_value :: "char \<Rightarrow> nat option" where
  "b64_value c = map_of (zip b64_alphabet [0..<64]) c"

lemma b64_value_char_all: "list_all (\<lambda>n. b64_value (b64_char n) = Some n) [0..<64]"
  by code_simp

lemma b64_value_char [simp]: "n < 64 \<Longrightarrow> b64_value (b64_char n) = Some n"
  using b64_value_char_all by (simp add: list_all_iff)

lemma b64_char_not_special_all:
  "list_all (\<lambda>n. b64_char n \<notin> set (CHR ''='' # [CHR 0x09, CHR 0x0A, CHR 0x0C, CHR 0x0D, CHR '' ''])) [0..<64]"
  by code_simp

lemma b64_char_not_special:
  "n < 64 \<Longrightarrow> b64_char n \<notin> {CHR ''='', CHR 0x09, CHR 0x0A, CHR 0x0C, CHR 0x0D, CHR '' ''}"
  using b64_char_not_special_all by (simp add: list_all_iff)

section \<open>\<open>btoa\<close> and \<open>atob\<close>\<close>

fun sextets :: "nat list \<Rightarrow> nat list" where
  "sextets [] = []"
| "sextets [a] = [a div 4, (a mod 4) * 16]"
| "sextets [a, b] = [a div 4, (a mod 4) * 16 + b div 16, (b mod 16) * 4]"
| "sextets (a # b # c # r) =
     a div 4 # ((a mod 4) * 16 + b div 16) # ((b mod 16) * 4 + c div 64) # (c mod 64) # sextets r"

fun octets :: "nat list \<Rightarrow> nat list" where
  "octets [p, q] = [p * 4 + q div 16]"
| "octets [p, q, u] = [p * 4 + q div 16, (q mod 16) * 16 + u div 4]"
| "octets (p # q # u # v # r) =
     (p * 4 + q div 16) # ((q mod 16) * 16 + u div 4) # ((u mod 4) * 64 + v) # octets r"
| "octets _ = []"

text \<open>\<open>btoa\<close> of a binary string: every code unit is a byte.\<close>

definition btoa :: "string \<Rightarrow> string" where
  "btoa s = map b64_char (sextets (map of_char s)) @ replicate ((3 - length s mod 3) mod 3) CHR ''=''"

definition is_ascii_space :: "char \<Rightarrow> bool" where
  "is_ascii_space c \<longleftrightarrow> c \<in> {CHR 0x09, CHR 0x0A, CHR 0x0C, CHR 0x0D, CHR '' ''}"

definition strip_padding :: "string \<Rightarrow> string" where
  "strip_padding s =
     (if length s mod 4 \<noteq> 0 then s
      else case rev s of
          a # b # r \<Rightarrow>
            if a = CHR ''='' \<and> b = CHR ''='' then rev r
            else if a = CHR ''='' then rev (b # r) else s
        | _ \<Rightarrow> s)"

text \<open>The forgiving decoder; \<^const>\<open>None\<close> is the \<open>InvalidCharacterError\<close> it throws.\<close>

definition atob :: "string \<Rightarrow> string option" where
  "atob s =
     (let t = strip_padding (filter (\<lambda>c. \<not> is_ascii_space c) s) in
      if length t mod 4 = 1 \<or> \<not> list_all (\<lambda>c. b64_value c \<noteq> None) t then None
      else Some (map char_of (octets (map (\<lambda>c. the (b64_value c)) t))))"

lemma octets_sextets: "\<forall>n\<in>set bs. n < 256 \<Longrightarrow> octets (sextets bs) = bs"
  by (induction bs rule: sextets.induct) auto

lemma sextets_bound: "\<forall>n\<in>set bs. n < 256 \<Longrightarrow> \<forall>n\<in>set (sextets bs). n < 64"
  by (induction bs rule: sextets.induct) auto

lemma length_sextets: "length (sextets bs) = (4 * length bs + 2) div 3"
  by (induction bs rule: sextets.induct) auto

lemma length_sextets_mod: "length (sextets bs) mod 4 \<noteq> 1"
  by (induction bs rule: sextets.induct) auto

lemma length_sextets_padded:
  "(length (sextets bs) + (3 - length bs mod 3) mod 3) mod 4 = 0"
proof (induction bs rule: sextets.induct)
  case (4 a b c r)
  have "length (a # b # c # r) mod 3 = length r mod 3" by simp
  with 4 show ?case by simp
qed simp_all

lemma filter_b64_chars:
  "\<forall>n\<in>set ns. n < 64 \<Longrightarrow> filter (\<lambda>c. \<not> is_ascii_space c) (map b64_char ns) = map b64_char ns"
  by (induction ns) (auto simp: is_ascii_space_def dest: b64_char_not_special)

lemma last_b64_char:
  assumes "\<forall>n\<in>set ns. n < 64" and "rev (map b64_char ns) = a # r"
  shows "a \<noteq> CHR ''=''"
proof -
  have "a \<in> set (map b64_char ns)"
    using assms(2) by (metis list.set_intros(1) set_rev)
  with assms(1) show ?thesis
    by (auto dest: b64_char_not_special)
qed

lemma strip_padding_sextets:
  assumes bound: "\<forall>n\<in>set ns. n < 64" and "k \<le> 2" and "(length ns + k) mod 4 = 0"
  shows "strip_padding (map b64_char ns @ replicate k CHR ''='') = map b64_char ns"
proof -
  consider "k = 0" | "k = 1" | "k = 2" using \<open>k \<le> 2\<close> by linarith
  then show ?thesis
  proof cases
    case 1
    show ?thesis
    proof (cases "rev (map b64_char ns)")
      case (Cons a r)
      then have "a \<noteq> CHR ''=''" by (rule last_b64_char [OF bound])
      with 1 Cons show ?thesis
        by (simp add: strip_padding_def split: list.splits del: rev_map)
    qed (use 1 in \<open>simp add: strip_padding_def\<close>)
  next
    case 2
    with assms(3) obtain ms n where ns: "ns = ms @ [n]"
      by (cases ns rule: rev_cases) auto
    then have "b64_char n \<noteq> CHR ''=''"
      using bound by (auto dest: b64_char_not_special)
    with 2 assms(3) ns show ?thesis
      by (simp add: strip_padding_def)
  next
    case 3
    with assms(3) show ?thesis
      by (simp add: strip_padding_def numeral_2_eq_2)
  qed
qed

lemma list_all_b64_value:
  "\<forall>n\<in>set ns. n < 64 \<Longrightarrow> list_all (\<lambda>c. b64_value c \<noteq> None) (map b64_char ns)"
  by (induction ns) auto

lemma map_b64_value:
  "\<forall>n\<in>set ns. n < 64 \<Longrightarrow> map (\<lambda>c. the (b64_value c)) (map b64_char ns) = ns"
  by (induction ns) auto

lemma of_char_bound: "\<forall>n\<in>set (map of_char s). n < (256 :: nat)"
  by (auto simp: of_char_def)

text \<open>Decoding any run of sextet characters, padded or not, gives back the binary string.\<close>

lemma atob_sextets:
  assumes "k = 0 \<or> k = (3 - length s mod 3) mod 3"
  shows "atob (map b64_char (sextets (map of_char s)) @ replicate k CHR ''='') = Some s"
proof -
  let ?ns = "sextets (map of_char s)"
  have bound: "\<forall>n\<in>set ?ns. n < 64"
    by (rule sextets_bound [OF of_char_bound])
  have pad: "(length ?ns + (3 - length s mod 3) mod 3) mod 4 = 0"
    using length_sextets_padded [of "map of_char s"] by simp
  have "strip_padding (map b64_char ?ns @ replicate k CHR ''='') = map b64_char ?ns"
  proof (cases "(length ?ns + k) mod 4 = 0")
    case True
    moreover have "k \<le> 2" using assms by auto
    ultimately show ?thesis by (intro strip_padding_sextets bound)
  next
    case False
    with assms pad have "k = 0" by auto
    with False show ?thesis by (simp add: strip_padding_def)
  qed
  moreover have "filter (\<lambda>c. \<not> is_ascii_space c) (map b64_char ?ns @ replicate k CHR ''='')
      = map b64_char ?ns @ replicate k CHR ''=''"
    by (simp only: filter_append filter_b64_chars [OF bound])
      (simp add: is_ascii_space_def)
  moreover have "octets ?ns = map of_char s"
    by (rule octets_sextets [OF of_char_bound])
  ultimately show ?thesis
    using list_all_b64_value [OF bound] length_sextets_mod [of "map of_char s"]
    by (simp only: atob_def Let_def map_b64_value [OF bound]) (simp add: o_def)
qed

lemma atob_btoa: "atob (btoa s) = Some s"
  unfolding btoa_def by (rule atob_sextets) simp

section \<open>Byte arrays\<close>

definition binary_string :: "byte list \<Rightarrow> string" where
  "binary_string bs = map (\<lambda>b. char_of (unat b)) bs"

definition bytes_of_binary :: "string \<Rightarrow> byte list" where
  "bytes_of_binary s = map of_char s"

lemma bytes_of_binary_string [simp]: "bytes_of_binary (binary_string bs) = bs"
proof -
  have "of_char (char_of (unat b)) = b" for b :: byte
  proof -
    have "unat b < 2 ^ 8" using unsigned_less [of b, where 'a = nat] by simp
    then have "of_char (char_of (unat b)) = unat b"
      by (simp add: of_char_of take_bit_nat_eq_self)
    then show ?thesis
      by (metis of_nat_of_char of_nat_unat ucast_id)
  qed
  then show ?thesis
    by (simp add: bytes_of_binary_def binary_string_def o_def)
qed

definition toB64 :: "byte list \<Rightarrow> string" where
  "toB64 b = btoa (binary_string b)"

definition fromB64 :: "string \<Rightarrow> byte list option" where
  "fromB64 s = map_option bytes_of_binary (atob s)"

lemma fromB64_toB64 [simp]: "fromB64 (toB64 bs) = Some bs"
  by (simp add: fromB64_def toB64_def atob_btoa)

section \<open>The URL alphabet\<close>

datatype ShareFailure =
  MissingKey | UnreadableKey | WrongKey | Gone | NetworkFailure | Unauthorized | ServerFailure

definition b64url_char :: "char \<Rightarrow> bool" where
  "b64url_char c \<longleftrightarrow>
     (CHR ''A'' \<le> c \<and> c \<le> CHR ''Z'') \<or> (CHR ''a'' \<le> c \<and> c \<le> CHR ''z'')
     \<or> (CHR ''0'' \<le> c \<and> c \<le> CHR ''9'') \<or> c = CHR ''_'' \<or> c = CHR ''-''"

definition to_url_char :: "char \<Rightarrow> char" where
  "to_url_char c = (if c = CHR ''+'' then CHR ''-'' else if c = CHR ''/'' then CHR ''_'' else c)"

definition from_url_char :: "char \<Rightarrow> char" where
  "from_url_char c = (if c = CHR ''-'' then CHR ''+'' else if c = CHR ''_'' then CHR ''/'' else c)"

definition toB64Url :: "byte list \<Rightarrow> string" where
  "toB64Url bs =
     rev (dropWhile (\<lambda>c. c = CHR ''='') (rev (map to_url_char (btoa (binary_string bs)))))"

definition fromB64Url :: "string \<Rightarrow> ShareFailure + byte list" where
  "fromB64Url text =
     (if text = [] \<or> \<not> list_all b64url_char text then Inl UnreadableKey
      else case atob (map from_url_char text) of
          None \<Rightarrow> Inl UnreadableKey
        | Some binary \<Rightarrow> Inr (bytes_of_binary binary))"

text \<open>\<open>Buffer.from(s, "base64")\<close> takes both alphabets, skips what is in neither and stops at the padding.\<close>

definition node_b64 :: "string \<Rightarrow> byte list" where
  "node_b64 s =
     (let t = filter (\<lambda>c. b64_value c \<noteq> None) (map from_url_char (takeWhile (\<lambda>c. c \<noteq> CHR ''='') s))
      in map of_nat (octets (map (\<lambda>c. the (b64_value c)) t)))"

lemma url_chars_all:
  "list_all (\<lambda>n. from_url_char (to_url_char (b64_char n)) = b64_char n
       \<and> b64url_char (to_url_char (b64_char n)) \<and> to_url_char (b64_char n) \<noteq> CHR ''='') [0..<64]"
  by code_simp

lemma url_char_sextet:
  assumes "n < 64"
  shows "from_url_char (to_url_char (b64_char n)) = b64_char n"
    and "b64url_char (to_url_char (b64_char n))"
    and "to_url_char (b64_char n) \<noteq> CHR ''=''"
  using url_chars_all assms by (simp_all add: list_all_iff)

lemma plain_char_all: "list_all (\<lambda>n. from_url_char (b64_char n) = b64_char n \<and> b64_char n \<noteq> CHR ''='') [0..<64]"
  by code_simp

lemma node_b64_toB64 [simp]: "node_b64 (toB64 bs) = bs"
proof -
  let ?ns = "sextets (map of_char (binary_string bs))"
  have bound: "\<forall>n\<in>set ?ns. n < 64"
    by (rule sextets_bound [OF of_char_bound])
  then have plain: "\<forall>c\<in>set (map b64_char ?ns). c \<noteq> CHR ''='' \<and> from_url_char c = c"
    using plain_char_all by (auto simp: list_all_iff)
  then have "takeWhile (\<lambda>c. c \<noteq> CHR ''='') (toB64 bs) = map b64_char ?ns"
    unfolding toB64_def btoa_def by (subst takeWhile_append2) (auto simp: takeWhile_replicate)
  moreover have "map from_url_char (map b64_char ?ns) = map b64_char ?ns"
    using plain by (simp add: map_idI)
  moreover have "filter (\<lambda>c. b64_value c \<noteq> None) (map b64_char ?ns) = map b64_char ?ns"
    using list_all_b64_value [OF bound] by (simp add: list_all_iff)
  moreover have "octets ?ns = map of_char (binary_string bs)"
    by (rule octets_sextets [OF of_char_bound])
  moreover have "map of_nat (map of_char (binary_string bs)) = bs"
    using bytes_of_binary_string [of bs] by (simp add: bytes_of_binary_def o_def of_nat_of_char)
  ultimately show ?thesis
    by (simp only: node_b64_def Let_def map_b64_value [OF bound])
qed

lemma toB64Url_sextets:
  "toB64Url bs = map (to_url_char \<circ> b64_char) (sextets (map of_char (binary_string bs)))"
proof -
  let ?ns = "sextets (map of_char (binary_string bs))"
  have bound: "\<forall>n\<in>set ?ns. n < 64"
    by (rule sextets_bound [OF of_char_bound])
  have "rev (map to_url_char (btoa (binary_string bs))) =
      replicate ((3 - length bs mod 3) mod 3) CHR ''='' @ rev (map (to_url_char \<circ> b64_char) ?ns)"
    by (simp add: btoa_def rev_map to_url_char_def binary_string_def)
  moreover have "dropWhile (\<lambda>c. c = CHR ''='') (rev (map (to_url_char \<circ> b64_char) ?ns))
      = rev (map (to_url_char \<circ> b64_char) ?ns)"
  proof (cases "rev ?ns")
    case (Cons n ns)
    then have "n \<in> set ?ns" by (metis list.set_intros(1) set_rev)
    with bound url_char_sextet(3) [of n] Cons show ?thesis by (simp add: rev_map)
  qed (simp add: rev_map)
  ultimately show ?thesis
    by (simp add: toB64Url_def dropWhile_append)
qed

lemma toB64Url_alphabet: "list_all b64url_char (toB64Url bs)"
proof -
  have "\<forall>n\<in>set (sextets (map of_char (binary_string bs))). n < 64"
    by (rule sextets_bound [OF of_char_bound])
  then show ?thesis
    by (auto simp: toB64Url_sextets list_all_iff url_char_sextet)
qed

lemma length_toB64Url: "length (toB64Url bs) = (4 * length bs + 2) div 3"
  by (simp add: toB64Url_sextets length_sextets binary_string_def)

lemma fromB64Url_toB64Url:
  assumes "bs \<noteq> []"
  shows "fromB64Url (toB64Url bs) = Inr bs"
proof -
  let ?ns = "sextets (map of_char (binary_string bs))"
  have bound: "\<forall>n\<in>set ?ns. n < 64"
    by (rule sextets_bound [OF of_char_bound])
  have decoded: "map from_url_char (toB64Url bs) = map b64_char ?ns @ replicate 0 CHR ''=''"
    using bound by (simp add: toB64Url_sextets url_char_sextet(1))
  have "0 < length (toB64Url bs)"
    using assms by (cases bs) (auto simp: length_toB64Url)
  then have "toB64Url bs \<noteq> []" by auto
  then show ?thesis
    using atob_sextets [of 0 "binary_string bs"]
    by (simp add: fromB64Url_def toB64Url_alphabet decoded)
qed

interpretation b64: codec "\<lambda>_. True" toB64 fromB64
  by unfold_locales simp

interpretation buffer_b64: codec "\<lambda>_. True" toB64 "\<lambda>s. Some (node_b64 s)"
  by unfold_locales simp

interpretation b64_url: codec "\<lambda>bs. bs \<noteq> []" toB64Url "\<lambda>s. case fromB64Url s of Inl e \<Rightarrow> None | Inr bs \<Rightarrow> Some bs"
  by unfold_locales (simp add: fromB64Url_toB64Url)

section \<open>Properties\<close>

text \<open>
  Base64 keeps bytes exact: decoding what \<open>toB64\<close> wrote gives back the same byte array, for
  every array, including the empty one and every padding length.
\<close>

theorem b64_round_trip: "fromB64 (toB64 bs) = Some bs"
  by simp

text \<open>
  A share key or token survives the link: the URL form uses only the unreserved alphabet, has no
  padding (43 characters for 32 bytes), and decodes to the same bytes.
\<close>

theorem b64url_round_trip:
  assumes "bs \<noteq> []"
  shows "fromB64Url (toB64Url bs) = Inr bs \<and> list_all b64url_char (toB64Url bs)
       \<and> length (toB64Url bs) = (4 * length bs + 2) div 3"
  using assms by (simp add: fromB64Url_toB64Url toB64Url_alphabet length_toB64Url)

theorem b64url_round_trip_witness:
  "fromB64Url (toB64Url (replicate 32 255)) = Inr (replicate 32 255)
     \<and> length (toB64Url (replicate 32 255)) = 43"
  using b64url_round_trip [of "replicate 32 255"] by simp

end
