(* ===== verification/Vault_Store.thy ===== *)
theory Vault_Store
  imports Vault_Merge Base64
begin

text \<open>
  What one device holds: the IndexedDB stores and the operations on them (\<open>lib/hosts.ts\<close>,
  \<open>lib/hostkeys.ts\<close>, \<open>lib/snippets.ts\<close>, \<open>lib/keys.ts\<close>, \<open>lib/vault/tombstones.ts\<close>), and the two
  halves of the sync engine that touch them, \<open>readLocalVault\<close> and \<open>applyVaultLocally\<close>
  (\<open>lib/vault/sync.ts\<close>). The clock and the random identifiers are arguments. The theorems say that
  applying a merged document makes the device hold exactly that document, with device-bound keys
  untouched.
\<close>

section \<open>State\<close>

datatype KeyMode = Portable | DeviceBound

text \<open>A \<open>CryptoKey\<close> handle is opaque, so it is only a number here.\<close>

record StoredKey =
  sk_id :: ident
  sk_label :: string
  sk_mode :: KeyMode
  sk_publicKeyRaw :: "byte list"
  sk_wrapped :: "(byte list \<times> byte list) option"
  sk_privateKey :: "nat option"
  sk_createdAt :: millis

record SyncState =
  sync_version :: int
  sync_lastSyncedAt :: millis

record LocalStore =
  st_hosts :: "(ident \<times> Host) list"
  st_keys :: "(ident \<times> StoredKey) list"
  st_pins :: "(ident \<times> PinnedHostKey) list"
  st_snippets :: "(ident \<times> Snippet) list"
  st_tombstones :: Tombstones
  st_sync :: "SyncState option"

definition empty_store :: LocalStore where
  "empty_store = \<lparr>st_hosts = [], st_keys = [], st_pins = [], st_snippets = [], st_tombstones = [],
     st_sync = None\<rparr>"

section \<open>Tombstones\<close>

definition getTombstones :: "LocalStore \<Rightarrow> Tombstones" where
  "getTombstones st = st_tombstones st"

definition setTombstones :: "Tombstones \<Rightarrow> LocalStore \<Rightarrow> LocalStore" where
  "setTombstones ts st = st\<lparr>st_tombstones := ts\<rparr>"

definition recordDeletion :: "millis \<Rightarrow> ident \<Rightarrow> LocalStore \<Rightarrow> LocalStore" where
  "recordDeletion now i st = setTombstones (AList.update i now (getTombstones st)) st"

section \<open>Hosts\<close>

definition listHosts :: "LocalStore \<Rightarrow> Host list" where
  "listHosts st = sort_key (\<lambda>h. - host_createdAt h) (idb_get_all (st_hosts st))"

definition putHost :: "Host \<Rightarrow> LocalStore \<Rightarrow> LocalStore" where
  "putHost h st = st\<lparr>st_hosts := idb_put (host_id h) h (st_hosts st)\<rparr>"

text \<open>
  \<open>saveHost\<close> takes the record without a settled identifier or creation time: \<^const>\<open>None\<close> asks for
  a fresh one. It always moves \<open>updatedAt\<close>.
\<close>

definition saveHost ::
  "ident \<Rightarrow> millis \<Rightarrow> Host \<Rightarrow> ident option \<Rightarrow> millis option \<Rightarrow> LocalStore \<Rightarrow> Host \<times> LocalStore" where
  "saveHost uuid now h id_opt created_opt st =
     (let rec = h\<lparr>host_id := case_option uuid (\<lambda>i. i) id_opt,
                  host_createdAt := case_option now (\<lambda>c. c) created_opt,
                  host_updatedAt := Some now\<rparr>
      in (rec, st\<lparr>st_hosts := idb_put (host_id rec) rec (st_hosts st)\<rparr>))"

definition deleteHost :: "millis \<Rightarrow> ident \<Rightarrow> LocalStore \<Rightarrow> LocalStore" where
  "deleteHost now i st = recordDeletion now i (st\<lparr>st_hosts := idb_delete i (st_hosts st)\<rparr>)"

definition forgetHost :: "ident \<Rightarrow> LocalStore \<Rightarrow> LocalStore" where
  "forgetHost i st = st\<lparr>st_hosts := idb_delete i (st_hosts st)\<rparr>"

text \<open>
  The fields a connection reports. Each optional one is absent (\<^const>\<open>None\<close>) or present with a
  value that may itself be \<open>undefined\<close>; spreading an absent field leaves the saved one alone.
\<close>

record HostFields =
  f_hostname :: string
  f_port :: int
  f_username :: string
  f_keyId :: "ident option option"
  f_auth :: "HostAuth option option"
  f_agentId :: "ident option option"

definition blank_host :: Host where
  "blank_host = \<lparr>host_id = [], host_label = [], host_hostname = [], host_port = 0,
     host_username = [], host_auth = None, host_keyId = None, host_agentId = None, host_folder = None,
     host_tags = None, host_createdAt = 0, host_lastUsedAt = None, host_updatedAt = None\<rparr>"

definition spread_fields :: "HostFields \<Rightarrow> Host \<Rightarrow> Host" where
  "spread_fields f h =
     h\<lparr>host_hostname := f_hostname f, host_port := f_port f, host_username := f_username f,
       host_keyId := case_option (host_keyId h) (\<lambda>v. v) (f_keyId f),
       host_auth := case_option (host_auth h) (\<lambda>v. v) (f_auth f),
       host_agentId := case_option (host_agentId h) (\<lambda>v. v) (f_agentId f)\<rparr>"

definition rememberHost ::
  "ident \<Rightarrow> millis \<Rightarrow> HostFields \<Rightarrow> bool \<Rightarrow> LocalStore \<Rightarrow> Host option \<times> LocalStore" where
  "rememberHost uuid now f create st =
     (let existing = find (\<lambda>h. host_hostname h = f_hostname f \<and> host_port h = f_port f
                              \<and> host_username h = f_username f) (listHosts st)
      in if existing = None \<and> \<not> create then (None, st)
         else
           let base = case_option blank_host (\<lambda>h. h) existing;
               rec = (spread_fields f base)
                 \<lparr>host_label := case_option (f_username f @ ''@'' @ f_hostname f) host_label existing,
                  host_lastUsedAt := Some now\<rparr>;
               (saved, st') = saveHost uuid now rec (map_option host_id existing)
                                (map_option host_createdAt existing) st
           in (Some saved, st'))"

section \<open>Host key pins\<close>

definition idFor :: "string \<Rightarrow> int \<Rightarrow> ident" where
  "idFor host port = host @ '':'' @ show_int port"

definition pinKeyFor :: "string \<Rightarrow> ident option \<Rightarrow> string" where
  "pinKeyFor hostname agentId =
     (case agentId of Some a \<Rightarrow> if a = [] then hostname else ''agent:'' @ a | None \<Rightarrow> hostname)"

definition pinIdFor :: "Host \<Rightarrow> ident" where
  "pinIdFor h = idFor (pinKeyFor (host_hostname h) (host_agentId h)) (host_port h)"

definition getPin :: "string \<Rightarrow> int \<Rightarrow> LocalStore \<Rightarrow> PinnedHostKey option" where
  "getPin host port st = idb_get (st_pins st) (idFor host port)"

definition listPins :: "LocalStore \<Rightarrow> PinnedHostKey list" where
  "listPins st = idb_get_all (st_pins st)"

definition putPin :: "PinnedHostKey \<Rightarrow> LocalStore \<Rightarrow> LocalStore" where
  "putPin p st = st\<lparr>st_pins := idb_put (pin_id p) p (st_pins st)\<rparr>"

definition pin ::
  "millis \<Rightarrow> string \<Rightarrow> int \<Rightarrow> string \<Rightarrow> string \<Rightarrow> string \<Rightarrow> LocalStore \<Rightarrow> PinnedHostKey \<times> LocalStore" where
  "pin now host port key fingerprint type st =
     (let rec = \<lparr>pin_id = idFor host port, pin_key = key, pin_fingerprint = fingerprint,
                 pin_type = type, pinnedAt = now, lastSeenAt = now\<rparr>
      in (rec, putPin rec st))"

definition touchPin :: "millis \<Rightarrow> string \<Rightarrow> int \<Rightarrow> LocalStore \<Rightarrow> LocalStore" where
  "touchPin now host port st =
     (case getPin host port st of
        None \<Rightarrow> st
      | Some existing \<Rightarrow>
          st\<lparr>st_pins := idb_put (pin_id existing) (existing\<lparr>lastSeenAt := now\<rparr>) (st_pins st)\<rparr>)"

definition unpin :: "millis \<Rightarrow> string \<Rightarrow> int \<Rightarrow> LocalStore \<Rightarrow> LocalStore" where
  "unpin now host port st =
     recordDeletion now (idFor host port) (st\<lparr>st_pins := idb_delete (idFor host port) (st_pins st)\<rparr>)"

definition forgetPin :: "ident \<Rightarrow> LocalStore \<Rightarrow> LocalStore" where
  "forgetPin i st = st\<lparr>st_pins := idb_delete i (st_pins st)\<rparr>"

section \<open>Snippets\<close>

text \<open>The snippets are one id-keyed object, read and written whole.\<close>

definition listSnippets :: "LocalStore \<Rightarrow> Snippet list" where
  "listSnippets st = sort_key (\<lambda>s. - snippet_updatedAt s) (js_values (st_snippets st))"

definition putSnippet :: "Snippet \<Rightarrow> LocalStore \<Rightarrow> LocalStore" where
  "putSnippet s st = st\<lparr>st_snippets := AList.update (snippet_id s) s (st_snippets st)\<rparr>"

definition saveSnippet ::
  "ident \<Rightarrow> millis \<Rightarrow> Snippet \<Rightarrow> ident option \<Rightarrow> millis option \<Rightarrow> LocalStore \<Rightarrow> Snippet \<times> LocalStore" where
  "saveSnippet uuid now s id_opt created_opt st =
     (let rec = s\<lparr>snippet_id := case_option uuid (\<lambda>i. i) id_opt,
                  snippet_createdAt := case_option now (\<lambda>c. c) created_opt,
                  snippet_updatedAt := now\<rparr>
      in (rec, st\<lparr>st_snippets := AList.update (snippet_id rec) rec (st_snippets st)\<rparr>))"

definition deleteSnippet :: "millis \<Rightarrow> ident \<Rightarrow> LocalStore \<Rightarrow> LocalStore" where
  "deleteSnippet now i st =
     recordDeletion now i (st\<lparr>st_snippets := AList.delete i (st_snippets st)\<rparr>)"

definition forgetSnippet :: "ident \<Rightarrow> LocalStore \<Rightarrow> LocalStore" where
  "forgetSnippet i st =
     (if map_of (st_snippets st) i = None then st
      else st\<lparr>st_snippets := AList.delete i (st_snippets st)\<rparr>)"

section \<open>Keys\<close>

definition listStoredKeys :: "LocalStore \<Rightarrow> StoredKey list" where
  "listStoredKeys st = sort_key sk_createdAt (idb_get_all (st_keys st))"

definition putStoredKey :: "StoredKey \<Rightarrow> LocalStore \<Rightarrow> LocalStore" where
  "putStoredKey k st = st\<lparr>st_keys := idb_put (sk_id k) k (st_keys st)\<rparr>"

definition deleteKey :: "millis \<Rightarrow> ident \<Rightarrow> LocalStore \<Rightarrow> LocalStore" where
  "deleteKey now i st = recordDeletion now i (st\<lparr>st_keys := idb_delete i (st_keys st)\<rparr>)"

definition forgetStoredKey :: "ident \<Rightarrow> LocalStore \<Rightarrow> LocalStore" where
  "forgetStoredKey i st = st\<lparr>st_keys := idb_delete i (st_keys st)\<rparr>"

definition toSyncedKey :: "StoredKey \<Rightarrow> SyncedKey option" where
  "toSyncedKey k =
     (case sk_wrapped k of
        Some (iv, ciphertext) \<Rightarrow>
          if sk_mode k \<noteq> Portable then None
          else Some \<lparr>key_id = sk_id k, key_label = sk_label k, key_publicKeyRaw = toB64 (sk_publicKeyRaw k),
                 key_wrapped_iv = toB64 iv, key_wrapped_ciphertext = toB64 ciphertext,
                 key_createdAt = sk_createdAt k\<rparr>
      | None \<Rightarrow> None)"

text \<open>\<open>unb64\<close> throws on text that is not base64, so the result is optional.\<close>

definition fromSyncedKey :: "SyncedKey \<Rightarrow> StoredKey option" where
  "fromSyncedKey k =
     (case (fromB64 (key_publicKeyRaw k), fromB64 (key_wrapped_iv k), fromB64 (key_wrapped_ciphertext k)) of
        (Some raw, Some iv, Some ciphertext) \<Rightarrow>
          Some \<lparr>sk_id = key_id k, sk_label = key_label k, sk_mode = Portable, sk_publicKeyRaw = raw,
                sk_wrapped = Some (iv, ciphertext), sk_privateKey = None, sk_createdAt = key_createdAt k\<rparr>
      | _ \<Rightarrow> None)"

section \<open>Reading and applying a whole document\<close>

definition readLocalVault :: "millis \<Rightarrow> LocalStore \<Rightarrow> VaultDocument" where
  "readLocalVault now st =
     \<lparr>hosts = listHosts st, keys = List.map_filter toSyncedKey (listStoredKeys st),
      hostKeys = listPins st, snippets = Some (listSnippets st), tombstones = getTombstones st,
      updatedAt = now\<rparr>"

text \<open>
  \<open>removeDeleted\<close>: the ids \<open>before\<close> held and \<open>after\<close> does not, dropped one at a time.
\<close>

definition removeDeleted ::
  "('r \<Rightarrow> ident) \<Rightarrow> 'r list \<Rightarrow> 'r list \<Rightarrow> (ident \<Rightarrow> LocalStore \<Rightarrow> LocalStore) \<Rightarrow> LocalStore \<Rightarrow> LocalStore" where
  "removeDeleted ident before after forget st =
     foldl (\<lambda>st item. forget (ident item) st) st
       (filter (\<lambda>item. ident item \<notin> set (map ident after)) before)"

text \<open>Landing the keys stops at the first one whose base64 is broken: \<^const>\<open>Inl\<close> carries the state left behind.\<close>

fun put_synced_keys :: "SyncedKey list \<Rightarrow> LocalStore \<Rightarrow> LocalStore + LocalStore" where
  "put_synced_keys [] st = Inr st"
| "put_synced_keys (k # ks) st =
     (case fromSyncedKey k of None \<Rightarrow> Inl st | Some rec \<Rightarrow> put_synced_keys ks (putStoredKey rec st))"

definition applyVaultLocally ::
  "VaultDocument \<Rightarrow> VaultDocument \<Rightarrow> LocalStore \<Rightarrow> LocalStore + LocalStore" where
  "applyVaultLocally merged previous st =
     (case put_synced_keys (keys merged) (foldl (\<lambda>st h. putHost h st) st (hosts merged)) of
        Inl st' \<Rightarrow> Inl st'
      | Inr st1 \<Rightarrow>
          let st2 = foldl (\<lambda>st p. putPin p st) st1 (hostKeys merged);
              st3 = foldl (\<lambda>st s. putSnippet s st) st2 (or_empty (snippets merged));
              st4 = setTombstones (tombstones merged) st3;
              st5 = removeDeleted host_id (hosts previous) (hosts merged) forgetHost st4;
              st6 = removeDeleted key_id (keys previous) (keys merged) forgetStoredKey st5;
              st7 = removeDeleted pin_id (hostKeys previous) (hostKeys merged) forgetPin st6
          in Inr (removeDeleted snippet_id (or_empty (snippets previous)) (or_empty (snippets merged))
                    forgetSnippet st7))"

section \<open>The store invariant\<close>

text \<open>
  Every store is keyed by the identifier of the record it holds, the object stores are sorted by key,
  and the two objects have one entry per key.
\<close>

definition keyed_by :: "('r \<Rightarrow> ident) \<Rightarrow> (ident \<times> 'r) list \<Rightarrow> bool" where
  "keyed_by ident m \<longleftrightarrow> (\<forall>(k, r) \<in> set m. ident r = k)"

definition store_wf :: "LocalStore \<Rightarrow> bool" where
  "store_wf st \<longleftrightarrow>
     idb_sorted (st_hosts st) \<and> keyed_by host_id (st_hosts st)
     \<and> idb_sorted (st_keys st) \<and> keyed_by sk_id (st_keys st)
     \<and> idb_sorted (st_pins st) \<and> keyed_by pin_id (st_pins st)
     \<and> js_well_formed (st_snippets st) \<and> keyed_by snippet_id (st_snippets st)
     \<and> js_well_formed (st_tombstones st)"

lemma set_idb_put_subset: "set (idb_put k v s) \<subseteq> insert (k, v) (set s)"
  by (induction k v s rule: idb_put.induct) auto

lemma keyed_by_idb_put [simp]: "ident r = k \<Longrightarrow> keyed_by ident m \<Longrightarrow> keyed_by ident (idb_put k r m)"
  using set_idb_put_subset [of k r m] by (auto simp: keyed_by_def)

lemma keyed_by_idb_delete [simp]: "keyed_by ident m \<Longrightarrow> keyed_by ident (idb_delete i m)"
  by (auto simp: keyed_by_def idb_delete_def)

lemma keyed_by_update [simp]: "ident r = k \<Longrightarrow> keyed_by ident m \<Longrightarrow> keyed_by ident (AList.update k r m)"
  by (induction m) (auto simp: keyed_by_def)

lemma keyed_by_delete [simp]: "keyed_by ident m \<Longrightarrow> keyed_by ident (AList.delete i m)"
  by (induction m) (auto simp: keyed_by_def)

lemma keyed_byD: "keyed_by ident m \<Longrightarrow> map_of m k = Some r \<Longrightarrow> ident r = k"
  by (auto simp: keyed_by_def dest: map_of_SomeD)

lemmas store_op_defs =
  setTombstones_def getTombstones_def recordDeletion_def putHost_def saveHost_def deleteHost_def
  forgetHost_def putPin_def pin_def unpin_def forgetPin_def putSnippet_def saveSnippet_def
  deleteSnippet_def forgetSnippet_def putStoredKey_def deleteKey_def forgetStoredKey_def

lemma getPin_keyed: "store_wf st \<Longrightarrow> getPin host port st = Some p \<Longrightarrow> pin_id p = idFor host port"
  by (auto simp: getPin_def idb_get_def store_wf_def dest: keyed_byD)

lemma rememberHost_wf:
  "store_wf st \<Longrightarrow> store_wf (snd (rememberHost uuid now f create st))"
  by (auto simp: rememberHost_def saveHost_def Let_def store_wf_def idb_sorted_put split: option.splits)

lemma touchPin_wf: "store_wf st \<Longrightarrow> store_wf (touchPin now host port st)"
  by (auto simp: touchPin_def store_wf_def idb_sorted_put split: option.splits)

text \<open>
  The steps a device takes on its own store: every local operation, with the clock and the fresh
  identifier it reads as free parameters, and the landing of any document.
\<close>

inductive local_step :: "LocalStore \<Rightarrow> LocalStore \<Rightarrow> bool" where
  step_saveHost: "local_step st (snd (saveHost uuid now h i c st))"
| step_rememberHost: "local_step st (snd (rememberHost uuid now f create st))"
| step_deleteHost: "local_step st (deleteHost now i st)"
| step_pin: "local_step st (snd (pin now host port key fp type st))"
| step_touchPin: "local_step st (touchPin now host port st)"
| step_unpin: "local_step st (unpin now host port st)"
| step_saveSnippet: "local_step st (snd (saveSnippet uuid now s i c st))"
| step_deleteSnippet: "local_step st (deleteSnippet now i st)"
| step_putStoredKey: "local_step st (putStoredKey k st)"
| step_deleteKey: "local_step st (deleteKey now i st)"
| step_apply: "js_well_formed (tombstones r) \<Longrightarrow> local_step st (case applyVaultLocally (mergeVault l r) l st of Inl st' \<Rightarrow> st' | Inr st' \<Rightarrow> st')"

inductive reachable_store :: "LocalStore \<Rightarrow> bool" where
  start: "reachable_store empty_store"
| step: "reachable_store st \<Longrightarrow> local_step st st' \<Longrightarrow> reachable_store st'"

lemma store_wf_empty [simp]: "store_wf empty_store"
  by (simp add: store_wf_def empty_store_def keyed_by_def js_well_formed_def idb_sorted_def)

lemma store_wf_puts [simp]:
  "store_wf st \<Longrightarrow> store_wf (putHost h st)" "store_wf st \<Longrightarrow> store_wf (putPin p st)"
  "store_wf st \<Longrightarrow> store_wf (putSnippet s st)" "store_wf st \<Longrightarrow> store_wf (putStoredKey k st)"
  "store_wf st \<Longrightarrow> js_well_formed ts \<Longrightarrow> store_wf (setTombstones ts st)"
  by (simp_all add: store_wf_def store_op_defs idb_sorted_put js_map.wf_put)

lemma store_wf_forgets [simp]:
  "store_wf st \<Longrightarrow> store_wf (forgetHost i st)" "store_wf st \<Longrightarrow> store_wf (forgetPin i st)"
  "store_wf st \<Longrightarrow> store_wf (forgetSnippet i st)" "store_wf st \<Longrightarrow> store_wf (forgetStoredKey i st)"
  by (simp_all add: store_wf_def store_op_defs idb_sorted_delete js_map.wf_drop)

lemma store_wf_foldl:
  "(\<And>st x. store_wf st \<Longrightarrow> store_wf (f st x)) \<Longrightarrow> store_wf st \<Longrightarrow> store_wf (foldl f st xs)"
  by (induction xs arbitrary: st) simp_all

lemma store_wf_put_synced_keys:
  "store_wf st \<Longrightarrow> store_wf (case put_synced_keys ks st of Inl s \<Rightarrow> s | Inr s \<Rightarrow> s)"
  by (induction ks st rule: put_synced_keys.induct) (auto split: option.splits)

lemma store_wf_apply:
  assumes "store_wf st" "js_well_formed (tombstones merged)"
  shows "store_wf (case applyVaultLocally merged previous st of Inl s \<Rightarrow> s | Inr s \<Rightarrow> s)"
proof -
  have "store_wf (foldl (\<lambda>st h. putHost h st) st (hosts merged))"
    using assms(1) by (rule store_wf_foldl [rotated]) simp
  from store_wf_put_synced_keys [OF this, of "keys merged"] show ?thesis
    using assms(2)
    by (auto simp: applyVaultLocally_def removeDeleted_def Let_def intro!: store_wf_foldl store_wf_puts(5) split: sum.splits)
qed

section \<open>Whole-document writes as single updates\<close>

lemma foldl_putHost:
  "foldl (\<lambda>st h. putHost h st) st hs =
     st\<lparr>st_hosts := foldl (\<lambda>s h. idb_put (host_id h) h s) (st_hosts st) hs\<rparr>"
  by (induction hs arbitrary: st) (simp_all add: putHost_def)

lemma foldl_putPin:
  "foldl (\<lambda>st p. putPin p st) st ps =
     st\<lparr>st_pins := foldl (\<lambda>s p. idb_put (pin_id p) p s) (st_pins st) ps\<rparr>"
  by (induction ps arbitrary: st) (simp_all add: putPin_def)

lemma foldl_putSnippet:
  "foldl (\<lambda>st x. putSnippet x st) st xs =
     st\<lparr>st_snippets := foldl (\<lambda>s x. AList.update (snippet_id x) x s) (st_snippets st) xs\<rparr>"
  by (induction xs arbitrary: st) (simp_all add: putSnippet_def)

lemma put_synced_keys_ok:
  "\<forall>k\<in>set ks. fromSyncedKey k \<noteq> None \<Longrightarrow>
     put_synced_keys ks st =
       Inr (st\<lparr>st_keys := foldl (\<lambda>s k. idb_put (key_id k) (the (fromSyncedKey k)) s) (st_keys st) ks\<rparr>)"
proof (induction ks arbitrary: st)
  case (Cons k ks)
  then obtain rec where rec: "fromSyncedKey k = Some rec" by auto
  then have "sk_id rec = key_id k"
    by (auto simp: fromSyncedKey_def split: option.splits prod.splits)
  with Cons rec show ?case by (simp add: putStoredKey_def)
qed simp

lemma removeDeleted_forgetHost:
  "removeDeleted ident b a forgetHost st =
     st\<lparr>st_hosts := foldl (\<lambda>s r. idb_delete (ident r) s) (st_hosts st)
          (filter (\<lambda>r. ident r \<notin> set (map ident a)) b)\<rparr>"
proof -
  have "foldl (\<lambda>st r. forgetHost (ident r) st) st rs =
      st\<lparr>st_hosts := foldl (\<lambda>s r. idb_delete (ident r) s) (st_hosts st) rs\<rparr>" for rs
    by (induction rs arbitrary: st) (simp_all add: forgetHost_def)
  then show ?thesis by (simp add: removeDeleted_def)
qed

lemma removeDeleted_forgetStoredKey:
  "removeDeleted ident b a forgetStoredKey st =
     st\<lparr>st_keys := foldl (\<lambda>s r. idb_delete (ident r) s) (st_keys st)
          (filter (\<lambda>r. ident r \<notin> set (map ident a)) b)\<rparr>"
proof -
  have "foldl (\<lambda>st r. forgetStoredKey (ident r) st) st rs =
      st\<lparr>st_keys := foldl (\<lambda>s r. idb_delete (ident r) s) (st_keys st) rs\<rparr>" for rs
    by (induction rs arbitrary: st) (simp_all add: forgetStoredKey_def)
  then show ?thesis by (simp add: removeDeleted_def)
qed

lemma removeDeleted_forgetPin:
  "removeDeleted ident b a forgetPin st =
     st\<lparr>st_pins := foldl (\<lambda>s r. idb_delete (ident r) s) (st_pins st)
          (filter (\<lambda>r. ident r \<notin> set (map ident a)) b)\<rparr>"
proof -
  have "foldl (\<lambda>st r. forgetPin (ident r) st) st rs =
      st\<lparr>st_pins := foldl (\<lambda>s r. idb_delete (ident r) s) (st_pins st) rs\<rparr>" for rs
    by (induction rs arbitrary: st) (simp_all add: forgetPin_def)
  then show ?thesis by (simp add: removeDeleted_def)
qed

lemma forgetSnippet_eq: "forgetSnippet i st = st\<lparr>st_snippets := AList.delete i (st_snippets st)\<rparr>"
proof (cases "map_of (st_snippets st) i")
  case None
  then have "AList.delete i (st_snippets st) = st_snippets st"
    by (simp add: delete_id map_of_eq_None_iff)
  with None show ?thesis by (simp add: forgetSnippet_def)
qed (simp add: forgetSnippet_def)

lemma removeDeleted_forgetSnippet:
  "removeDeleted ident b a forgetSnippet st =
     st\<lparr>st_snippets := foldl (\<lambda>s r. AList.delete (ident r) s) (st_snippets st)
          (filter (\<lambda>r. ident r \<notin> set (map ident a)) b)\<rparr>"
proof -
  have "foldl (\<lambda>st r. forgetSnippet (ident r) st) st rs =
      st\<lparr>st_snippets := foldl (\<lambda>s r. AList.delete (ident r) s) (st_snippets st) rs\<rparr>" for rs
    by (induction rs arbitrary: st) (simp_all add: forgetSnippet_eq)
  then show ?thesis by (simp add: removeDeleted_def)
qed

lemmas apply_folds =
  foldl_putHost foldl_putPin foldl_putSnippet removeDeleted_forgetHost removeDeleted_forgetStoredKey
  removeDeleted_forgetPin removeDeleted_forgetSnippet setTombstones_def

section \<open>What applying a document leaves in a store\<close>

text \<open>
  The specification of landing one kind: an identifier of the merged list holds the merged record; one
  the previous list held and the merged list does not is gone; every other entry is as it was.
\<close>

definition landed ::
  "('r \<Rightarrow> 'k) \<Rightarrow> ('r \<Rightarrow> 'v) \<Rightarrow> 'r list \<Rightarrow> 'r list \<Rightarrow> ('k \<Rightarrow> 'v option) \<Rightarrow> 'k \<Rightarrow> 'v option" where
  "landed ident val merged previous old i =
     (case map_of (map (\<lambda>r. (ident r, val r)) merged) i of
        Some v \<Rightarrow> Some v
      | None \<Rightarrow> if i \<in> ident ` set previous then None else old i)"

context keyed_container begin

lemma get_landed:
  assumes "distinct (map ident merged)"
  shows "get (foldl (\<lambda>s r. drop_key (ident r) s)
            (foldl (\<lambda>s r. put (ident r) (val r) s) s merged)
            (filter (\<lambda>r. ident r \<notin> set (map ident merged)) previous)) =
         landed ident val merged previous (get s)"
proof
  fix i
  have "map_of (map (\<lambda>r. (ident r, val r)) merged) i = None \<longleftrightarrow> i \<notin> ident ` set merged"
    by (simp add: map_of_eq_None_iff image_image)
  then show "get (foldl (\<lambda>s r. drop_key (ident r) s)
            (foldl (\<lambda>s r. put (ident r) (val r) s) s merged)
            (filter (\<lambda>r. ident r \<notin> set (map ident merged)) previous)) i =
         landed ident val merged previous (get s) i"
    by (cases "i \<in> ident ` set merged")
      (auto simp: get_drop_all get_put_all [OF assms] landed_def map_add_def split: option.splits, metis imageI)
qed

lemma wf_landed:
  "wf s \<Longrightarrow> wf (foldl (\<lambda>s r. drop_key (ident r) s)
            (foldl (\<lambda>s r. put (ident r) (val r) s) s merged) rs)"
  by (intro wf_drop_all wf_put_all)

end

text \<open>The store \<open>applyVaultLocally\<close> leaves behind, kind by kind.\<close>

definition document_ids_distinct :: "VaultDocument \<Rightarrow> bool" where
  "document_ids_distinct d \<longleftrightarrow>
     distinct (map host_id (hosts d)) \<and> distinct (map key_id (keys d))
     \<and> distinct (map pin_id (hostKeys d)) \<and> distinct (map snippet_id (or_empty (snippets d)))"

lemma document_ids_distinct_merge: "document_ids_distinct (mergeVault l r)"
  by (simp add: document_ids_distinct_def mergeVault_sel distinct_mergeById)

lemma applyVaultLocally_returns:
  "\<forall>k\<in>set (keys merged). fromSyncedKey k \<noteq> None \<Longrightarrow> \<exists>st'. applyVaultLocally merged previous st = Inr st'"
  by (simp add: applyVaultLocally_def put_synced_keys_ok Let_def)

lemma applyVaultLocally_lookup:
  assumes keys_ok: "\<forall>k\<in>set (keys merged). fromSyncedKey k \<noteq> None"
    and distinct: "document_ids_distinct merged"
    and ret: "applyVaultLocally merged previous st = Inr st'"
  shows "idb_get (st_hosts st') = landed host_id (\<lambda>h. h) (hosts merged) (hosts previous) (idb_get (st_hosts st))"
    and "idb_get (st_keys st') =
      landed key_id (\<lambda>k. the (fromSyncedKey k)) (keys merged) (keys previous) (idb_get (st_keys st))"
    and "idb_get (st_pins st') = landed pin_id (\<lambda>p. p) (hostKeys merged) (hostKeys previous) (idb_get (st_pins st))"
    and "map_of (st_snippets st') =
      landed snippet_id (\<lambda>s. s) (or_empty (snippets merged)) (or_empty (snippets previous)) (map_of (st_snippets st))"
    and "st_tombstones st' = tombstones merged"
    and "st_sync st' = st_sync st"
    and "store_wf st \<Longrightarrow> idb_sorted (st_hosts st') \<and> idb_sorted (st_keys st')
      \<and> idb_sorted (st_pins st') \<and> js_well_formed (st_snippets st')"
proof -
  have d: "distinct (map host_id (hosts merged))" "distinct (map key_id (keys merged))"
      "distinct (map pin_id (hostKeys merged))" "distinct (map snippet_id (or_empty (snippets merged)))"
    using distinct by (simp_all add: document_ids_distinct_def)
  let ?drop = "\<lambda>ident m p. filter (\<lambda>r. ident r \<notin> set (map ident m)) p"
  have st': "st' = st\<lparr>
      st_hosts := foldl (\<lambda>s r. idb_delete (host_id r) s)
        (foldl (\<lambda>s r. idb_put (host_id r) r s) (st_hosts st) (hosts merged))
        (?drop host_id (hosts merged) (hosts previous)),
      st_keys := foldl (\<lambda>s r. idb_delete (key_id r) s)
        (foldl (\<lambda>s r. idb_put (key_id r) (the (fromSyncedKey r)) s) (st_keys st) (keys merged))
        (?drop key_id (keys merged) (keys previous)),
      st_pins := foldl (\<lambda>s r. idb_delete (pin_id r) s)
        (foldl (\<lambda>s r. idb_put (pin_id r) r s) (st_pins st) (hostKeys merged))
        (?drop pin_id (hostKeys merged) (hostKeys previous)),
      st_snippets := foldl (\<lambda>s r. AList.delete (snippet_id r) s)
        (foldl (\<lambda>s r. AList.update (snippet_id r) r s) (st_snippets st) (or_empty (snippets merged)))
        (?drop snippet_id (or_empty (snippets merged)) (or_empty (snippets previous))),
      st_tombstones := tombstones merged\<rparr>"
    using ret by (cases st) (auto simp: applyVaultLocally_def put_synced_keys_ok [OF keys_ok] apply_folds Let_def)
  show "idb_get (st_hosts st') = landed host_id (\<lambda>h. h) (hosts merged) (hosts previous) (idb_get (st_hosts st))"
    using idb_store.get_landed [OF d(1), of "\<lambda>h. h"] by (simp add: st')
  show "idb_get (st_keys st') =
      landed key_id (\<lambda>k. the (fromSyncedKey k)) (keys merged) (keys previous) (idb_get (st_keys st))"
    using idb_store.get_landed [OF d(2)] by (simp add: st')
  show "idb_get (st_pins st') = landed pin_id (\<lambda>p. p) (hostKeys merged) (hostKeys previous) (idb_get (st_pins st))"
    using idb_store.get_landed [OF d(3), of "\<lambda>h. h"] by (simp add: st')
  show "map_of (st_snippets st') =
      landed snippet_id (\<lambda>s. s) (or_empty (snippets merged)) (or_empty (snippets previous)) (map_of (st_snippets st))"
    using js_map.get_landed [OF d(4), of "\<lambda>h. h"] by (simp add: st')
  show "st_tombstones st' = tombstones merged" "st_sync st' = st_sync st"
    by (simp_all add: st')
  show "store_wf st \<Longrightarrow> idb_sorted (st_hosts st') \<and> idb_sorted (st_keys st')
      \<and> idb_sorted (st_pins st') \<and> js_well_formed (st_snippets st')"
    by (simp add: st' store_wf_def idb_store.wf_landed js_map.wf_landed)
qed

lemma ran_landed:
  assumes "distinct (map ident merged)"
    and "\<And>i v. old i = Some v \<Longrightarrow> i \<in> ident ` set previous"
  shows "ran (landed ident val merged previous old) = val ` set merged"
proof -
  have "landed ident val merged previous old = map_of (map (\<lambda>r. (ident r, val r)) merged)"
    using assms(2) by (fastforce simp: landed_def fun_eq_iff split: option.splits)
  moreover have "ran (map_of (map (\<lambda>r. (ident r, val r)) merged)) = val ` set merged"
    using assms(1) by (subst ran_distinct) (auto simp: o_def image_image)
  ultimately show ?thesis by simp
qed

lemma old_in_listing:
  "keyed_by ident m \<Longrightarrow> map_of m i = Some v \<Longrightarrow> i \<in> ident ` set (map snd m)"
  by (force simp: keyed_by_def dest: map_of_SomeD)

lemma set_listHosts: "idb_sorted (st_hosts st) \<Longrightarrow> set (listHosts st) = ran (idb_get (st_hosts st))"
  by (simp add: listHosts_def idb_store.set_listing)

lemma set_listPins: "idb_sorted (st_pins st) \<Longrightarrow> set (listPins st) = ran (idb_get (st_pins st))"
  by (simp add: listPins_def idb_store.set_listing)

lemma set_listSnippets: "js_well_formed (st_snippets st) \<Longrightarrow> set (listSnippets st) = ran (map_of (st_snippets st))"
  by (simp add: listSnippets_def js_map.set_listing)

lemma set_listStoredKeys: "idb_sorted (st_keys st) \<Longrightarrow> set (listStoredKeys st) = ran (idb_get (st_keys st))"
  by (simp add: listStoredKeys_def idb_store.set_listing)

lemma toSyncedKey_id: "toSyncedKey r = Some k \<Longrightarrow> key_id k = sk_id r"
  by (auto simp: toSyncedKey_def split: option.splits if_splits)

text \<open>A synced key in the form this code writes it: its base64 decodes, and encodes back unchanged.\<close>

definition canonical_key :: "SyncedKey \<Rightarrow> bool" where
  "canonical_key k = (case fromSyncedKey k of None \<Rightarrow> False | Some r \<Rightarrow> toSyncedKey r = Some k)"

lemma canonical_toSyncedKey: "toSyncedKey r = Some k \<Longrightarrow> canonical_key k"
  by (auto simp: toSyncedKey_def canonical_key_def fromSyncedKey_def split: option.splits if_splits)

lemma set_map_filter_conv: "set (List.map_filter f xs) = {y. \<exists>x\<in>set xs. f x = Some y}"
  by (induction xs) (auto split: option.splits)

lemma set_synced_keys:
  "idb_sorted (st_keys st) \<Longrightarrow>
     set (keys (readLocalVault now st)) = {k. \<exists>r\<in>ran (idb_get (st_keys st)). toSyncedKey r = Some k}"
  by (simp add: readLocalVault_def set_map_filter_conv set_listStoredKeys)

text \<open>An entry whose identifier the synced view does not list is one this device never sends.\<close>

lemma not_listed_not_synced:
  assumes "idb_sorted (st_keys st)" "keyed_by sk_id (st_keys st)" "idb_get (st_keys st) i = Some r"
    and "i \<notin> key_id ` set (keys (readLocalVault now st))"
  shows "toSyncedKey r = None"
proof (rule ccontr)
  assume "toSyncedKey r \<noteq> None"
  then obtain k where k: "toSyncedKey r = Some k" by blast
  then have "k \<in> set (keys (readLocalVault now st))"
    using assms(1,3) by (auto simp: set_synced_keys ran_def)
  moreover have "key_id k = i"
    using toSyncedKey_id [OF k] keyed_byD [OF assms(2)] assms(3) by (simp add: idb_get_def)
  ultimately show False using assms(4) by blast
qed

lemma synced_keys_landed:
  assumes sorted': "idb_sorted (st_keys st')"
    and look: "idb_get (st_keys st') =
      landed key_id (\<lambda>k. the (fromSyncedKey k)) ks (keys (readLocalVault now st)) (idb_get (st_keys st))"
    and wf: "idb_sorted (st_keys st)" "keyed_by sk_id (st_keys st)"
    and distinct: "distinct (map key_id ks)"
    and canonical: "\<forall>k\<in>set ks. canonical_key k"
  shows "set (keys (readLocalVault now' st')) = set ks"
proof -
  let ?m = "map_of (map (\<lambda>k. (key_id k, the (fromSyncedKey k))) ks)"
  have unwrap: "toSyncedKey (the (fromSyncedKey k)) = Some k" if "k \<in> set ks" for k
    using canonical that by (fastforce simp: canonical_key_def split: option.splits)
  have m: "?m i = Some r \<longleftrightarrow> (\<exists>k\<in>set ks. key_id k = i \<and> r = the (fromSyncedKey k))" for i r
    using distinct by (subst map_of_eq_Some_iff) (auto simp: o_def)
  have "k \<in> set ks" if r: "idb_get (st_keys st') i = Some r" and k: "toSyncedKey r = Some k" for i r k
  proof (cases "?m i")
    case None
    with r look have "idb_get (st_keys st) i = Some r" "i \<notin> key_id ` set (keys (readLocalVault now st))"
      by (auto simp: landed_def split: if_splits)
    then have "toSyncedKey r = None"
      by (rule not_listed_not_synced [OF wf])
    with k show ?thesis by simp
  next
    case (Some v)
    with r look have "?m i = Some r" by (simp add: landed_def)
    with k unwrap show ?thesis by (auto simp: m)
  qed
  moreover have "\<exists>r i. idb_get (st_keys st') i = Some r \<and> toSyncedKey r = Some k" if "k \<in> set ks" for k
  proof -
    have "?m (key_id k) = Some (the (fromSyncedKey k))"
      using that by (auto simp: m)
    then have "idb_get (st_keys st') (key_id k) = Some (the (fromSyncedKey k))"
      by (simp add: look landed_def)
    with unwrap [OF that] show ?thesis by blast
  qed
  ultimately show ?thesis
    unfolding set_synced_keys [OF sorted'] by (auto simp: ran_def)
qed

lemma local_step_wf: "local_step st st' \<Longrightarrow> store_wf st \<Longrightarrow> store_wf st'"
proof (induction rule: local_step.induct)
  case (step_apply r st l)
  then show ?case
    by (intro store_wf_apply) (simp_all add: mergeVault_def Let_def merge_tombstones_well_formed)
qed (auto simp: store_wf_def store_op_defs idb_sorted_put idb_sorted_delete js_map.wf_put js_map.wf_drop
    Let_def rememberHost_wf [unfolded store_wf_def] touchPin_wf [unfolded store_wf_def])

lemma reachable_store_wf: "reachable_store st \<Longrightarrow> store_wf st"
  by (induction rule: reachable_store.induct) (auto intro: local_step_wf)

lemma deleteHost_gone:
  assumes "store_wf st"
  shows "i \<notin> host_id ` set (listHosts (deleteHost now i st))"
proof -
  have sorted: "idb_sorted (st_hosts (deleteHost now i st))"
    using assms by (simp add: store_wf_def store_op_defs idb_sorted_delete)
  have "host_id h \<noteq> i" if "idb_get (idb_delete i (st_hosts st)) j = Some h" for h j
    using that assms by (auto simp: store_wf_def idb_store.get_drop dest!: keyed_byD
      simp flip: idb_get_def split: if_splits)
  then show ?thesis
    unfolding set_listHosts [OF sorted] by (auto simp: ran_def store_op_defs)
qed

lemma applied_device_holds_merged:
  assumes wf: "store_wf st"
    and local: "local = readLocalVault now st"
    and merged: "merged = mergeVault local remote"
    and canonical: "\<forall>k\<in>set (keys merged). canonical_key k"
  shows "\<exists>st'. applyVaultLocally merged local st = Inr st'
       \<and> set (listHosts st') = set (hosts merged)
       \<and> set (listPins st') = set (hostKeys merged)
       \<and> set (listSnippets st') = set (or_empty (snippets merged))
       \<and> set (keys (readLocalVault now' st')) = set (keys merged)
       \<and> getTombstones st' = tombstones merged"
proof -
  have ok: "\<forall>k\<in>set (keys merged). fromSyncedKey k \<noteq> None"
    using canonical by (fastforce simp: canonical_key_def split: option.splits)
  obtain st' where ret: "applyVaultLocally merged local st = Inr st'"
    using applyVaultLocally_returns [OF ok] by blast
  have distinct: "document_ids_distinct merged"
    by (simp add: merged document_ids_distinct_merge)
  note look = applyVaultLocally_lookup [OF ok distinct ret]
  have sorted: "idb_sorted (st_hosts st')" "idb_sorted (st_keys st')" "idb_sorted (st_pins st')"
      "js_well_formed (st_snippets st')"
    using look(7) [OF wf] by simp_all
  note wf' = wf [unfolded store_wf_def]
  have "set (listHosts st') = set (hosts merged)"
    unfolding set_listHosts [OF sorted(1)] look(1)
    using wf' distinct old_in_listing [of host_id "st_hosts st"]
    by (subst ran_landed) (auto simp: local readLocalVault_def listHosts_def idb_get_all_def idb_get_def
        document_ids_distinct_def)
  moreover have "set (listPins st') = set (hostKeys merged)"
    unfolding set_listPins [OF sorted(3)] look(3)
    using wf' distinct old_in_listing [of pin_id "st_pins st"]
    by (subst ran_landed) (auto simp: local readLocalVault_def listPins_def idb_get_all_def idb_get_def
        document_ids_distinct_def)
  moreover have "set (listSnippets st') = set (or_empty (snippets merged))"
    unfolding set_listSnippets [OF sorted(4)] look(4)
    using wf' distinct old_in_listing [of snippet_id "st_snippets st"]
    by (subst ran_landed) (auto simp: local readLocalVault_def listSnippets_def js_values_def
        document_ids_distinct_def)
  moreover have "set (keys (readLocalVault now' st')) = set (keys merged)"
    using synced_keys_landed [OF sorted(2) look(2) [unfolded local]] wf' distinct canonical
    by (simp add: local document_ids_distinct_def)
  ultimately show ?thesis
    using look(5) ret by (auto simp: getTombstones_def)
qed

section \<open>Properties\<close>

text \<open>
  A portable key survives the trip to the server and back: turning a stored key into its synced
  form and landing it again gives the same portable key, and a device-bound key is never sent.
\<close>

theorem synced_key_round_trip:
  "(case toSyncedKey r of
      Some k \<Rightarrow> sk_mode r = Portable \<and> fromSyncedKey k = Some (r\<lparr>sk_privateKey := None\<rparr>)
    | None \<Rightarrow> sk_mode r = DeviceBound \<or> sk_wrapped r = None)"
  by (cases "sk_mode r"; cases r) (auto simp: toSyncedKey_def fromSyncedKey_def split: option.splits if_splits)

text \<open>
  C5. Applying a merge makes the device hold exactly the merged document: hosts, pins and snippets
  are the merged ones (a record a tombstone deleted is really gone from IndexedDB), the keys it would
  send are the merged keys, and the tombstones are the merged tombstones.
\<close>

theorem apply_makes_device_hold_merged:
  assumes wf: "store_wf st"
    and local: "local = readLocalVault now st"
    and merged: "merged = mergeVault local remote"
    and canonical: "\<forall>k\<in>set (keys merged). canonical_key k"
  shows "\<exists>st'. applyVaultLocally merged local st = Inr st'
       \<and> set (listHosts st') = set (hosts merged)
       \<and> set (listPins st') = set (hostKeys merged)
       \<and> set (listSnippets st') = set (or_empty (snippets merged))
       \<and> set (keys (readLocalVault now' st')) = set (keys merged)
       \<and> getTombstones st' = tombstones merged"
  using applied_device_holds_merged [OF assms] .

definition sample_store :: LocalStore where
  "sample_store = recordDeletion 25 ''db:22'' (putHost (sample_host ''renamed'' 30)
     (putStoredKey \<lparr>sk_id = ''k1'', sk_label = ''laptop'', sk_mode = DeviceBound, sk_publicKeyRaw = [1, 2],
        sk_wrapped = None, sk_privateKey = Some 7, sk_createdAt = 5\<rparr> empty_store))"

theorem apply_makes_device_hold_merged_witness:
  "\<exists>st'. applyVaultLocally (mergeVault (readLocalVault 40 sample_store) sample_remote)
             (readLocalVault 40 sample_store) sample_store = Inr st'
       \<and> set (listHosts st') = {sample_host ''renamed'' 30} \<and> set (listPins st') = {}"
proof -
  let ?l = "readLocalVault 40 sample_store"
  have wf: "store_wf sample_store"
    by (simp add: sample_store_def store_op_defs empty_store_def store_wf_def keyed_by_def js_well_formed_def
        idb_sorted_def sample_host_def)
  have l: "hosts ?l = [sample_host ''renamed'' 30]" "keys ?l = []" "hostKeys ?l = []" "tombstones ?l = [(''db:22'', 25)]"
    by (simp_all add: sample_store_def store_op_defs empty_store_def readLocalVault_def toSyncedKey_def
        List.map_filter_def sample_host_def listHosts_def listStoredKeys_def listPins_def idb_get_all_def)
  have m: "hosts (mergeVault ?l sample_remote) = [sample_host ''renamed'' 30]"
    "keys (mergeVault ?l sample_remote) = []" "hostKeys (mergeVault ?l sample_remote) = []"
    by (simp_all add: l sample_remote_def emptyDoc_def sample_host_def sample_pin_def mergeVault_sel mergeById_def
        merge_step_def hostStamp_def merge_tombstones_def js_values_def outlives_def)
  show ?thesis
    using apply_makes_device_hold_merged [OF wf refl refl, where remote = sample_remote and now = 40 and now' = 0]
    by (auto simp: m)
qed

text \<open>
  C7. Every store a device reaches from an empty one, by any sequence of local operations and landed
  merges, is well formed; in particular looking a pin up by its address finds a pin for that address.
\<close>

theorem reachable_store_invariant:
  assumes "reachable_store st"
  shows "store_wf st \<and> (\<forall>host port p. getPin host port st = Some p \<longrightarrow> pin_id p = idFor host port)"
  using reachable_store_wf [OF assms] getPin_keyed by blast

theorem reachable_store_invariant_witness:
  "store_wf (unpin 9 ''db'' 22 (snd (pin 8 ''db'' 22 ''AAAA'' ''SHA256:x'' ''ssh-ed25519'' empty_store)))"
  by (rule conjunct1 [OF reachable_store_invariant])
    (rule reachable_store.step [OF reachable_store.step [OF reachable_store.start step_pin] step_unpin])

text \<open>
  C6. A deleted host stays deleted: after \<open>deleteHost\<close>, merging with any remote document whose copies
  of the host are not newer than the deletion gives no host of that id, so a sync cannot bring it back.
\<close>

theorem deleted_host_not_resurrected:
  assumes reach: "reachable_store st"
    and older: "\<forall>h\<in>set (hosts remote). host_id h = i \<longrightarrow> hostStamp h \<le> now"
    and pos: "0 < now"
  shows "i \<notin> host_id ` set (listHosts (deleteHost now i st))
       \<and> i \<notin> host_id ` set (hosts (mergeVault (readLocalVault now' (deleteHost now i st)) remote))"
proof -
  let ?d = "deleteHost now i st"
  have wf: "store_wf ?d"
    by (rule local_step_wf [OF step_deleteHost reachable_store_wf [OF reach]])
  have gone: "i \<notin> host_id ` set (listHosts ?d)"
    by (rule deleteHost_gone [OF reachable_store_wf [OF reach]])
  have tomb: "map_of (tombstones (readLocalVault now' ?d)) i = Some now"
    by (simp add: readLocalVault_def store_op_defs AList.update_conv)
  obtain t' where "map_of (merge_tombstones (st_tombstones ?d) (tombstones remote)) i = Some t'" "now \<le> t'"
    using merged_tombstone_covers [of "st_tombstones ?d" i now "tombstones remote"] wf tomb
    by (auto simp: store_wf_def readLocalVault_def getTombstones_def)
  then have "i \<notin> host_id ` set (mergeById host_id (listHosts ?d) (hosts remote) hostStamp
      (merge_tombstones (st_tombstones ?d) (tombstones remote)))"
    by (rule mergeById_deleted [OF _ _ pos]) (use gone older in blast)
  with gone show ?thesis
    by (simp add: mergeVault_sel readLocalVault_def getTombstones_def)
qed

theorem deleted_host_not_resurrected_witness:
  "''h1'' \<notin> host_id ` set (hosts (mergeVault (readLocalVault 60 (deleteHost 50 ''h1'' empty_store)) sample_remote))"
  by (rule conjunct2 [OF deleted_host_not_resurrected])
    (simp_all add: reachable_store.start sample_defs hostStamp_def)

end
