(* ===== verification/Vault_Server.thy ===== *)
theory Vault_Server
  imports Prelude
begin

text \<open>
  The vault blob endpoint, \<open>app/api/vault/route.ts\<close>: one opaque row per account, read by \<open>GET\<close> and
  written by \<open>PUT\<close> under optimistic concurrency. The session lookup is an argument (the signed-in user,
  if any), the table is a map from users to rows, and the conditional \<open>UPDATE\<close> and the
  \<open>INSERT .. ON CONFLICT DO NOTHING\<close> are each one atomic step, as they are one SQL statement.
\<close>

section \<open>Rows, requests and responses\<close>

definition MAX_BLOB_BYTES :: nat where
  "MAX_BLOB_BYTES = 4 * 1024 * 1024"

record VaultRow =
  row_version :: int
  row_ciphertext :: string

type_synonym vault_table = "ident \<Rightarrow> VaultRow option"

datatype VaultResponse =
    VaultPulled int "string option"
  | VaultPushed int
  | VaultConflict int
  | VaultRefused nat string

fun vault_status :: "VaultResponse \<Rightarrow> nat" where
  "vault_status (VaultPulled _ _) = 200"
| "vault_status (VaultPushed _) = 200"
| "vault_status (VaultConflict _) = 409"
| "vault_status (VaultRefused s _) = s"

definition vault_GET :: "ident option \<Rightarrow> vault_table \<Rightarrow> VaultResponse" where
  "vault_GET user tbl =
     (case user of
        None \<Rightarrow> VaultRefused 401 ''unauthorized''
      | Some u \<Rightarrow>
          (case tbl u of
             None \<Rightarrow> VaultPulled 0 None
           | Some row \<Rightarrow> VaultPulled (row_version row) (Some (row_ciphertext row))))"

text \<open>
  \<open>version\<close> is an \<open>integer\<close> column: Postgres rejects a parameter that is not an \<open>int4\<close>, the query
  throws and the framework answers 500. Reaching the driver with one is the only way to get there.
\<close>

definition int4_of :: "rat \<Rightarrow> int option" where
  "int4_of q =
     (if of_int \<lfloor>q\<rfloor> = q \<and> - (2 ^ 31) \<le> \<lfloor>q\<rfloor> \<and> \<lfloor>q\<rfloor> < 2 ^ 31 then Some \<lfloor>q\<rfloor> else None)"

definition insert_row :: "ident \<Rightarrow> string \<Rightarrow> int \<Rightarrow> vault_table \<Rightarrow> int option \<times> vault_table" where
  "insert_row u blob version tbl =
     (case tbl u of
        None \<Rightarrow> (Some version, tbl(u \<mapsto> \<lparr>row_version = version, row_ciphertext = blob\<rparr>))
      | Some _ \<Rightarrow> (None, tbl))"

definition update_row :: "ident \<Rightarrow> string \<Rightarrow> int \<Rightarrow> int \<Rightarrow> vault_table \<Rightarrow> int option \<times> vault_table" where
  "update_row u blob base version tbl =
     (case tbl u of
        Some row \<Rightarrow>
          if row_version row = base
          then (Some version, tbl(u \<mapsto> \<lparr>row_version = version, row_ciphertext = blob\<rparr>))
          else (None, tbl)
      | None \<Rightarrow> (None, tbl))"

text \<open>The write and its answer, for a request that passed the shape and size checks.\<close>

definition vault_write :: "ident \<Rightarrow> string \<Rightarrow> rat \<Rightarrow> vault_table \<Rightarrow> VaultResponse \<times> vault_table" where
  "vault_write u blob base tbl =
     (case (int4_of base, int4_of (base + 1)) of
        (Some b, Some version) \<Rightarrow>
          (let (written, tbl') =
                 (if b = 0 then insert_row u blob version tbl else update_row u blob b version tbl)
           in case written of
                Some v \<Rightarrow> (VaultPushed version, tbl')
              | None \<Rightarrow> (VaultConflict (case tbl' u of Some row \<Rightarrow> row_version row | None \<Rightarrow> 0), tbl'))
      | _ \<Rightarrow> (VaultRefused 500 ''invalid integer'', tbl))"

text \<open>
  The body is \<^const>\<open>None\<close> when it is not JSON. Destructuring a \<open>null\<close> body throws, outside the \<open>try\<close>.
\<close>

definition vault_PUT :: "ident option \<Rightarrow> json option \<Rightarrow> vault_table \<Rightarrow> VaultResponse \<times> vault_table" where
  "vault_PUT user body tbl =
     (case (user, body) of
        (None, _) \<Rightarrow> (VaultRefused 401 ''unauthorized'', tbl)
      | (_, None) \<Rightarrow> (VaultRefused 400 ''invalid JSON'', tbl)
      | (Some u, Some b) \<Rightarrow>
          if b = JNull then (VaultRefused 500 ''body is null'', tbl)
          else
            (case (json_field b ''blob'', json_field b ''baseVersion'') of
               (JStr blob, JNum (Num base)) \<Rightarrow>
                 if MAX_BLOB_BYTES < length (utf8 blob) then (VaultRefused 413 ''vault too large'', tbl)
                 else vault_write u blob base tbl
             | _ \<Rightarrow> (VaultRefused 400 ''blob (string) and baseVersion (number) required'', tbl)))"

section \<open>The table over time\<close>

text \<open>The table as the requests of any number of devices and accounts leave it, one after another.\<close>

inductive vault_run :: "vault_table \<Rightarrow> vault_table \<Rightarrow> bool" where
  run_nil: "vault_run tbl tbl"
| run_put: "vault_run tbl tbl' \<Longrightarrow> vault_run tbl (snd (vault_PUT user body tbl'))"

definition row_versions_positive :: "vault_table \<Rightarrow> bool" where
  "row_versions_positive tbl \<longleftrightarrow> (\<forall>u row. tbl u = Some row \<longrightarrow> 0 < row_version row)"

definition row_advances :: "VaultRow option \<Rightarrow> VaultRow option \<Rightarrow> bool" where
  "row_advances old new \<longleftrightarrow> old = new
     \<or> (case new of None \<Rightarrow> False
        | Some n \<Rightarrow> (case old of None \<Rightarrow> 0 < row_version n | Some row \<Rightarrow> row_version row < row_version n))"

lemma row_advances_refl [simp]: "row_advances r r"
  by (simp add: row_advances_def)

lemma row_advances_trans: "row_advances a b \<Longrightarrow> row_advances b c \<Longrightarrow> row_advances a c"
  by (auto simp: row_advances_def split: option.splits)

lemma int4_of_Suc: "int4_of q = Some b \<Longrightarrow> int4_of (q + 1) = Some v \<Longrightarrow> v = b + 1"
  by (auto simp: int4_of_def split: if_splits)

lemma insert_row_spec:
  "insert_row u blob v tbl = (w, tbl') \<Longrightarrow>
     (case w of
        None \<Rightarrow> tbl' = tbl \<and> tbl u \<noteq> None
      | Some x \<Rightarrow> x = v \<and> tbl u = None \<and> tbl' = tbl(u \<mapsto> \<lparr>row_version = v, row_ciphertext = blob\<rparr>))"
  by (auto simp: insert_row_def split: option.splits)

lemma update_row_spec:
  "update_row u blob b v tbl = (w, tbl') \<Longrightarrow>
     (case w of
        None \<Rightarrow> tbl' = tbl \<and> (\<forall>row. tbl u = Some row \<longrightarrow> row_version row \<noteq> b)
      | Some x \<Rightarrow> x = v \<and> (\<exists>row. tbl u = Some row \<and> row_version row = b)
          \<and> tbl' = tbl(u \<mapsto> \<lparr>row_version = v, row_ciphertext = blob\<rparr>))"
  by (auto simp: update_row_def split: option.splits if_splits)

lemma vault_write_spec:
  "case vault_write u blob base tbl of
     (VaultPushed v, tbl') \<Rightarrow> int4_of base = Some (v - 1)
       \<and> (v = 1 \<and> tbl u = None \<or> (\<exists>row. tbl u = Some row \<and> row_version row = v - 1 \<and> v \<noteq> 1))
       \<and> tbl' = tbl(u \<mapsto> \<lparr>row_version = v, row_ciphertext = blob\<rparr>)
   | (VaultConflict c, tbl') \<Rightarrow> c = (case tbl u of Some row \<Rightarrow> row_version row | None \<Rightarrow> 0) \<and> tbl' = tbl
   | (VaultRefused s e, tbl') \<Rightarrow> s = 500 \<and> tbl' = tbl
   | (VaultPulled _ _, _) \<Rightarrow> False"
proof (cases "int4_of base = None \<or> int4_of (base + 1) = None")
  case True
  then have "vault_write u blob base tbl = (VaultRefused 500 ''invalid integer'', tbl)"
    by (auto simp: vault_write_def split: option.split)
  then show ?thesis by simp
next
  case False
  then obtain b where b: "int4_of base = Some b" "int4_of (base + 1) = Some (b + 1)"
    using int4_of_Suc by fastforce
  show ?thesis
    by (cases "tbl u") (auto simp: b vault_write_def insert_row_def update_row_def)
qed

lemma vault_write_cases [consumes 1, case_names refused conflict pushed]:
  assumes "vault_write u blob base tbl = (resp, tbl')"
  obtains s e where "resp = VaultRefused s e" "tbl' = tbl" "s = 500"
  | "resp = VaultConflict (case tbl u of Some row \<Rightarrow> row_version row | None \<Rightarrow> 0)" "tbl' = tbl"
  | v where "resp = VaultPushed v" "int4_of base = Some (v - 1)"
      "v = 1 \<and> tbl u = None \<or> (\<exists>row. tbl u = Some row \<and> row_version row = v - 1 \<and> v \<noteq> 1)"
      "tbl' = tbl(u \<mapsto> \<lparr>row_version = v, row_ciphertext = blob\<rparr>)"
  using vault_write_spec [where u = u and blob = blob and base = base and tbl = tbl] by (cases resp) (simp_all add: assms)

lemma vault_PUT_cases [consumes 1, case_names refused written]:
  assumes "vault_PUT user body tbl = (resp, tbl')"
  obtains s e where "resp = VaultRefused s e" "tbl' = tbl" "s \<noteq> 200"
  | u b blob base where "user = Some u" "body = Some b" "json_field b ''blob'' = JStr blob"
      "json_field b ''baseVersion'' = JNum (Num base)" "length (utf8 blob) \<le> MAX_BLOB_BYTES"
      "vault_write u blob base tbl = (resp, tbl')"
  using assms
  by (auto simp: vault_PUT_def split: option.splits json.splits jsnum.splits if_splits prod.splits)

lemma vault_PUT_advances:
  assumes "row_versions_positive tbl"
  shows "row_advances (tbl u) (snd (vault_PUT user body tbl) u) \<and> row_versions_positive (snd (vault_PUT user body tbl))"
proof -
  obtain resp tbl' where put: "vault_PUT user body tbl = (resp, tbl')" by force
  then show ?thesis
  proof (cases rule: vault_PUT_cases)
    case (written w b blob base)
    from written(6) show ?thesis
    proof (cases rule: vault_write_cases)
      case (pushed c)
      then have "row_advances (tbl w) (tbl' w)" "0 < c"
        using assms by (fastforce simp: row_advances_def row_versions_positive_def)+
      with pushed(4) assms show ?thesis
        by (auto simp: put row_versions_positive_def)
    qed (simp_all add: put assms)
  qed (simp add: put assms)
qed

lemma vault_run_advances:
  assumes "vault_run tbl tbl'" "row_versions_positive tbl"
  shows "row_advances (tbl u) (tbl' u) \<and> row_versions_positive tbl'"
  using assms
proof (induction rule: vault_run.induct)
  case (run_put tbl tbl' user body)
  then show ?case
    using vault_PUT_advances [of tbl' u user body] by (auto intro: row_advances_trans)
qed simp

lemma empty_table_positive [simp]: "row_versions_positive (\<lambda>_. None)"
  by (simp add: row_versions_positive_def)

lemma vault_PUT_spec:
  "case vault_PUT user body tbl of
     (VaultPushed v, tbl') \<Rightarrow>
       (\<exists>u b blob. user = Some u \<and> body = Some b \<and> json_field b ''blob'' = JStr blob
          \<and> json_field b ''baseVersion'' = JNum (Num (of_int (v - 1)))
          \<and> length (utf8 blob) \<le> MAX_BLOB_BYTES
          \<and> (case tbl u of None \<Rightarrow> v = 1 | Some row \<Rightarrow> v = row_version row + 1)
          \<and> tbl' = tbl(u \<mapsto> \<lparr>row_version = v, row_ciphertext = blob\<rparr>))
   | (resp, tbl') \<Rightarrow> vault_status resp \<noteq> 200 \<and> tbl' = tbl"
proof -
  obtain resp tbl' where put: "vault_PUT user body tbl = (resp, tbl')" by force
  then show ?thesis
  proof (cases rule: vault_PUT_cases)
    case (written u b blob base)
    from written(6) show ?thesis
    proof (cases rule: vault_write_cases)
      case (pushed v)
      then have "base = of_int (v - 1)" by (auto simp: int4_of_def split: if_splits)
      with written(1-5) pushed(3) show ?thesis
        unfolding put pushed(1,4) by auto
    qed (simp_all add: put)
  qed (simp add: put)
qed

section \<open>Properties\<close>

text \<open>
  A push is refused, without touching the table, unless it is signed in, well formed, at most 4 MiB
  and based on the version the account's row has at that moment (or on version 0 when there is no row);
  a push that is answered 200 stores exactly its blob, one version on, in its own account's row only.
\<close>

theorem vault_PUT_compare_and_swap:
  "case vault_PUT user body tbl of
     (VaultPushed v, tbl') \<Rightarrow>
       (\<exists>u b blob. user = Some u \<and> body = Some b \<and> json_field b ''blob'' = JStr blob
          \<and> json_field b ''baseVersion'' = JNum (Num (of_int (v - 1)))
          \<and> length (utf8 blob) \<le> MAX_BLOB_BYTES
          \<and> (case tbl u of None \<Rightarrow> v = 1 | Some row \<Rightarrow> v = row_version row + 1)
          \<and> tbl' = tbl(u \<mapsto> \<lparr>row_version = v, row_ciphertext = blob\<rparr>))
   | (resp, tbl') \<Rightarrow> vault_status resp \<noteq> 200 \<and> tbl' = tbl"
  by (rule vault_PUT_spec)

text \<open>
  C4. No lost update: when a device pulled version \<open>ver\<close>, any requests of other devices ran in between,
  and its push based on \<open>ver\<close> is answered 200, then the row the push replaced is the very row the device
  pulled and merged. In every other case the table keeps what it had.
\<close>

theorem vault_no_lost_update:
  assumes history: "vault_run (\<lambda>_. None) tbl"
    and pulled: "vault_GET (Some u) tbl = VaultPulled ver blob"
    and between: "vault_run tbl tbl'"
    and base: "json_field body ''baseVersion'' = JNum (Num (of_int ver))"
    and push: "vault_PUT (Some u) (Some body) tbl' = (VaultPushed v, tbl'')"
  shows "tbl' u = tbl u \<and> v = ver + 1"
proof -
  have pos: "row_versions_positive tbl" and adv: "row_advances (tbl u) (tbl' u)"
    using vault_run_advances [OF history] vault_run_advances [OF between] by auto
  from push show ?thesis
  proof (cases rule: vault_PUT_cases)
    case (written w b blob' base')
    from written(6) show ?thesis
    proof (cases rule: vault_write_cases)
      case (pushed c)
      have "c = ver + 1" "w = u" using written pushed(2) base by (auto simp: int4_of_def split: if_splits)
      moreover have "v = c" using pushed(1) by simp
      ultimately show ?thesis using pushed(3,4) pulled pos adv
        by (auto simp: vault_GET_def row_advances_def row_versions_positive_def split: option.splits)
    qed simp_all
  qed simp
qed

definition sample_push :: "string \<Rightarrow> json" where
  "sample_push blob = JObj [(''blob'', JStr blob), (''baseVersion'', JNum (Num 0))]"

theorem vault_no_lost_update_witness:
  "let (resp, tbl') = vault_PUT (Some ''w'') (Some (sample_push ''x'')) (\<lambda>_. None);
       (resp', tbl'') = vault_PUT (Some ''u'') (Some (sample_push ''y'')) tbl'
   in resp' = VaultPushed 1 \<and> tbl' ''u'' = None"
proof -
  let ?t = "snd (vault_PUT (Some ''w'') (Some (sample_push ''x'')) (\<lambda>_. None))"
  have x: "vault_PUT (Some ''w'') (Some (sample_push ''x'')) (\<lambda>_. None)
      = (VaultPushed 1, [''w'' \<mapsto> \<lparr>row_version = 1, row_ciphertext = ''x''\<rparr>])"
    by (simp add: vault_PUT_def vault_write_def sample_push_def insert_row_def int4_of_def MAX_BLOB_BYTES_def
        utf8_def utf8_char_def)
  have y: "vault_PUT (Some ''u'') (Some (sample_push ''y'')) ?t
      = (VaultPushed 1, ?t(''u'' \<mapsto> \<lparr>row_version = 1, row_ciphertext = ''y''\<rparr>))"
    by (simp add: x) (simp add: vault_PUT_def vault_write_def sample_push_def insert_row_def int4_of_def MAX_BLOB_BYTES_def
        utf8_def utf8_char_def)
  have "?t ''u'' = None \<and> (1 :: int) = 0 + 1"
    using vault_no_lost_update [OF run_nil _ run_put [OF run_nil] _ y, of 0 None]
    by (simp add: vault_GET_def sample_push_def)
  then show ?thesis using x y by simp
qed

end
