(* ===== verification/Vault_Sync.thy ===== *)
theory Vault_Sync
  imports Vault_Store Vault_Server "HOL-Library.Countable"
begin

text \<open>
  One sync cycle of a device, \<open>lib/vault/sync.ts\<close> (\<open>runSync\<close>), the sealed envelope around a document,
  \<open>lib/vault/crypto.ts\<close>, and the restore of an exported vault, \<open>lib/vault/restore.ts\<close>.

  AES-GCM is the browser's; it is the pair of functions of a \<open>platform\<close> record, together with the JSON
  text of documents and envelopes. The network is an argument too: what the pull of each attempt
  answers, and what the push of each attempt answers to the request it gets.
\<close>

section \<open>Envelopes\<close>

record VaultEnvelope =
  env_v :: int
  env_iv :: string
  env_ct :: string

text \<open>A decrypted document may lack any of its fields.\<close>

record PartialDocument =
  p_hosts :: "Host list option"
  p_keys :: "SyncedKey list option"
  p_hostKeys :: "PinnedHostKey list option"
  p_snippets :: "Snippet list option"
  p_tombstones :: "Tombstones option"
  p_updatedAt :: "millis option"

definition partial_of :: "VaultDocument \<Rightarrow> PartialDocument" where
  "partial_of d = \<lparr>p_hosts = Some (hosts d), p_keys = Some (keys d), p_hostKeys = Some (hostKeys d),
     p_snippets = snippets d, p_tombstones = Some (tombstones d), p_updatedAt = Some (updatedAt d)\<rparr>"

record 'k platform =
  aes_encrypt :: "'k \<Rightarrow> byte list \<Rightarrow> byte list \<Rightarrow> byte list"
  aes_decrypt :: "'k \<Rightarrow> byte list \<Rightarrow> byte list \<Rightarrow> byte list option"
  doc_bytes :: "VaultDocument \<Rightarrow> byte list"
  parse_doc :: "byte list \<Rightarrow> PartialDocument option"
  envelope_text :: "VaultEnvelope \<Rightarrow> string"
  parse_envelope :: "string \<Rightarrow> VaultEnvelope option"

text \<open>What the code relies on: decryption inverts encryption, and \<open>JSON.parse\<close> inverts \<open>JSON.stringify\<close>.\<close>

definition platform_ok :: "'k platform \<Rightarrow> bool" where
  "platform_ok pf \<longleftrightarrow>
     (\<forall>k iv p. aes_decrypt pf k iv (aes_encrypt pf k iv p) = Some p)
     \<and> (\<forall>d. parse_doc pf (doc_bytes pf d) = Some (partial_of d))
     \<and> (\<forall>e. envelope_text pf e \<noteq> [] \<and> parse_envelope pf (envelope_text pf e) = Some e)"

definition encryptVault :: "'k platform \<Rightarrow> byte list \<Rightarrow> 'k \<Rightarrow> VaultDocument \<Rightarrow> VaultEnvelope" where
  "encryptVault pf iv key d =
     \<lparr>env_v = 1, env_iv = toB64 iv, env_ct = toB64 (aes_encrypt pf key iv (doc_bytes pf d))\<rparr>"

definition decryptVault :: "'k platform \<Rightarrow> 'k \<Rightarrow> VaultEnvelope \<Rightarrow> PartialDocument option" where
  "decryptVault pf key env =
     (if env_v env \<noteq> 1 then None
      else
        (case (fromB64 (env_iv env), fromB64 (env_ct env)) of
           (Some iv, Some ct) \<Rightarrow>
             (case aes_decrypt pf key iv ct of None \<Rightarrow> None | Some plaintext \<Rightarrow> parse_doc pf plaintext)
         | _ \<Rightarrow> None))"

lemma decrypt_encrypt: "platform_ok pf \<Longrightarrow> decryptVault pf key (encryptVault pf iv key d) = Some (partial_of d)"
  by (simp add: platform_ok_def encryptVault_def decryptVault_def)

section \<open>One sync cycle\<close>

definition getState :: "LocalStore \<Rightarrow> SyncState" where
  "getState st = (case st_sync st of Some s \<Rightarrow> s | None \<Rightarrow> \<lparr>sync_version = 0, sync_lastSyncedAt = 0\<rparr>)"

definition setState :: "SyncState \<Rightarrow> LocalStore \<Rightarrow> LocalStore" where
  "setState s st = st\<lparr>st_sync := Some s\<rparr>"

definition opensWith :: "'k platform \<Rightarrow> 'k \<Rightarrow> SyncedKey \<Rightarrow> bool" where
  "opensWith pf vaultKey k =
     (case (fromB64 (key_wrapped_iv k), fromB64 (key_wrapped_ciphertext k)) of
        (Some iv, Some ct) \<Rightarrow> aes_decrypt pf vaultKey iv ct \<noteq> None
      | _ \<Rightarrow> False)"

definition sameRecords :: "VaultDocument \<Rightarrow> VaultDocument \<Rightarrow> bool" where
  "sameRecords a b \<longleftrightarrow>
     hosts a = hosts b \<and> keys a = keys b \<and> hostKeys a = hostKeys b
     \<and> or_empty (snippets a) = or_empty (snippets b) \<and> tombstones a = tombstones b"

text \<open>\<open>{...emptyDoc(), ...decrypted}\<close>.\<close>

definition over_empty :: "PartialDocument \<Rightarrow> VaultDocument" where
  "over_empty p =
     \<lparr>hosts = or_empty (p_hosts p), keys = or_empty (p_keys p), hostKeys = or_empty (p_hostKeys p),
      snippets = Some (or_empty (p_snippets p)), tombstones = or_empty (p_tombstones p),
      updatedAt = case_option 0 (\<lambda>u. u) (p_updatedAt p)\<rparr>"

datatype SyncStatus = Synced | UpToDate | ConflictResolved | Offline

record SyncResult =
  res_status :: SyncStatus
  res_version :: int
  res_hosts :: nat
  res_keys :: nat
  res_hostKeys :: nat
  res_snippets :: nat
  res_keysWithheld :: nat

datatype SyncError =
    NotSignedIn
  | PullFailed nat
  | PullUnreadable
  | LandingFailed
  | KeptConflicting
  | PushUnreachable
  | PushFailed nat

text \<open>
  What the network does in one attempt: \<^const>\<open>None\<close> is a request that never got an answer. The
  push is a function of the request, the blob and the base version.
\<close>

record attempt =
  at_clock :: millis
  at_iv :: "byte list"
  at_pull :: "VaultResponse option"
  at_push :: "string \<Rightarrow> int \<Rightarrow> VaultResponse option"

definition sync_result :: "SyncStatus \<Rightarrow> int \<Rightarrow> VaultDocument \<Rightarrow> nat \<Rightarrow> SyncResult" where
  "sync_result status version merged withheld =
     \<lparr>res_status = status, res_version = version, res_hosts = length (hosts merged),
      res_keys = length (keys merged), res_hostKeys = length (hostKeys merged),
      res_snippets = length (or_empty (snippets merged)), res_keysWithheld = withheld\<rparr>"

text \<open>\<open>pulled.blob ? ... : emptyDoc()\<close>: an absent or empty blob is an empty document.\<close>

definition remote_of :: "'k platform \<Rightarrow> 'k \<Rightarrow> string option \<Rightarrow> VaultDocument option" where
  "remote_of pf vaultKey blob =
     (case blob of
        None \<Rightarrow> Some emptyDoc
      | Some b \<Rightarrow>
          if b = [] then Some emptyDoc
          else
            (case parse_envelope pf b of
               None \<Rightarrow> None
             | Some env \<Rightarrow> map_option over_empty (decryptVault pf vaultKey env)))"

definition publishable :: "'k platform \<Rightarrow> 'k \<Rightarrow> VaultDocument \<Rightarrow> VaultDocument \<Rightarrow> SyncedKey list" where
  "publishable pf vaultKey remote merged =
     filter (\<lambda>k. key_id k \<in> set (map key_id (keys remote)) \<or> opensWith pf vaultKey k) (keys merged)"

definition blob_held :: "string option \<Rightarrow> bool" where
  "blob_held blob \<longleftrightarrow> blob \<noteq> None \<and> blob \<noteq> Some []"

definition outgoing_of :: "'k platform \<Rightarrow> 'k \<Rightarrow> VaultDocument \<Rightarrow> VaultDocument \<Rightarrow> VaultDocument" where
  "outgoing_of pf vaultKey remote merged = merged\<lparr>keys := publishable pf vaultKey remote merged\<rparr>"

text \<open>
  What an attempt comes to: an answer (or a thrown error), or a conflict that asks for another attempt;
  with it the store it leaves. The landing of the merge is on the device before the push.
\<close>

datatype sync_outcome = Finished "SyncError + SyncResult" | Conflicted

definition push_attempt ::
  "'k platform \<Rightarrow> 'k \<Rightarrow> bool \<Rightarrow> attempt \<Rightarrow> int \<Rightarrow> VaultDocument \<Rightarrow> VaultDocument \<Rightarrow> nat \<Rightarrow> LocalStore \<Rightarrow> sync_outcome \<times> LocalStore" where
  "push_attempt pf vaultKey afterConflict a version outgoing merged withheld st =
     (case at_push a (envelope_text pf (encryptVault pf (at_iv a) vaultKey outgoing)) version of
        None \<Rightarrow> (Finished (Inl PushUnreachable), st)
      | Some (VaultPushed v) \<Rightarrow>
          (Finished (Inr (sync_result (if afterConflict then ConflictResolved else Synced) v merged withheld)),
           setState \<lparr>sync_version = v, sync_lastSyncedAt = at_clock a\<rparr> st)
      | Some resp \<Rightarrow>
          if vault_status resp = 409 then (Conflicted, st)
          else (Finished (Inl (PushFailed (vault_status resp))), st))"

definition sync_attempt ::
  "'k platform \<Rightarrow> 'k \<Rightarrow> bool \<Rightarrow> attempt \<Rightarrow> LocalStore \<Rightarrow> sync_outcome \<times> LocalStore" where
  "sync_attempt pf vaultKey afterConflict a st =
     (case at_pull a of
        None \<Rightarrow> (Finished (Inr (sync_result Offline (sync_version (getState st)) emptyDoc 0)), st)
      | Some (VaultPulled version blob) \<Rightarrow>
          (case remote_of pf vaultKey blob of
             None \<Rightarrow> (Finished (Inl PullUnreadable), st)
           | Some remote \<Rightarrow>
               let local = readLocalVault (at_clock a) st;
                   merged = mergeVault local remote
               in case applyVaultLocally merged local st of
                    Inl st' \<Rightarrow> (Finished (Inl LandingFailed), st')
                  | Inr st' \<Rightarrow>
                      let pub = publishable pf vaultKey remote merged;
                          withheld = length (keys merged) - length pub;
                          outgoing = outgoing_of pf vaultKey remote merged
                      in if blob_held blob \<and> sameRecords outgoing remote
                         then (Finished (Inr (sync_result UpToDate version merged withheld)),
                               setState \<lparr>sync_version = version, sync_lastSyncedAt = at_clock a\<rparr> st')
                         else push_attempt pf vaultKey afterConflict a version outgoing merged withheld st')
      | Some resp \<Rightarrow>
          if vault_status resp = 401 then (Finished (Inl NotSignedIn), st)
          else (Finished (Inl (PullFailed (vault_status resp))), st))"

fun runSync ::
  "'k platform \<Rightarrow> 'k \<Rightarrow> (nat \<Rightarrow> attempt) \<Rightarrow> nat \<Rightarrow> bool \<Rightarrow> LocalStore \<Rightarrow> (SyncError + SyncResult) \<times> LocalStore" where
  "runSync pf vaultKey net retries afterConflict st =
     (case sync_attempt pf vaultKey afterConflict (net retries) st of
        (Finished r, st') \<Rightarrow> (r, st')
      | (Conflicted, st') \<Rightarrow>
          (case retries of
             0 \<Rightarrow> (Inl KeptConflicting, st')
           | Suc n \<Rightarrow> runSync pf vaultKey net n True st'))"

definition syncVault :: "'k platform \<Rightarrow> 'k \<Rightarrow> (nat \<Rightarrow> attempt) \<Rightarrow> LocalStore \<Rightarrow> (SyncError + SyncResult) \<times> LocalStore" where
  "syncVault pf vaultKey net st = runSync pf vaultKey net 2 False st"

declare runSync.simps [simp del]

section \<open>Restoring an export\<close>

datatype RestoreError = VaultFormatError int | VaultDecryptionError | RestoreLandingFailed

record RestoreCount =
  inFile :: nat
  added :: nat
  updated :: nat
  blockedByDelete :: nat

record RestoreResult =
  rr_hosts :: RestoreCount
  rr_keys :: RestoreCount
  rr_hostKeys :: RestoreCount
  rr_snippets :: RestoreCount
  rr_sync :: "SyncResult option"
  rr_syncError :: "SyncError option"

definition normalise :: "PartialDocument \<Rightarrow> VaultDocument" where
  "normalise doc =
     \<lparr>hosts = or_empty (p_hosts doc), keys = or_empty (p_keys doc), hostKeys = or_empty (p_hostKeys doc),
      snippets = Some (or_empty (p_snippets doc)), tombstones = or_empty (p_tombstones doc),
      updatedAt = case_option 0 (\<lambda>u. u) (p_updatedAt doc)\<rparr>"

text \<open>One turn of the counting loop; the two maps keep the last record of an identifier.\<close>

definition count_step ::
  "('r \<Rightarrow> ident) \<Rightarrow> ('r \<Rightarrow> millis) \<Rightarrow> (ident \<Rightarrow> 'r option) \<Rightarrow> (ident \<Rightarrow> 'r option) \<Rightarrow> RestoreCount \<Rightarrow> 'r \<Rightarrow> RestoreCount" where
  "count_step ident stamp localById mergedById c item =
     (case mergedById (ident item) of
        None \<Rightarrow> c\<lparr>blockedByDelete := blockedByDelete c + 1\<rparr>
      | Some winner \<Rightarrow>
          (case localById (ident item) of
             None \<Rightarrow> c\<lparr>added := added c + 1\<rparr>
           | Some here \<Rightarrow> if stamp here < stamp winner then c\<lparr>updated := updated c + 1\<rparr> else c))"

definition countAgainst ::
  "('r \<Rightarrow> ident) \<Rightarrow> 'r list \<Rightarrow> 'r list \<Rightarrow> 'r list \<Rightarrow> ('r \<Rightarrow> millis) \<Rightarrow> RestoreCount" where
  "countAgainst ident local imported merged stamp =
     (let localById = map_of (rev (map (\<lambda>i. (ident i, i)) local));
          mergedById = map_of (rev (map (\<lambda>i. (ident i, i)) merged))
      in foldl (count_step ident stamp localById mergedById)
           \<lparr>inFile = length imported, added = 0, updated = 0, blockedByDelete = 0\<rparr> imported)"

definition restoreVault ::
  "'k platform \<Rightarrow> 'k \<Rightarrow> millis \<Rightarrow> (nat \<Rightarrow> attempt) \<Rightarrow> VaultEnvelope \<Rightarrow> LocalStore \<Rightarrow> (RestoreError + RestoreResult) \<times> LocalStore" where
  "restoreVault pf vaultKey now net env st =
     (if env_v env \<noteq> 1 then (Inl (VaultFormatError (env_v env)), st)
      else
        (case decryptVault pf vaultKey env of
           None \<Rightarrow> (Inl VaultDecryptionError, st)
         | Some doc \<Rightarrow>
             let imported = normalise doc; local = readLocalVault now st; merged = mergeVault local imported
             in case applyVaultLocally merged local st of
                  Inl st' \<Rightarrow> (Inl RestoreLandingFailed, st')
                | Inr st' \<Rightarrow>
                    let result =
                          \<lparr>rr_hosts = countAgainst host_id (hosts local) (hosts imported) (hosts merged) hostStamp,
                           rr_keys = countAgainst key_id (keys local) (keys imported) (keys merged) key_createdAt,
                           rr_hostKeys = countAgainst pin_id (hostKeys local) (hostKeys imported) (hostKeys merged) pinnedAt,
                           rr_snippets = countAgainst snippet_id (or_empty (snippets local))
                             (or_empty (snippets imported)) (or_empty (snippets merged)) snippet_updatedAt,
                           rr_sync = None, rr_syncError = None\<rparr>;
                        (outcome, st'') = syncVault pf vaultKey net st'
                    in (Inr (case outcome of
                               Inr r \<Rightarrow> result\<lparr>rr_sync := Some r\<rparr>
                             | Inl e \<Rightarrow> result\<lparr>rr_syncError := Some e\<rparr>), st'')))"


section \<open>Merging a device with its own push\<close>

lemma merge_tombstones_redundant:
  "\<forall>(i, w)\<in>set l. map_of r i = Some w \<Longrightarrow> merge_tombstones l r = r"
proof (induction l)
  case (Cons p l)
  obtain i w where p: "p = (i, w)" by force
  have "AList.update i w r = r" if "map_of r i = Some w"
    using that by (induction r) auto
  with Cons show ?case by (simp add: merge_tombstones_def p)
qed (simp add: merge_tombstones_def)

lemma merge_tombstones_self: "js_well_formed ts \<Longrightarrow> merge_tombstones ts ts = ts"
  by (rule merge_tombstones_redundant) (auto simp: js_well_formed_def)

text \<open>
  The records of a merge, merged again with records drawn from the same merge: the remote list comes
  out unchanged, followed by whatever the local side has and the remote list left out.
\<close>

lemma mergeById_again:
  assumes m: "m = mergeById ident l r stamp ts" and l': "set l' = set m"
  shows "\<exists>w. mergeById ident l' (filter P m) stamp ts = filter P m @ w \<and> set w = set (filter (\<lambda>x. \<not> P x) m)"
proof -
  have dist: "distinct (map ident m)" by (simp add: m distinct_mergeById)
  then have inj: "inj_on ident (set m)" by (simp add: distinct_map)
  have live: "outlives ts (ident x) (stamp x)" if "x \<in> set m" for x
    using that by (simp add: m set_mergeById)
  let ?w = "mergeById ident (filter (\<lambda>y. ident y \<notin> ident ` set (filter P m)) l') [] stamp ts"
  have "mergeById ident l' (filter P m) stamp ts = filter P m @ ?w"
    using dist l' inj live by (intro mergeById_stable) (auto simp: distinct_map_filter dest: inj_onD)
  moreover have "set ?w = set (filter (\<lambda>x. \<not> P x) m)"
  proof -
    let ?l = "filter (\<lambda>y. ident y \<notin> ident ` set (filter P m)) l'"
    have sub: "set ?l = set (filter (\<lambda>x. \<not> P x) m)"
      using l' inj by (auto dest: inj_onD)
    then have inj': "x = y" if "x \<in> set ?l" "y \<in> set ?l" "ident x = ident y" for x y
      using that inj by (auto dest: inj_onD)
    have "wins ident stamp ?l x" if x: "x \<in> set ?l" for x
    proof -
      obtain z where "wins ident stamp ?l z" "ident z = ident x"
        using wins_exists [OF x] by blast
      with inj' [OF wins_in_set x] show ?thesis by metis
    qed
    then have "wins ident stamp ?l x \<longleftrightarrow> x \<in> set ?l" for x
      using wins_in_set by metis
    then show ?thesis
      using sub live by (auto simp: set_mergeById)
  qed
  ultimately show ?thesis by blast
qed

lemma mergeById_again_all:
  assumes "m = mergeById ident l r stamp ts" "set l' = set m"
  shows "mergeById ident l' m stamp ts = m"
  using mergeById_again [OF assms, of "\<lambda>_. True"] by auto

lemma remote_of_pushed:
  assumes "platform_ok pf"
  shows "remote_of pf k (Some (envelope_text pf (encryptVault pf iv k d))) = Some (over_empty (partial_of d))"
  using decrypt_encrypt [OF assms, of k iv d] assms by (simp add: remote_of_def platform_ok_def)

lemma over_empty_partial [simp]:
  "hosts (over_empty (partial_of d)) = hosts d" "keys (over_empty (partial_of d)) = keys d"
  "hostKeys (over_empty (partial_of d)) = hostKeys d" "tombstones (over_empty (partial_of d)) = tombstones d"
  "snippets (over_empty (partial_of d)) = Some (or_empty (snippets d))"
  by (simp_all add: over_empty_def partial_of_def)

section \<open>Convergence\<close>

lemma sameRecords_again:
  assumes pf: "platform_ok pf"
    and m: "m = mergeVault l r"
    and wf: "js_well_formed (tombstones r)"
    and out: "out = outgoing_of pf k r m"
    and r': "r' = over_empty (partial_of out)"
    and l': "set (hosts l') = set (hosts m)" "set (hostKeys l') = set (hostKeys m)"
      "set (or_empty (snippets l')) = set (or_empty (snippets m))" "set (keys l') = set (keys m)"
      "tombstones l' = tombstones m"
  shows "sameRecords (outgoing_of pf k r' (mergeVault l' r')) r'
       \<and> set (keys (mergeVault l' r')) = set (keys m)
       \<and> distinct (map key_id (keys (mergeVault l' r')))"
proof -
  let ?ts = "merge_tombstones (tombstones l) (tombstones r)"
  let ?P = "\<lambda>x. key_id x \<in> set (map key_id (keys r)) \<or> opensWith pf k x"
  have ts: "merge_tombstones ?ts ?ts = ?ts"
    by (simp add: merge_tombstones_self merge_tombstones_well_formed wf)
  have sel: "hosts m = mergeById host_id (hosts l) (hosts r) hostStamp ?ts"
    "keys m = mergeById key_id (keys l) (keys r) key_createdAt ?ts"
    "hostKeys m = mergeById pin_id (hostKeys l) (hostKeys r) pinnedAt ?ts"
    "or_empty (snippets m) = mergeById snippet_id (or_empty (snippets l)) (or_empty (snippets r)) snippet_updatedAt ?ts"
    "tombstones m = ?ts"
    by (simp_all add: m mergeVault_sel)
  have r'_sel: "hosts r' = hosts m" "hostKeys r' = hostKeys m" "or_empty (snippets r') = or_empty (snippets m)"
    "tombstones r' = ?ts" "keys r' = filter ?P (keys m)"
    by (simp_all add: r' out outgoing_of_def publishable_def sel(5))
  obtain w where w: "mergeById key_id (keys l') (keys r') key_createdAt ?ts = keys r' @ w"
      "set w = set (filter (\<lambda>x. \<not> ?P x) (keys m))"
    using mergeById_again [OF sel(2) l'(4), of ?P] by (auto simp: r'_sel(5))
  have again: "hosts (mergeVault l' r') = hosts r'" "hostKeys (mergeVault l' r') = hostKeys r'"
    "or_empty (snippets (mergeVault l' r')) = or_empty (snippets r')" "tombstones (mergeVault l' r') = tombstones r'"
    "keys (mergeVault l' r') = keys r' @ w"
    using mergeById_again_all [OF sel(1) l'(1)] mergeById_again_all [OF sel(3) l'(2)]
      mergeById_again_all [OF sel(4) l'(3)] w(1)
    by (simp_all add: mergeVault_sel l'(5) sel(5) r'_sel(1-4) ts)
  have dist: "distinct (map key_id (keys (mergeVault l' r')))"
    using document_ids_distinct_merge [of l' r'] by (simp add: document_ids_distinct_def)
  then have "filter (\<lambda>x. key_id x \<in> set (map key_id (keys r')) \<or> opensWith pf k x) (keys r' @ w) = keys r'"
    using w(2) by (auto simp: again(5) filter_empty_conv)
  then show ?thesis
    using dist w(2) by (auto simp: sameRecords_def outgoing_of_def publishable_def again r'_sel(5))
qed

lemma set_mergeById_subset: "set (mergeById ident l r stamp ts) \<subseteq> set l \<union> set r"
  by (auto simp: set_mergeById dest: wins_in_set)

lemma merged_keys_canonical:
  assumes "\<forall>k\<in>set (keys remote). canonical_key k"
  shows "\<forall>k\<in>set (keys (mergeVault (readLocalVault now st) remote)). canonical_key k"
proof
  fix k assume "k \<in> set (keys (mergeVault (readLocalVault now st) remote))"
  then have "k \<in> set (keys (readLocalVault now st)) \<union> set (keys remote)"
    using set_mergeById_subset by (fastforce simp: mergeVault_sel)
  then show "canonical_key k"
    using assms canonical_toSyncedKey by (auto simp: readLocalVault_def set_map_filter_conv)
qed

lemma emptyDoc_sel: "hosts emptyDoc = []" "keys emptyDoc = []" "tombstones emptyDoc = []"
  by (simp_all add: emptyDoc_def)

lemma readLocalVault_sel [simp]:
  "hosts (readLocalVault now st) = listHosts st" "hostKeys (readLocalVault now st) = listPins st"
  "snippets (readLocalVault now st) = Some (listSnippets st)" "tombstones (readLocalVault now st) = getTombstones st"
  by (simp_all add: readLocalVault_def)

lemma setState_sel [simp]:
  "listHosts (setState s st) = listHosts st" "listPins (setState s st) = listPins st"
  "listSnippets (setState s st) = listSnippets st" "listStoredKeys (setState s st) = listStoredKeys st"
  "getTombstones (setState s st) = getTombstones st" "store_wf (setState s st) = store_wf st"
  by (simp_all add: setState_def listHosts_def listPins_def listSnippets_def listStoredKeys_def
      getTombstones_def store_wf_def)

lemma readLocalVault_setState [simp]: "readLocalVault now (setState s st) = readLocalVault now st"
  by (simp add: readLocalVault_def)

text \<open>What an attempt that got as far as a landed merge leaves on the device.\<close>

lemma sync_attempt_landed:
  assumes wf: "store_wf st"
    and pull: "at_pull a = Some (VaultPulled ver blob)"
    and opened: "remote_of pf k blob = Some remote"
    and canonical: "\<forall>x\<in>set (keys remote). canonical_key x"
    and tombs: "js_well_formed (tombstones remote)"
  defines "m \<equiv> mergeVault (readLocalVault (at_clock a) st) remote"
  obtains st' where
    "sync_attempt pf k c a st =
       (let pub = publishable pf k remote m; withheld = length (keys m) - length pub; out = outgoing_of pf k remote m
        in if blob_held blob \<and> sameRecords out remote
           then (Finished (Inr (sync_result UpToDate ver m withheld)),
                 setState \<lparr>sync_version = ver, sync_lastSyncedAt = at_clock a\<rparr> st')
           else push_attempt pf k c a ver out m withheld st')"
    "store_wf st'" "set (listHosts st') = set (hosts m)" "set (listPins st') = set (hostKeys m)"
    "set (listSnippets st') = set (or_empty (snippets m))" "getTombstones st' = tombstones m"
    "\<And>now. set (keys (readLocalVault now st')) = set (keys m)"
proof -
  note can = merged_keys_canonical [OF canonical, of "at_clock a" st, folded m_def]
  obtain st' where st': "applyVaultLocally m (readLocalVault (at_clock a) st) st = Inr st'"
      "set (listHosts st') = set (hosts m)" "set (listPins st') = set (hostKeys m)"
      "set (listSnippets st') = set (or_empty (snippets m))" "getTombstones st' = tombstones m"
    using applied_device_holds_merged [OF wf refl meta_eq_to_obj_eq [OF m_def] can] by blast
  have "set (keys (readLocalVault now st')) = set (keys m)" for now
    using applied_device_holds_merged [OF wf refl meta_eq_to_obj_eq [OF m_def] can, where now' = now] st'(1) by auto
  moreover have "store_wf st'"
    using store_wf_apply [OF wf, of m "readLocalVault (at_clock a) st"] st'(1)
    by (simp add: m_def mergeVault_sel merge_tombstones_well_formed tombs)
  moreover have "sync_attempt pf k c a st =
       (let pub = publishable pf k remote m; withheld = length (keys m) - length pub; out = outgoing_of pf k remote m
        in if blob_held blob \<and> sameRecords out remote
           then (Finished (Inr (sync_result UpToDate ver m withheld)),
                 setState \<lparr>sync_version = ver, sync_lastSyncedAt = at_clock a\<rparr> st')
           else push_attempt pf k c a ver out m withheld st')"
    by (simp add: sync_attempt_def pull opened Let_def st'(1) flip: m_def)
  ultimately show thesis using that st' by blast
qed

lemma sync_attempt_nothing_new:
  assumes "store_wf st" "at_pull a = Some (VaultPulled ver blob)" "remote_of pf k blob = Some remote"
    and "\<forall>x\<in>set (keys remote). canonical_key x" "js_well_formed (tombstones remote)"
    and m: "m = mergeVault (readLocalVault (at_clock a) st) remote"
    and "blob_held blob" "sameRecords (outgoing_of pf k remote m) remote"
  shows "\<exists>st'. sync_attempt pf k c a st =
    (Finished (Inr (sync_result UpToDate ver m (length (keys m) - length (publishable pf k remote m)))), st')"
  by (rule sync_attempt_landed [OF assms(1-5), of c]) (use assms(7,8) in \<open>simp add: Let_def flip: m\<close>)

lemma runSync_last:
  "runSync pf k net 0 c st =
     (case sync_attempt pf k c (net 0) st of
        (Finished r, st') \<Rightarrow> (r, st') | (Conflicted, st') \<Rightarrow> (Inl KeptConflicting, st'))"
  by (subst runSync.simps) (simp split: prod.split sync_outcome.split)

lemma runSync_again:
  "runSync pf k net (Suc n) c st =
     (case sync_attempt pf k c (net (Suc n)) st of
        (Finished r, st') \<Rightarrow> (r, st') | (Conflicted, st') \<Rightarrow> runSync pf k net n True st')"
  by (subst runSync.simps) (simp split: prod.split sync_outcome.split)

lemma runSync_finished:
  "sync_attempt pf k c (net n) st = (Finished r, st') \<Longrightarrow> runSync pf k net n c st = (r, st')"
  by (simp add: runSync.simps)

lemma push_attempt_accepted:
  assumes "push_attempt pf k c a ver out m w st = (Finished (Inr r), st')"
  shows "res_keysWithheld r = w \<and> st' = setState \<lparr>sync_version = res_version r, sync_lastSyncedAt = at_clock a\<rparr> st
    \<and> at_push a (envelope_text pf (encryptVault pf (at_iv a) k out)) ver = Some (VaultPushed (res_version r))"
  using assms
  by (auto simp: push_attempt_def sync_result_def split: option.splits VaultResponse.splits if_splits)

lemma push_attempt_status:
  "push_attempt pf k c a ver out m w st = (Finished (Inr r), st') \<Longrightarrow>
     res_status r = (if c then ConflictResolved else Synced)"
  by (auto simp: push_attempt_def sync_result_def split: option.splits VaultResponse.splits if_splits)

lemma sync_attempt_status:
  "sync_attempt pf k c a st = (Finished (Inr r), st') \<Longrightarrow>
     res_status r = (if c then ConflictResolved else Synced) \<or> res_status r \<in> {UpToDate, Offline}"
  by (auto simp: sync_attempt_def Let_def sync_result_def split: option.splits VaultResponse.splits sum.splits if_splits
      dest!: push_attempt_status)

section \<open>Properties\<close>

text \<open>
  C3. Sync converges. When an attempt's push is accepted and the next cycle pulls the blob it pushed,
  that cycle finds nothing to write: it ends up-to-date at the pushed version after its first attempt
  and holds the same number of keys back, whatever its push would have answered.
\<close>

theorem sync_converges:
  assumes pf: "platform_ok pf" and wf: "store_wf st"
    and pull: "at_pull a = Some (VaultPulled ver blob)"
    and opened: "remote_of pf k blob = Some remote"
    and canonical: "\<forall>x\<in>set (keys remote). canonical_key x"
    and tombs: "js_well_formed (tombstones remote)"
    and m: "m = mergeVault (readLocalVault (at_clock a) st) remote"
    and accepted: "sync_attempt pf k c a st = (Finished (Inr r), st')" "res_status r \<noteq> UpToDate"
    and pull': "at_pull (net 2) = Some (VaultPulled (res_version r)
        (Some (envelope_text pf (encryptVault pf (at_iv a) k (outgoing_of pf k remote m)))))"
  shows "\<exists>r' st''. syncVault pf k net st' = (Inr r', st'') \<and> res_status r' = UpToDate
       \<and> res_version r' = res_version r \<and> res_keysWithheld r' = res_keysWithheld r"
proof -
  let ?out = "outgoing_of pf k remote m" and ?r' = "over_empty (partial_of (outgoing_of pf k remote m))"
  obtain st1 where st1: "sync_attempt pf k c a st =
       (let pub = publishable pf k remote m; withheld = length (keys m) - length pub; out = ?out
        in if blob_held blob \<and> sameRecords out remote
           then (Finished (Inr (sync_result UpToDate ver m withheld)),
                 setState \<lparr>sync_version = ver, sync_lastSyncedAt = at_clock a\<rparr> st1)
           else push_attempt pf k c a ver out m withheld st1)"
    "store_wf st1" "set (listHosts st1) = set (hosts m)" "set (listPins st1) = set (hostKeys m)"
    "set (listSnippets st1) = set (or_empty (snippets m))" "getTombstones st1 = tombstones m"
    "\<And>now. set (keys (readLocalVault now st1)) = set (keys m)"
    using sync_attempt_landed [OF wf pull opened canonical tombs] unfolding m by metis
  have "push_attempt pf k c a ver ?out m (length (keys m) - length (keys ?out)) st1 = (Finished (Inr r), st')"
    using st1(1) accepted by (auto simp: Let_def outgoing_of_def sync_result_def split: if_splits)
  note pushed = push_attempt_accepted [OF this]
  note same = sameRecords_again [OF pf m tombs refl refl, of "readLocalVault (at_clock (net 2)) st1"]
  let ?m' = "mergeVault (readLocalVault (at_clock (net 2)) st1) ?r'"
  have same: "sameRecords (outgoing_of pf k ?r' ?m') ?r'" "set (keys ?m') = set (keys m)" "distinct (map key_id (keys ?m'))"
    using same st1(3-7) by simp_all
  have wf': "store_wf st'" and st1': "readLocalVault now st' = readLocalVault now st1" for now
    using pushed st1(2) by simp_all
  have "\<forall>x\<in>set (keys ?r'). canonical_key x"
    using merged_keys_canonical [OF canonical, of "at_clock a" st] by (auto simp: m outgoing_of_def publishable_def)
  moreover have "js_well_formed (tombstones ?r')"
    by (simp add: outgoing_of_def m mergeVault_sel merge_tombstones_well_formed tombs)
  ultimately obtain st2 where "sync_attempt pf k False (net 2) st' =
      (Finished (Inr (sync_result UpToDate (res_version r) ?m' (length (keys ?m') - length (publishable pf k ?r' ?m')))), st2)"
    using sync_attempt_nothing_new [OF wf' pull' remote_of_pushed [OF pf] _ _ refl, where c = False] same(1) pf
    unfolding st1' by (fastforce simp: blob_held_def platform_ok_def)
  note second = runSync_finished [where net = net and n = 2, OF this]
  have "length (keys ?m') = length (keys m)"
    using same(2,3) distinct_card [of "keys ?m'"] distinct_card [of "keys m"] document_ids_distinct_merge
    by (simp add: document_ids_distinct_def distinct_map m)
  moreover have "publishable pf k ?r' ?m' = keys ?out"
    using same(1) by (simp add: sameRecords_def outgoing_of_def)
  ultimately show ?thesis
    using second pushed by (auto simp: syncVault_def sync_result_def numeral_2_eq_2)
qed

text \<open>
  A platform for the examples: the key is a byte xored onto the text, a document is coded by its index
  in an enumeration of all documents. It satisfies the laws.
\<close>

instance HostAuth :: countable
  by countable_datatype

instance Host_ext :: (countable) countable
  by (rule countable_classI [of "\<lambda>r. to_nat (host_id r, host_label r, host_hostname r, host_port r, host_username r,
      host_auth r, host_keyId r, host_agentId r, host_folder r, host_tags r, host_createdAt r, host_lastUsedAt r,
      host_updatedAt r, Host.more r)"]) simp

instance SyncedKey_ext :: (countable) countable
  by (rule countable_classI [of "\<lambda>r. to_nat (key_id r, key_label r, key_publicKeyRaw r, key_wrapped_iv r,
      key_wrapped_ciphertext r, key_createdAt r, SyncedKey.more r)"]) simp

instance PinnedHostKey_ext :: (countable) countable
  by (rule countable_classI [of "\<lambda>r. to_nat (pin_id r, pin_key r, pin_fingerprint r, pin_type r, pinnedAt r,
      lastSeenAt r, PinnedHostKey.more r)"]) simp

instance Snippet_ext :: (countable) countable
  by (rule countable_classI [of "\<lambda>r. to_nat (snippet_id r, snippet_name r, snippet_body r, snippet_description r,
      snippet_tags r, snippet_createdAt r, snippet_updatedAt r, Snippet.more r)"]) simp

instance VaultDocument_ext :: (countable) countable
  by (rule countable_classI [of "\<lambda>r. to_nat (hosts r, keys r, hostKeys r, snippets r, tombstones r, updatedAt r,
      VaultDocument.more r)"]) simp

instance VaultEnvelope_ext :: (countable) countable
  by (rule countable_classI [of "\<lambda>r. to_nat (env_v r, env_iv r, env_ct r, VaultEnvelope.more r)"]) simp

definition sample_platform :: "byte platform" where
  "sample_platform =
     \<lparr>aes_encrypt = (\<lambda>k iv p. map (xor k) p), aes_decrypt = (\<lambda>k iv c. Some (map (xor k) c)),
      doc_bytes = (\<lambda>d. replicate (to_nat d) 0), parse_doc = (\<lambda>b. Some (partial_of (from_nat (length b)))),
      envelope_text = (\<lambda>e. replicate (Suc (to_nat e)) CHR ''x''),
      parse_envelope = (\<lambda>s. Some (from_nat (length s - 1)))\<rparr>"

lemma sample_platform_ok: "platform_ok sample_platform"
  by (simp add: platform_ok_def sample_platform_def o_def xor.left_commute flip: xor.assoc)

definition sample_first :: attempt where
  "sample_first = \<lparr>at_clock = 5, at_iv = [1], at_pull = Some (VaultPulled 0 None), at_push = (\<lambda>_ base. Some (VaultPushed (base + 1)))\<rparr>"

lemma sync_first:
  defines "m \<equiv> mergeVault (readLocalVault 5 empty_store) emptyDoc"
  shows "sync_attempt pf k False sample_first empty_store =
     (Finished (Inr (sync_result Synced 1 m 0)), setState \<lparr>sync_version = 1, sync_lastSyncedAt = 5\<rparr> empty_store)"
proof -
  have l: "listHosts empty_store = []" "listPins empty_store = []" "listSnippets empty_store = []"
    "getTombstones empty_store = []" "keys (readLocalVault 5 empty_store) = []"
    by (simp_all add: empty_store_def listHosts_def listPins_def listSnippets_def getTombstones_def idb_get_all_def
        js_values_def readLocalVault_def listStoredKeys_def List.map_filter_def)
  have m: "hosts m = []" "keys m = []" "hostKeys m = []" "snippets m = Some []" "tombstones m = []"
    by (simp_all add: m_def mergeVault_sel l emptyDoc_def mergeById_def js_values_def merge_tombstones_def)
  show ?thesis
    by (simp add: sync_attempt_def sample_first_def remote_of_def Let_def m [unfolded m_def] m_def applyVaultLocally_def l
        removeDeleted_def publishable_def blob_held_def push_attempt_def setTombstones_def) (simp add: empty_store_def)
qed

theorem sync_converges_witness:
  "\<exists>r' st''. syncVault sample_platform 7
      (\<lambda>_. sample_first\<lparr>at_pull := Some (VaultPulled 1 (Some (envelope_text sample_platform
         (encryptVault sample_platform [1] 7 (outgoing_of sample_platform 7 emptyDoc
            (mergeVault (readLocalVault 5 empty_store) emptyDoc))))))\<rparr>)
      (setState \<lparr>sync_version = 1, sync_lastSyncedAt = 5\<rparr> empty_store) = (Inr r', st'') \<and> res_status r' = UpToDate"
proof -
  let ?m = "mergeVault (readLocalVault 5 empty_store) emptyDoc"
  from sync_converges [OF sample_platform_ok store_wf_empty _ _ _ _ _ sync_first [where k = 7], where ver = 0 and blob = None
      and remote = emptyDoc and net = "\<lambda>_. sample_first\<lparr>at_pull :=
      Some (VaultPulled 1 (Some (envelope_text sample_platform (encryptVault sample_platform [1] 7
        (outgoing_of sample_platform 7 emptyDoc ?m)))))\<rparr>" and m = ?m]
  show ?thesis
    by (auto simp: sample_first_def remote_of_def sync_result_def emptyDoc_sel)
qed

text \<open>
  C9. A sync always comes back, after at most three attempts, and reports what happened: when every
  attempt meets a conflict it fails with the error that says so, it reports a resolved conflict exactly
  when an attempt before the accepted one conflicted, and \<open>Synced\<close> only when the first one went through.
\<close>

theorem syncVault_reports_conflicts:
  "let (out2, st2) = sync_attempt pf k False (net 2) st;
       (out1, st1) = sync_attempt pf k True (net 1) st2;
       (out0, st0) = sync_attempt pf k True (net 0) st1
   in syncVault pf k net st =
        (case out2 of
           Finished r \<Rightarrow> (r, st2)
         | Conflicted \<Rightarrow> (case out1 of
             Finished r \<Rightarrow> (r, st1)
           | Conflicted \<Rightarrow> (case out0 of Finished r \<Rightarrow> (r, st0) | Conflicted \<Rightarrow> (Inl KeptConflicting, st0))))
      \<and> (case fst (syncVault pf k net st) of
             Inl _ \<Rightarrow> True
           | Inr r \<Rightarrow> (case res_status r of
               Synced \<Rightarrow> out2 = Finished (Inr r)
             | ConflictResolved \<Rightarrow> out2 = Conflicted
             | _ \<Rightarrow> True))"
proof -
  have two: "(2 :: nat) = Suc 1" "(1 :: nat) = Suc 0" by simp_all
  have honest: "res_status r = (if c then ConflictResolved else Synced) \<or> res_status r \<in> {UpToDate, Offline}"
    if "sync_attempt pf k c a s = (Finished (Inr r), s')" for c a s s' r
    using that by (rule sync_attempt_status)
  show ?thesis
    unfolding syncVault_def two runSync_last runSync_again
    using honest by (fastforce simp: Let_def split: prod.splits sync_outcome.splits sum.splits SyncStatus.splits)
qed

text \<open>
  A cycle that cannot read the server's copy leaves the device alone: no answer, an error status,
  or a blob this key does not open returns or throws with the store exactly as it was.
\<close>

theorem sync_unreadable_pull_is_harmless:
  assumes "case at_pull (net 2) of
      Some (VaultPulled _ blob) \<Rightarrow> remote_of pf k blob = None
    | _ \<Rightarrow> True"
  shows "snd (syncVault pf k net st) = st"
proof -
  have "\<exists>r. sync_attempt pf k False (net 2) st = (Finished r, st)"
    using assms by (auto simp: sync_attempt_def split: option.splits VaultResponse.splits)
  then obtain r where "sync_attempt pf k False (net 2) st = (Finished r, st)" by blast
  from runSync_finished [where net = net and n = 2, OF this] show ?thesis
    by (simp add: syncVault_def)
qed

theorem sync_unreadable_pull_is_harmless_witness:
  "snd (syncVault sample_platform 7 (\<lambda>_. sample_first\<lparr>at_pull := Some (VaultRefused 401 ''unauthorized'')\<rparr>) sample_store)
     = sample_store"
  by (rule sync_unreadable_pull_is_harmless) simp

section \<open>Restore\<close>

lemma count_fold:
  "foldl (count_step ident stamp lm mm) c xs =
     c\<lparr>added := added c + length (filter (\<lambda>x. mm (ident x) \<noteq> None \<and> lm (ident x) = None) xs),
       updated := updated c + length (filter (\<lambda>x. \<exists>w h. mm (ident x) = Some w \<and> lm (ident x) = Some h \<and> stamp h < stamp w) xs),
       blockedByDelete := blockedByDelete c + length (filter (\<lambda>x. mm (ident x) = None) xs)\<rparr>"
  by (induction xs arbitrary: c) (auto simp: count_step_def split: option.splits)

lemma map_of_rev_ids_None: "map_of (rev (map (\<lambda>i. (ident i, i)) xs)) i = None \<longleftrightarrow> i \<notin> ident ` set xs"
  by (force simp: map_of_eq_None_iff)

lemma countAgainst_counts:
  "added (countAgainst ident l i m stamp) = length (filter (\<lambda>x. ident x \<in> ident ` set m \<and> ident x \<notin> ident ` set l) i)"
  "blockedByDelete (countAgainst ident l i m stamp) = length (filter (\<lambda>x. ident x \<notin> ident ` set m) i)"
  "inFile (countAgainst ident l i m stamp) = length i"
  by (simp_all add: countAgainst_def count_fold map_of_rev_ids_None del: not_None_eq)

lemma restoreVault_result:
  assumes "env_v env = 1" "decryptVault pf k env = Some doc"
    and "applyVaultLocally (mergeVault (readLocalVault now st) (normalise doc)) (readLocalVault now st) st = Inr st'"
  shows "\<exists>res. restoreVault pf k now net env st = (Inr res, snd (syncVault pf k net st'))
    \<and> rr_hosts res = countAgainst host_id (listHosts st) (or_empty (p_hosts doc))
        (hosts (mergeVault (readLocalVault now st) (normalise doc))) hostStamp"
  using assms
  by (cases "syncVault pf k net st'"; cases "fst (syncVault pf k net st')")
    (auto simp: restoreVault_def Let_def normalise_def)


definition sample_export :: VaultEnvelope where
  "sample_export = encryptVault sample_platform [3] 7 sample_remote"


text \<open>
  An export this key does not open, or of a format this build does not know, changes nothing on the
  device, and the two failures are told apart.
\<close>

theorem restore_failure_is_harmless:
  "(case restoreVault pf k now net env st of
      (Inl (VaultFormatError v), st') \<Rightarrow> env_v env = v \<and> v \<noteq> 1 \<and> st' = st
    | (Inl VaultDecryptionError, st') \<Rightarrow> env_v env = 1 \<and> decryptVault pf k env = None \<and> st' = st
    | _ \<Rightarrow> env_v env = 1 \<and> decryptVault pf k env \<noteq> None)"
  by (auto simp: restoreVault_def Let_def split: option.split sum.split prod.split)

end
