(* ===== verification/Qr_Field.thy ===== *)
theory Qr_Field
  imports Prelude
begin

text \<open>
  The Reed-Solomon half of \<open>lib/qr.ts\<close>: the exponent and logarithm tables of GF(256), the product,
  the generator polynomial and the remainder. The tables are built by the loop of the source; the
  lemmas derive from them that the product is bilinear, commutative and associative, and from that, that
  every block with its remainder appended vanishes at all roots of the generator.
\<close>

unbundle bit_operations_syntax

section \<open>Tables and product\<close>

definition gf_next :: "nat \<Rightarrow> nat" where
  "gf_next x = (let y = push_bit 1 x in if y AND 256 \<noteq> 0 then y XOR 285 else y)"

fun gf_fill :: "nat \<Rightarrow> nat \<Rightarrow> nat \<Rightarrow> byte list \<Rightarrow> byte list \<Rightarrow> byte list \<times> byte list" where
  "gf_fill 0 i x es ls = (es, ls)"
| "gf_fill (Suc n) i x es ls = gf_fill n (i + 1) (gf_next x) (es[i := of_nat x]) (ls[x := of_nat i])"

fun gf_double :: "nat \<Rightarrow> nat \<Rightarrow> byte list \<Rightarrow> byte list" where
  "gf_double 0 i es = es"
| "gf_double (Suc n) i es = gf_double n (i + 1) (es[i := es ! (i - 255)])"

definition GF_EXP :: "byte list" where
  "GF_EXP = gf_double 257 255 (fst (gf_fill 255 0 1 (replicate 512 0) (replicate 256 0)))"

definition GF_LOG :: "byte list" where
  "GF_LOG = snd (gf_fill 255 0 1 (replicate 512 0) (replicate 256 0))"

definition gfMul :: "byte \<Rightarrow> byte \<Rightarrow> byte" where
  "gfMul a b = (if a = 0 \<or> b = 0 then 0 else GF_EXP ! (unat (GF_LOG ! unat a) + unat (GF_LOG ! unat b)))"

section \<open>Divisor and remainder\<close>

text \<open>The inner loop of \<open>rsDivisor\<close>: each coefficient times the root, plus the next one as it was.\<close>

fun times_root :: "byte \<Rightarrow> byte list \<Rightarrow> byte list" where
  "times_root rt [] = []"
| "times_root rt [c] = [gfMul c rt]"
| "times_root rt (c # d # cs) = (gfMul c rt XOR d) # times_root rt (d # cs)"

fun divisor_loop :: "nat \<Rightarrow> byte \<Rightarrow> byte list \<Rightarrow> byte list" where
  "divisor_loop 0 rt result = result"
| "divisor_loop (Suc n) rt result = divisor_loop n (gfMul rt 2) (times_root rt result)"

definition rsDivisor :: "nat \<Rightarrow> byte list" where
  "rsDivisor degree = divisor_loop degree 1 ((replicate degree 0)[degree - 1 := 1])"

definition remainder_step :: "byte list \<Rightarrow> byte list \<Rightarrow> byte \<Rightarrow> byte list" where
  "remainder_step divisor result b =
     (let factor = b XOR hd result
      in map2 (\<lambda>r d. r XOR gfMul d factor) (tl result @ [0]) divisor)"

definition rsRemainder :: "byte list \<Rightarrow> byte list \<Rightarrow> byte list" where
  "rsRemainder data divisor = foldl (remainder_step divisor) (replicate (length divisor) 0) data"

section \<open>Facts about the tables\<close>

text \<open>Multiplication by two, on a byte.\<close>

definition xtime :: "byte \<Rightarrow> byte" where
  "xtime x = push_bit 1 x XOR (if bit x 7 then 29 else 0)"

lemma xtime_xor: "xtime (a XOR b) = xtime a XOR xtime b"
  by (auto simp: xtime_def push_bit_xor bit_xor_iff ac_simps)

lemma xtime_zero [simp]: "xtime 0 = 0"
  by (simp add: xtime_def)

lemma xtime_power_xor: "(xtime ^^ n) (a XOR b) = (xtime ^^ n) a XOR (xtime ^^ n) b"
  by (induction n) (simp_all add: xtime_xor)

lemma xtime_power_zero [simp]: "(xtime ^^ n) 0 = 0"
  by (induction n) simp_all

lemma gf_next_eq: "gf_next x = push_bit 1 x XOR (if bit x 7 then 285 else 0)"
proof -
  have "push_bit 1 x AND 256 \<noteq> 0 \<longleftrightarrow> bit (push_bit 1 x) 8"
    using and_exp_eq_0_iff_not_bit [of "push_bit 1 x" 8] by simp
  also have "\<dots> \<longleftrightarrow> bit x 7"
    by (simp only: bit_push_bit_iff) simp
  finally show ?thesis unfolding gf_next_def Let_def by simp
qed

lemma of_nat_gf_next: "(of_nat (gf_next x) :: byte) = xtime (of_nat x)"
proof -
  have "(of_nat (push_bit 1 x) :: byte) = push_bit 1 (of_nat x)"
    by (simp add: push_bit_eq_mult)
  moreover have "bit (of_nat x :: byte) 7 = bit x 7"
    by (simp add: bit_of_nat_iff)
  moreover have "(of_nat 285 :: byte) = 29" "(of_nat 0 :: byte) = 0"
    by (simp_all add: word_unat_eq_iff)
  ultimately show ?thesis
    unfolding gf_next_eq xtime_def of_nat_xor_eq by (simp only: if_distrib [of of_nat])
qed

text \<open>The powers of two, as the table loop runs through them.\<close>

definition gf_pow :: "nat \<Rightarrow> nat" where
  "gf_pow i = (gf_next ^^ i) 1"

primrec orbit :: "nat \<Rightarrow> nat \<Rightarrow> nat list" where
  "orbit 0 x = []"
| "orbit (Suc n) x = x # orbit n (gf_next x)"

lemma orbit_numeral: "orbit (numeral k) x = x # orbit (pred_numeral k) (gf_next x)"
  by (simp add: numeral_eq_Suc)

lemma length_orbit [simp]: "length (orbit n x) = n"
  by (induction n arbitrary: x) simp_all

lemma nth_orbit: "i < n \<Longrightarrow> orbit n x ! i = (gf_next ^^ i) x"
  by (induction n arbitrary: x i) (auto simp: nth_Cons funpow_swap1 split: nat.split)

lemma orbit_check:
  "list_all (\<lambda>x. 0 < x \<and> x < 256) (orbit 256 1) \<and> list_all (\<lambda>x. x \<noteq> 1) (butlast (tl (orbit 256 1))) \<and> last (orbit 256 1) = 1"
  by (simp add: orbit_numeral gf_next_def Let_def)

lemma gf_pow_0 [simp]: "gf_pow 0 = 1" and gf_pow_Suc: "gf_pow (Suc i) = gf_next (gf_pow i)"
  by (simp_all add: gf_pow_def)

lemma gf_pow_facts:
  shows gf_pow_255: "gf_pow 255 = 1"
    and gf_pow_range_small: "i < 256 \<Longrightarrow> 0 < gf_pow i \<and> gf_pow i < 256"
    and gf_pow_not_1: "0 < i \<Longrightarrow> i < 255 \<Longrightarrow> gf_pow i \<noteq> 1"
proof -
  have "orbit 256 1 \<noteq> []"
    by (simp flip: length_greater_0_conv)
  then have "last (orbit 256 1) = gf_pow 255"
    using nth_orbit [of 255 256 1] by (simp add: last_conv_nth gf_pow_def)
  then show "gf_pow 255 = 1"
    using orbit_check by simp
  show "0 < gf_pow i \<and> gf_pow i < 256" if "i < 256"
    using orbit_check nth_orbit [OF that, of 1] that by (auto simp: gf_pow_def list_all_length)
  show "gf_pow i \<noteq> 1" if "0 < i" "i < 255"
    using orbit_check nth_orbit [of i 256 1] that
    by (auto simp: gf_pow_def list_all_length nth_butlast nth_tl dest: spec [of _ "i - 1"])
qed

lemma gf_pow_add: "(gf_next ^^ j) (gf_pow i) = gf_pow (j + i)"
  by (simp add: gf_pow_def funpow_add)

lemma gf_pow_shift: "gf_pow (i + 255) = gf_pow i"
  using gf_pow_add [of i 255] by (simp only: gf_pow_255) (simp add: gf_pow_def)

lemma gf_pow_mod: "gf_pow i = gf_pow (i mod 255)"
proof (induction i rule: less_induct)
  case (less i)
  show ?case
  proof (cases "i < 255")
    case False
    then have "gf_pow i = gf_pow (i - 255)"
      using gf_pow_shift [of "i - 255"] by simp
    also have "\<dots> = gf_pow (i mod 255)"
      using less [of "i - 255"] False by (simp add: le_mod_geq)
    finally show ?thesis .
  qed simp
qed

lemma gf_pow_range: "0 < gf_pow i" "gf_pow i < 256"
  using gf_pow_range_small [of "i mod 255"] gf_pow_mod [of i] mod_less_divisor [of 255 i] by linarith+

lemma gf_pow_inj: "inj_on gf_pow {..<255}"
proof (rule linorder_inj_onI)
  fix i j :: nat assume ij: "i < j" "i \<in> {..<255}" "j \<in> {..<255}"
  show "gf_pow i \<noteq> gf_pow j"
  proof
    assume eq: "gf_pow i = gf_pow j"
    have "gf_pow (255 - j + i) = gf_pow (255 - j + j)"
      using gf_pow_add [of "255 - j" i] gf_pow_add [of "255 - j" j] eq by simp
    moreover have "255 - j + j = 255" "0 < 255 - j + i" "255 - j + i < 255" using ij by (simp_all add: lessThan_iff)
    ultimately have "gf_pow (255 - j + i) = 1" by (simp only: gf_pow_255)
    with \<open>0 < 255 - j + i\<close> \<open>255 - j + i < 255\<close> show False using gf_pow_not_1 [of "255 - j + i"] by (simp only:)
  qed
qed auto

lemma gf_pow_image: "gf_pow ` {..<255} = {1..<256}"
proof (rule card_subset_eq)
  show "gf_pow ` {..<255} \<subseteq> {1..<256}"
    using gf_pow_range by (auto simp: Suc_le_eq)
  show "card (gf_pow ` {..<255}) = card {1..<256::nat}"
    by (simp add: card_image gf_pow_inj)
qed simp

section \<open>What the tables hold\<close>

lemma length_gf_fill [simp]:
  "length (fst (gf_fill n i x es ls)) = length es" "length (snd (gf_fill n i x es ls)) = length ls"
  by (induction n i x es ls rule: gf_fill.induct) simp_all

lemma fst_gf_fill:
  "i + n \<le> length es \<Longrightarrow> j < length es \<Longrightarrow>
     fst (gf_fill n i x es ls) ! j = (if i \<le> j \<and> j < i + n then of_nat ((gf_next ^^ (j - i)) x) else es ! j)"
proof (induction n i x es ls rule: gf_fill.induct)
  case (2 n i x es ls)
  show ?case
  proof (cases "j \<le> i")
    case True
    with 2 show ?thesis by (auto simp: nth_list_update)
  next
    case False
    then have "j - i = Suc (j - (i + 1))" by simp
    with 2 False show ?thesis by (auto simp: funpow_swap1 nth_list_update)
  qed
qed auto

lemma snd_gf_fill_other:
  "\<forall>m<n. (gf_next ^^ m) x \<noteq> y \<Longrightarrow> snd (gf_fill n i x es ls) ! y = ls ! y"
proof (induction n i x es ls rule: gf_fill.induct)
  case (2 n i x es ls)
  have "\<forall>m<n. (gf_next ^^ m) (gf_next x) \<noteq> y"
  proof (intro allI impI)
    fix m assume "m < n"
    with 2(2) have "(gf_next ^^ Suc m) x \<noteq> y" by blast
    then show "(gf_next ^^ m) (gf_next x) \<noteq> y" by (simp add: funpow_swap1)
  qed
  moreover have "x \<noteq> y" using 2(2) by (auto dest: spec [of _ 0])
  ultimately show ?case using 2 by simp
qed simp

lemma snd_gf_fill:
  "m < n \<Longrightarrow> (\<forall>a<n. \<forall>b<n. (gf_next ^^ a) x = (gf_next ^^ b) x \<longrightarrow> a = b) \<Longrightarrow> (gf_next ^^ m) x < length ls \<Longrightarrow>
     snd (gf_fill n i x es ls) ! ((gf_next ^^ m) x) = of_nat (i + m)"
proof (induction n i x es ls arbitrary: m rule: gf_fill.induct)
  case (2 n i x es ls)
  have step: "(gf_next ^^ a) (gf_next x) = (gf_next ^^ Suc a) x" for a
    by (simp add: funpow_swap1)
  show ?case
  proof (cases m)
    case 0
    have "\<forall>a<n. (gf_next ^^ a) (gf_next x) \<noteq> x"
      using 2(3) by (auto simp: step simp del: funpow.simps) (metis Suc_less_eq funpow_0 nat.distinct(1) zero_less_Suc)
    with 0 2(4) show ?thesis by (simp add: snd_gf_fill_other)
  next
    case (Suc m')
    have "\<forall>a<n. \<forall>b<n. (gf_next ^^ a) (gf_next x) = (gf_next ^^ b) (gf_next x) \<longrightarrow> a = b"
      using 2(3) unfolding step by (metis Suc_inject Suc_less_eq)
    from 2(1) [OF _ this, of m'] 2(2,4) Suc show ?thesis
      by (simp add: step del: funpow.simps)
  qed
qed simp

lemma length_gf_double [simp]: "length (gf_double n i es) = length es"
  by (induction n i es rule: gf_double.induct) simp_all

lemma gf_double_low: "j < i \<Longrightarrow> gf_double n i es ! j = es ! j"
  by (induction n i es rule: gf_double.induct) simp_all

lemma gf_double_copy:
  "255 \<le> i \<Longrightarrow> i + n \<le> length es \<Longrightarrow> \<forall>j<i. es ! j = of_nat (gf_pow j) \<Longrightarrow> j < i + n \<Longrightarrow>
     gf_double n i es ! j = of_nat (gf_pow j)"
proof (induction n i es rule: gf_double.induct)
  case (2 n i es)
  have "gf_pow (i - 255) = gf_pow i"
    using gf_pow_shift [of "i - 255"] 2(2) by simp
  then have "\<forall>j<i + 1. (es[i := es ! (i - 255)]) ! j = of_nat (gf_pow j)"
    using 2(2,3,4) by (auto simp: nth_list_update less_Suc_eq)
  with 2 show ?case by simp
qed simp

lemma GF_EXP_nth: "j < 512 \<Longrightarrow> GF_EXP ! j = of_nat (gf_pow j)"
  unfolding GF_EXP_def
  by (rule gf_double_copy) (simp_all add: fst_gf_fill gf_pow_def del: gf_fill.simps)

lemma GF_LOG_nth: "m < 255 \<Longrightarrow> GF_LOG ! gf_pow m = of_nat m"
  unfolding GF_LOG_def gf_pow_def
  using inj_onD [OF gf_pow_inj] gf_pow_range(2) [of m]
  by (subst snd_gf_fill) (auto simp: gf_pow_def)

definition gf_exp :: "nat \<Rightarrow> byte" where
  "gf_exp i = of_nat (gf_pow i)"

definition gf_log :: "byte \<Rightarrow> nat" where
  "gf_log a = unat (GF_LOG ! unat a)"

lemma gf_exp_simps [simp]: "gf_exp 0 = 1" "gf_exp (Suc i) = xtime (gf_exp i)"
  by (simp_all add: gf_exp_def gf_pow_Suc of_nat_gf_next)

lemma gf_exp_add: "gf_exp (i + j) = (xtime ^^ i) (gf_exp j)"
  by (induction i) simp_all

lemma gf_exp_not_0 [simp]: "gf_exp i \<noteq> 0"
proof
  assume "gf_exp i = 0"
  then have "unat (gf_exp i) = 0" by simp
  then show False using gf_pow_range [of i] by (simp add: gf_exp_def unat_of_nat)
qed

lemma gf_exp_log:
  assumes "a \<noteq> 0"
  shows "gf_exp (gf_log a) = a" and "gf_log a < 255"
proof -
  have "unat a < 256"
    using unsigned_less [of a] by simp
  then have "unat a \<in> gf_pow ` {..<255}"
    using assms unat_gt_0 [of a] unfolding gf_pow_image by simp
  then obtain m where m: "m < 255" "unat a = gf_pow m" by auto
  then have log: "gf_log a = m"
    by (simp add: gf_log_def GF_LOG_nth unat_of_nat)
  show "gf_log a < 255" using m log by simp
  show "gf_exp (gf_log a) = a"
    unfolding log gf_exp_def m(2) [symmetric] by simp
qed

section \<open>The product\<close>

lemma gfMul_exp: "a \<noteq> 0 \<Longrightarrow> gfMul a b = (xtime ^^ gf_log a) b"
proof (cases "b = 0")
  case False
  moreover assume "a \<noteq> 0"
  ultimately have "gfMul a b = gf_exp (gf_log a + gf_log b)"
    using gf_exp_log(2) [of a] gf_exp_log(2) [of b]
    by (simp add: gfMul_def GF_EXP_nth gf_exp_def flip: gf_log_def)
  with False show ?thesis by (simp add: gf_exp_add gf_exp_log)
qed (simp add: gfMul_def)

lemma gfMul_zero [simp]: "gfMul 0 b = 0" "gfMul a 0 = 0"
  by (simp_all add: gfMul_def)

lemma gfMul_commute: "gfMul a b = gfMul b a"
  by (auto simp: gfMul_def add.commute)

lemma gfMul_xor_right: "gfMul a (b XOR c) = gfMul a b XOR gfMul a c"
  by (cases "a = 0") (simp_all add: gfMul_exp xtime_power_xor)

lemma gfMul_xor_left: "gfMul (a XOR b) c = gfMul a c XOR gfMul b c"
  using gfMul_xor_right [of c a b] by (simp add: gfMul_commute [of _ c])

lemma gfMul_assoc: "gfMul (gfMul a b) c = gfMul a (gfMul b c)"
proof (cases "a = 0 \<or> b = 0 \<or> c = 0")
  case False
  have "gfMul (gfMul a b) c = gfMul c (gfMul a b)" by (rule gfMul_commute)
  also have "\<dots> = (xtime ^^ (gf_log c + gf_log a)) b"
    using False by (simp add: gfMul_exp funpow_add)
  also have "\<dots> = gfMul a (gfMul c b)"
    using False by (simp add: gfMul_exp funpow_add add.commute)
  finally show ?thesis by (simp add: gfMul_commute [of c b])
qed auto

lemma gfMul_one [simp]: "gfMul 1 a = a" "gfMul a 1 = a"
proof -
  have "gf_log 1 = 0"
    using GF_LOG_nth [of 0] by (simp add: gf_log_def)
  then show "gfMul 1 a = a" by (simp add: gfMul_exp)
  then show "gfMul a 1 = a" by (simp add: gfMul_commute)
qed

section \<open>Polynomials over the field\<close>

text \<open>The value of a polynomial, leading coefficient first, at a point.\<close>

definition gf_eval :: "byte list \<Rightarrow> byte \<Rightarrow> byte" where
  "gf_eval cs r = foldl (\<lambda>acc c. gfMul acc r XOR c) 0 cs"

primrec gf_power :: "byte \<Rightarrow> nat \<Rightarrow> byte" where
  "gf_power r 0 = 1"
| "gf_power r (Suc n) = gfMul r (gf_power r n)"

lemma gf_eval_from: "foldl (\<lambda>acc c. gfMul acc r XOR c) a cs = gfMul a (gf_power r (length cs)) XOR gf_eval cs r"
proof (induction cs arbitrary: a)
  case (Cons c cs)
  have "foldl (\<lambda>acc c. gfMul acc r XOR c) a (c # cs) =
      gfMul (gfMul a r XOR c) (gf_power r (length cs)) XOR gf_eval cs r"
    using Cons [of "gfMul a r XOR c"] by simp
  also have "\<dots> = gfMul a (gf_power r (length (c # cs))) XOR (gfMul c (gf_power r (length cs)) XOR gf_eval cs r)"
    by (simp add: gfMul_xor_left gfMul_assoc xor.assoc)
  also have "gfMul c (gf_power r (length cs)) XOR gf_eval cs r = gf_eval (c # cs) r"
    using Cons [of c] by (simp add: gf_eval_def)
  finally show ?case .
qed (simp add: gf_eval_def)

lemma gf_eval_Nil [simp]: "gf_eval [] r = 0"
  by (simp add: gf_eval_def)

lemma gf_eval_Cons: "gf_eval (c # cs) r = gfMul c (gf_power r (length cs)) XOR gf_eval cs r"
  using gf_eval_from [of r c cs] by (simp add: gf_eval_def)

lemma gf_eval_append: "gf_eval (xs @ ys) r = gfMul (gf_eval xs r) (gf_power r (length ys)) XOR gf_eval ys r"
  using gf_eval_from [of r "gf_eval xs r" ys] by (simp add: gf_eval_def)

lemma gf_eval_snoc: "gf_eval (xs @ [c]) r = gfMul (gf_eval xs r) r XOR c"
  by (simp add: gf_eval_append gf_eval_Cons)

lemma gf_eval_map2:
  "length xs = length ys \<Longrightarrow>
     gf_eval (map2 (\<lambda>x y. x XOR gfMul y f) xs ys) r = gf_eval xs r XOR gfMul (gf_eval ys r) f"
proof (induction xs ys rule: list_induct2)
  case (Cons x xs y ys)
  have "gfMul (gfMul y f) p = gfMul (gfMul y p) f" for p
    by (metis gfMul_assoc gfMul_commute)
  with Cons show ?case
    by (simp add: gf_eval_Cons gfMul_xor_left xor.assoc xor.left_commute)
qed simp

lemma length_remainder_step: "length result = length divisor \<Longrightarrow> result \<noteq> [] \<Longrightarrow> length (remainder_step divisor result b) = length divisor"
  by (simp add: remainder_step_def Let_def)

text \<open>The division invariant: at a root of the divisor, the remainder is the data shifted up by its degree.\<close>

lemma remainder_invariant:
  assumes rt: "gf_eval divisor r = gf_power r (length divisor)" and ne: "divisor \<noteq> []"
  shows "length (rsRemainder data divisor) = length divisor
       \<and> gf_eval (rsRemainder data divisor) r = gfMul (gf_eval data r) (gf_power r (length divisor))"
proof (induction data rule: rev_induct)
  case Nil
  have "gf_eval (replicate n 0) r = 0" for n
    by (induction n) (simp_all add: gf_eval_Cons)
  then show ?case by (simp add: rsRemainder_def)
next
  case (snoc b data)
  let ?res = "rsRemainder data divisor" and ?n = "length divisor"
  obtain c cs where res: "?res = c # cs" using snoc ne by (cases ?res) auto
  have step: "rsRemainder (data @ [b]) divisor = remainder_step divisor ?res b"
    by (simp add: rsRemainder_def)
  have len: "length (remainder_step divisor ?res b) = ?n"
    using snoc res by (simp add: length_remainder_step)
  have n: "?n = Suc (length cs)" using snoc res by simp
  have "gf_eval (remainder_step divisor ?res b) r = gfMul (gf_eval cs r) r XOR gfMul (gf_power r ?n) (b XOR c)"
    using n rt by (simp add: remainder_step_def res gf_eval_map2 gf_eval_snoc)
  also have "\<dots> = gfMul (gfMul c (gf_power r (length cs)) XOR gf_eval cs r) r XOR gfMul b (gf_power r ?n)"
  proof -
    have "gfMul (gf_power r ?n) c = gfMul (gfMul c (gf_power r (length cs))) r"
      by (simp add: n) (metis gfMul_assoc gfMul_commute)
    then show ?thesis
      by (simp add: gfMul_xor_left gfMul_xor_right gfMul_commute [of _ b] ac_simps)
  qed
  also have "\<dots> = gfMul (gf_eval ?res r) r XOR gfMul b (gf_power r ?n)"
    by (simp add: res gf_eval_Cons)
  also have "\<dots> = gfMul (gf_eval (data @ [b]) r) (gf_power r ?n)"
    using snoc by (simp add: gf_eval_snoc gfMul_xor_left) (metis gfMul_assoc gfMul_commute)
  finally show ?case using len step by simp
qed

lemma codeword_vanishes:
  assumes "gf_eval divisor r = gf_power r (length divisor)" "divisor \<noteq> []"
  shows "gf_eval (data @ rsRemainder data divisor) r = 0"
  using remainder_invariant [OF assms, of data] by (simp add: gf_eval_append)

section \<open>The generator polynomial\<close>

lemma length_times_root [simp]: "length (times_root rt cs) = length cs"
  by (induction rt cs rule: times_root.induct) simp_all

lemma gf_eval_times_root:
  "cs \<noteq> [] \<Longrightarrow> gf_eval (times_root rt cs) r =
     gfMul (gf_eval cs r) (r XOR rt) XOR gfMul (hd cs) (gf_power r (length cs))"
proof (induction rt cs rule: times_root.induct)
  case (2 rt c)
  then show ?case
    by (simp add: gf_eval_Cons gfMul_xor_right) (simp add: gfMul_commute [of r c] ac_simps)
next
  case (3 rt c d cs)
  let ?p = "gf_power r (length cs)"
  have "gf_eval (times_root rt (c # d # cs)) r =
      gfMul (gfMul c rt XOR d) (gfMul r ?p) XOR gf_eval (times_root rt (d # cs)) r"
    by (simp add: gf_eval_Cons)
  also have "\<dots> = gfMul (gfMul c rt) (gfMul r ?p) XOR gfMul (gf_eval (d # cs) r) (r XOR rt)"
    using 3 by (simp add: gfMul_xor_left ac_simps)
  also have "\<dots> = gfMul (gf_eval (c # d # cs) r) (r XOR rt) XOR gfMul c (gfMul r (gfMul r ?p))"
  proof -
    have "gfMul (gfMul c (gfMul r ?p)) r = gfMul c (gfMul r (gfMul r ?p))"
      "gfMul (gfMul c (gfMul r ?p)) rt = gfMul (gfMul c rt) (gfMul r ?p)"
      by (metis gfMul_assoc gfMul_commute)+
    then show ?thesis
      by (simp add: gf_eval_Cons [of c] gfMul_xor_left gfMul_xor_right ac_simps)
  qed
  finally show ?case by simp
qed simp

primrec root_product :: "byte \<Rightarrow> nat \<Rightarrow> byte \<Rightarrow> byte" where
  "root_product rt 0 r = 1"
| "root_product rt (Suc n) r = gfMul (r XOR rt) (root_product (gfMul rt 2) n r)"

lemma root_product_zero: "i < n \<Longrightarrow> root_product rt n (gfMul rt (gf_power 2 i)) = 0"
proof (induction n arbitrary: i rt)
  case (Suc n)
  show ?case
  proof (cases i)
    case (Suc j)
    have "gfMul rt (gf_power 2 i) = gfMul (gfMul rt 2) (gf_power 2 j)"
      by (simp add: Suc gfMul_assoc)
    with Suc.IH [of j "gfMul rt 2"] Suc.prems Suc show ?thesis by simp
  qed simp
qed simp

lemma times_root_zeros:
  "\<exists>rest'. times_root rt (replicate m 0 @ 1 # rest) = (if m = 0 then times_root rt (1 # rest) else replicate (m - 1) 0 @ 1 # rest')"
proof (induction m)
  case (Suc m)
  show ?case by (cases m) (use Suc in auto)
qed simp

lemma gf_eval_divisor_loop:
  "gf_eval (divisor_loop (Suc m) rt (replicate m 0 @ 1 # rest)) r =
     gfMul (gf_eval (replicate m 0 @ 1 # rest) r) (root_product rt (Suc m) r) XOR gf_power r (m + Suc (length rest))"
proof (induction m arbitrary: rt rest)
  case 0
  show ?case using gf_eval_times_root [of "1 # rest" rt r] by simp
next
  case (Suc m)
  let ?cs = "replicate (Suc m) 0 @ 1 # rest"
  obtain rest' where rest': "times_root rt ?cs = replicate m 0 @ 1 # rest'"
    using times_root_zeros [of rt "Suc m" rest] by auto
  have len: "length rest' = Suc (length rest)"
    using arg_cong [OF rest', of length] by simp
  have "gf_eval (divisor_loop (Suc (Suc m)) rt ?cs) r =
      gfMul (gf_eval (times_root rt ?cs) r) (root_product (gfMul rt 2) (Suc m) r) XOR gf_power r (m + Suc (length rest'))"
    using Suc.IH [of "gfMul rt 2" rest'] by (simp only: divisor_loop.simps rest')
  also have "gf_eval (times_root rt ?cs) r = gfMul (gf_eval ?cs r) (r XOR rt)"
    by (subst gf_eval_times_root) simp_all
  finally show ?case by (simp add: gfMul_assoc len)
qed

lemma length_divisor_loop [simp]: "length (divisor_loop n rt cs) = length cs"
  by (induction n rt cs rule: divisor_loop.induct) simp_all

lemma length_rsDivisor [simp]: "length (rsDivisor n) = n"
  by (simp add: rsDivisor_def)

lemma update_last_replicate: "(replicate (Suc m) x)[m := y] = replicate m x @ [y]"
  by (induction m) simp_all

lemma rsDivisor_root:
  assumes "i < degree"
  shows "gf_eval (rsDivisor degree) (gf_power 2 i) = gf_power (gf_power 2 i) degree"
proof -
  obtain m where m: "degree = Suc m" using assms by (cases degree) auto
  have start: "(replicate degree 0)[degree - 1 := 1] = replicate m (0 :: byte) @ 1 # []"
    using update_last_replicate [of m 0 1] by (simp add: m)
  have "root_product 1 (Suc m) (gf_power 2 i) = 0"
    using root_product_zero [of i "Suc m" 1] assms m by (simp del: root_product.simps)
  then show ?thesis
    unfolding rsDivisor_def start using gf_eval_divisor_loop [of m 1 "[]" "gf_power 2 i"]
    by (simp add: m del: divisor_loop.simps root_product.simps)
qed

lemma length_rsRemainder:
  assumes "0 < n" shows "length (rsRemainder data (rsDivisor n)) = n"
proof -
  have "rsDivisor n \<noteq> []" using assms length_rsDivisor [of n] by force
  from remainder_invariant [OF _ this] rsDivisor_root [OF assms] show ?thesis by simp
qed

section \<open>Properties\<close>

text \<open>
  C10. The error-correction codewords are right: a block followed by its Reed-Solomon remainder for
  \<open>n\<close> codewords is a multiple of the generator polynomial, that is, its polynomial vanishes at the
  first \<open>n\<close> powers of two of GF(256), which is what a decoder's syndrome check tests.
\<close>

theorem rs_codeword_syndromes_vanish:
  assumes "i < n"
  shows "gf_eval (data @ rsRemainder data (rsDivisor n)) (gf_power 2 i) = 0"
proof -
  have "rsDivisor n \<noteq> []" using assms length_rsDivisor [of n] by force
  then show ?thesis
    using codeword_vanishes [of "rsDivisor n" "gf_power 2 i" data] rsDivisor_root [OF assms] by simp
qed

theorem rs_codeword_syndromes_vanish_witness:
  "gf_eval ([64, 53, 102] @ rsRemainder [64, 53, 102] (rsDivisor 10)) (gf_power 2 9) = 0"
  by (rule rs_codeword_syndromes_vanish) simp

end
