(* ===== verification/Qr_Encode.thy ===== *)
theory Qr_Encode
  imports Qr_Field "HOL-Library.Multiset"
begin

text \<open>
  The codeword half of \<open>lib/qr.ts\<close>: the version tables, the choice of the version, the payload bits
  and their padding, the format and version strings, and the split into blocks and its interleaving.
\<close>

unbundle bit_operations_syntax

section \<open>Version tables\<close>

definition ECC_PER_BLOCK_M :: "nat list" where
  "ECC_PER_BLOCK_M = [10, 16, 26, 18, 24, 16, 18, 22, 22, 26]"

definition BLOCKS_M :: "nat list" where
  "BLOCKS_M = [1, 1, 1, 2, 2, 4, 4, 4, 5, 5]"

definition MIN_VERSION :: nat where "MIN_VERSION = 1"
definition MAX_VERSION :: nat where "MAX_VERSION = 10"

definition rawDataModules :: "nat \<Rightarrow> nat" where
  "rawDataModules version =
     (let result = (16 * version + 128) * version + 64
      in if 2 \<le> version
         then let numAlign = version div 7 + 2;
                  result = result - ((25 * numAlign - 10) * numAlign - 55)
              in if 7 \<le> version then result - 36 else result
         else result)"

definition rawCodewords :: "nat \<Rightarrow> nat" where
  "rawCodewords version = rawDataModules version div 8"

definition dataCodewords :: "nat \<Rightarrow> nat" where
  "dataCodewords version = rawCodewords version - BLOCKS_M ! (version - 1) * ECC_PER_BLOCK_M ! (version - 1)"

fun centres_loop :: "nat \<Rightarrow> int \<Rightarrow> int \<Rightarrow> int list \<Rightarrow> int list" where
  "centres_loop (Suc n) pos step (c # cs) = centres_loop n (pos - step) step (c # pos # cs)"
| "centres_loop _ pos step result = result"

definition alignmentCentres :: "nat \<Rightarrow> int \<Rightarrow> int list" where
  "alignmentCentres version sz =
     (if version = 1 then []
      else
        let count = version div 7 + 2;
            step = ((version * 4 + 4) + (count * 2 - 2) - 1) div (count * 2 - 2) * 2
        in centres_loop (count - 1) (sz - 7) (int step) [6])"

section \<open>Format and version strings\<close>

primrec bch_rem :: "nat \<Rightarrow> nat \<Rightarrow> nat \<Rightarrow> nat \<Rightarrow> nat" where
  "bch_rem sh gen 0 rem = rem"
| "bch_rem sh gen (Suc n) rem = bch_rem sh gen n (push_bit 1 rem XOR (drop_bit sh rem * gen))"

definition formatBits :: "nat \<Rightarrow> nat" where
  "formatBits msk =
     (let data = push_bit 3 0 OR msk; rem = bch_rem 9 0x537 10 data
      in (push_bit 10 data OR rem) XOR 0x5412)"

definition versionBits :: "nat \<Rightarrow> nat" where
  "versionBits version = push_bit 12 version OR bch_rem 11 0x1f25 12 version"

definition bitAt :: "nat \<Rightarrow> nat \<Rightarrow> bool" where
  "bitAt value i = (drop_bit i value AND 1 \<noteq> 0)"

section \<open>Payload\<close>

text \<open>\<^const>\<open>None\<close> is the thrown \<open>QrTooLongError\<close>.\<close>

definition versionFor :: "nat \<Rightarrow> nat option" where
  "versionFor byteLength =
     find (\<lambda>v. let headerBits = 4 + (if v < 10 then 8 else 16)
               in headerBits + byteLength * 8 \<le> dataCodewords v * 8)
       [MIN_VERSION..<MAX_VERSION + 1]"

definition push_bits :: "nat \<Rightarrow> nat \<Rightarrow> bool list" where
  "push_bits value width = map (bitAt value) (rev [0..<width])"

definition count_width :: "nat \<Rightarrow> nat" where
  "count_width version = (if version < 10 then 8 else 16)"

definition header_and_data :: "byte list \<Rightarrow> nat \<Rightarrow> bool list" where
  "header_and_data bytes version =
     push_bits 4 4 @ push_bits (length bytes) (count_width version) @ concat (map (\<lambda>b. push_bits (unat b) 8) bytes)"

fun codewords_of :: "bool list \<Rightarrow> byte list" where
  "codewords_of (a # b # c # d # e # f # g # h # bits) =
     foldl (\<lambda>byte x. push_bit 1 byte OR of_bool x) 0 [a, b, c, d, e, f, g, h] # codewords_of bits"
| "codewords_of _ = []"

primrec pad_codewords :: "nat \<Rightarrow> byte \<Rightarrow> byte list" where
  "pad_codewords 0 pad = []"
| "pad_codewords (Suc n) pad = pad # pad_codewords n (pad XOR (0xec XOR 0x11))"

definition payloadCodewords :: "byte list \<Rightarrow> nat \<Rightarrow> byte list" where
  "payloadCodewords bytes version =
     (let bits = header_and_data bytes version;
          capacity = dataCodewords version * 8;
          bits = bits @ push_bits 0 (min 4 (capacity - length bits));
          bits = bits @ push_bits 0 ((8 - length bits mod 8) mod 8);
          codewords = codewords_of bits
      in codewords @ pad_codewords (dataCodewords version - length codewords) 0xec)"

section \<open>Blocks\<close>

definition short_len :: "nat \<Rightarrow> nat" where
  "short_len version = rawCodewords version div BLOCKS_M ! (version - 1)"

definition short_blocks :: "nat \<Rightarrow> nat" where
  "short_blocks version = BLOCKS_M ! (version - 1) - rawCodewords version mod BLOCKS_M ! (version - 1)"

definition block_len :: "nat \<Rightarrow> nat \<Rightarrow> nat" where
  "block_len version i =
     short_len version - ECC_PER_BLOCK_M ! (version - 1) + (if i < short_blocks version then 0 else 1)"

text \<open>The blocks as the loop builds them, a placeholder after the data of each short one.\<close>

fun make_blocks :: "nat \<Rightarrow> nat list \<Rightarrow> byte list \<Rightarrow> byte list list" where
  "make_blocks version [] data = []"
| "make_blocks version (i # is) data =
     (let block = take (block_len version i) data;
          ecc = rsRemainder block (rsDivisor (ECC_PER_BLOCK_M ! (version - 1)))
      in (block @ (if i < short_blocks version then [0] else []) @ ecc)
         # make_blocks version is (drop (block_len version i) data))"

definition interleave :: "byte list \<Rightarrow> nat \<Rightarrow> byte list" where
  "interleave data version =
     (let blocks = make_blocks version [0..<BLOCKS_M ! (version - 1)] data;
          gap = short_len version - ECC_PER_BLOCK_M ! (version - 1)
      in concat (map (\<lambda>i. concat (map (\<lambda>j. if i \<noteq> gap \<or> short_blocks version \<le> j then [blocks ! j ! i] else [])
           [0..<length blocks])) [0..<length (blocks ! 0)]))"

section \<open>Facts about the tables\<close>

lemma version_cases:
  fixes v :: nat
  assumes "1 \<le> v" "v \<le> 10"
  obtains "v = 1" | "v = 2" | "v = 3" | "v = 4" | "v = 5" | "v = 6" | "v = 7" | "v = 8" | "v = 9" | "v = 10"
proof -
  have "v = 1 \<or> v = 2 \<or> v = 3 \<or> v = 4 \<or> v = 5 \<or> v = 6 \<or> v = 7 \<or> v = 8 \<or> v = 9 \<or> v = 10"
    using assms by arith
  then show thesis using that by blast
qed

lemmas table_defs = dataCodewords_def rawCodewords_def rawDataModules_def BLOCKS_M_def ECC_PER_BLOCK_M_def Let_def

lemma versionFor_eq:
  "versionFor n =
     (if n \<le> 14 then Some 1 else if n \<le> 26 then Some 2 else if n \<le> 42 then Some 3 else if n \<le> 62 then Some 4
      else if n \<le> 84 then Some 5 else if n \<le> 106 then Some 6 else if n \<le> 122 then Some 7
      else if n \<le> 152 then Some 8 else if n \<le> 180 then Some 9 else if n \<le> 213 then Some 10 else None)"
  by (simp add: versionFor_def MIN_VERSION_def MAX_VERSION_def upt_rec table_defs)

lemma versionFor_range: "versionFor n = Some v \<Longrightarrow> 1 \<le> v \<and> v \<le> 10"
  by (auto simp: versionFor_eq split: if_splits)

lemma versionFor_fits: "versionFor n = Some v \<Longrightarrow> 4 + count_width v + n * 8 \<le> dataCodewords v * 8"
  by (auto simp: versionFor_def find_Some_iff count_width_def Let_def split: if_splits)

lemma ecc_positive: "1 \<le> v \<Longrightarrow> v \<le> 10 \<Longrightarrow> 0 < ECC_PER_BLOCK_M ! (v - 1)"
  by (erule (1) version_cases) (simp_all add: ECC_PER_BLOCK_M_def)

lemma sum_block_lengths:
  fixes q :: nat
  shows "s \<le> B \<Longrightarrow> (\<Sum>i<B. q + (if i < s then 0 else 1)) = B * q + (B - s)"
proof (induction B)
  case (Suc B)
  show ?case
  proof (cases "s = Suc B")
    case True
    have "(\<Sum>i<Suc B. q + (if i < s then 0 else 1)) = (\<Sum>i<Suc B. q)"
      by (rule sum.cong) (use True in auto)
    with True show ?thesis by simp
  qed (use Suc in simp)
qed simp

lemma rawCodewords_values:
  "rawCodewords 1 = 26" "rawCodewords 2 = 44" "rawCodewords 3 = 70" "rawCodewords 4 = 100" "rawCodewords 5 = 134"
  "rawCodewords 6 = 172" "rawCodewords 7 = 196" "rawCodewords 8 = 242" "rawCodewords 9 = 292" "rawCodewords 10 = 346"
  by (simp_all add: rawCodewords_def rawDataModules_def Let_def)

lemma block_numbers:
  assumes "1 \<le> v" "v \<le> 10"
  shows ecc_fits: "ECC_PER_BLOCK_M ! (v - 1) \<le> short_len v"
    and short_blocks_pos: "0 < short_blocks v"
    and short_blocks_le: "short_blocks v \<le> BLOCKS_M ! (v - 1)"
    and blocks_pos: "0 < BLOCKS_M ! (v - 1)"
    and codewords_split: "dataCodewords v + BLOCKS_M ! (v - 1) * ECC_PER_BLOCK_M ! (v - 1) = rawCodewords v"
    and sum_block_len: "(\<Sum>i<BLOCKS_M ! (v - 1). block_len v i) = dataCodewords v"
proof -
  show "ECC_PER_BLOCK_M ! (v - 1) \<le> short_len v"
    by (rule version_cases [OF assms]) (simp_all add: short_len_def ECC_PER_BLOCK_M_def BLOCKS_M_def rawCodewords_values [unfolded One_nat_def])
  show "0 < short_blocks v"
    by (rule version_cases [OF assms]) (simp_all add: short_blocks_def BLOCKS_M_def)
  show le: "short_blocks v \<le> BLOCKS_M ! (v - 1)"
    by (simp add: short_blocks_def)
  show "0 < BLOCKS_M ! (v - 1)"
    by (rule version_cases [OF assms]) (simp_all add: BLOCKS_M_def)
  show "dataCodewords v + BLOCKS_M ! (v - 1) * ECC_PER_BLOCK_M ! (v - 1) = rawCodewords v"
    by (rule version_cases [OF assms])
      (simp_all add: dataCodewords_def ECC_PER_BLOCK_M_def BLOCKS_M_def rawCodewords_values [unfolded One_nat_def])
  show "(\<Sum>i<BLOCKS_M ! (v - 1). block_len v i) = dataCodewords v"
    unfolding block_len_def sum_block_lengths [OF le]
    by (rule version_cases [OF assms])
      (simp_all add: dataCodewords_def short_blocks_def short_len_def ECC_PER_BLOCK_M_def BLOCKS_M_def rawCodewords_values [unfolded One_nat_def])
qed

section \<open>Interleaving\<close>

text \<open>The data of the blocks and their error correction, with no placeholder.\<close>

fun data_blocks :: "nat \<Rightarrow> nat list \<Rightarrow> byte list \<Rightarrow> byte list list" where
  "data_blocks version [] data = []"
| "data_blocks version (i # is) data =
     take (block_len version i) data # data_blocks version is (drop (block_len version i) data)"

definition ecc_of :: "nat \<Rightarrow> byte list \<Rightarrow> byte list" where
  "ecc_of version block = rsRemainder block (rsDivisor (ECC_PER_BLOCK_M ! (version - 1)))"

lemma length_ecc_of: "1 \<le> v \<Longrightarrow> v \<le> 10 \<Longrightarrow> length (ecc_of v block) = ECC_PER_BLOCK_M ! (v - 1)"
  unfolding ecc_of_def by (rule length_rsRemainder [OF ecc_positive])

lemma length_data_blocks [simp]: "length (data_blocks v is data) = length is"
  by (induction v "is" data rule: data_blocks.induct) simp_all

lemma concat_data_blocks: "length data \<le> sum_list (map (block_len v) is) \<Longrightarrow> concat (data_blocks v is data) = data"
  by (induction v "is" data rule: data_blocks.induct) auto

lemma length_data_block:
  "sum_list (map (block_len v) is) \<le> length data \<Longrightarrow> j < length is \<Longrightarrow>
     length (data_blocks v is data ! j) = block_len v (is ! j)"
  by (induction v "is" data arbitrary: j rule: data_blocks.induct) (auto simp: nth_Cons split: nat.split)

lemma make_blocks_eq:
  "make_blocks v is data =
     map2 (\<lambda>i block. block @ (if i < short_blocks v then [0] else []) @ ecc_of v block) is (data_blocks v is data)"
  by (induction v "is" data rule: make_blocks.induct) (simp_all add: Let_def ecc_of_def)

lemma mset_concat_upt: "mset (concat (map f [0..<n])) = (\<Sum>i<n. mset (f i))"
  by (induction n) (simp_all add: add.commute)

lemma mset_nth_upt: "(\<Sum>i<length xs. {#xs ! i#}) = mset xs"
  by (induction xs rule: rev_induct) (simp_all add: nth_append)

lemma mset_skip_gap:
  "(\<Sum>i<length (xs @ [z] @ ys). if i \<noteq> length xs then {#(xs @ [z] @ ys) ! i#} else {#}) = mset xs + mset ys"
proof (induction ys rule: rev_induct)
  case Nil
  have "(\<Sum>i<length xs. if i \<noteq> length xs then {#(xs @ [z]) ! i#} else {#}) = (\<Sum>i<length xs. {#xs ! i#})"
    by (rule sum.cong) (auto simp: nth_append)
  then show ?case by (simp add: mset_nth_upt)
next
  case (snoc y ys)
  let ?zs = "xs @ [z] @ ys"
  have "(\<Sum>i<length ?zs. if i \<noteq> length xs then {#(?zs @ [y]) ! i#} else {#})
      = (\<Sum>i<length ?zs. if i \<noteq> length xs then {#?zs ! i#} else {#})"
    by (rule sum.cong) (auto simp: nth_append)
  then have "(\<Sum>i<Suc (length ?zs). if i \<noteq> length xs then {#(?zs @ [y]) ! i#} else {#})
      = mset xs + mset ys + {#y#}"
    unfolding sum.lessThan_Suc snoc nth_append_length by simp
  moreover have "xs @ [z] @ ys @ [y] = ?zs @ [y]" by simp
  ultimately show ?case by (simp only: length_append_singleton mset_append mset.simps add.assoc)
qed

lemma mset_interleave:
  assumes v: "1 \<le> v" "v \<le> 10" and len: "length data = dataCodewords v"
  defines "B \<equiv> BLOCKS_M ! (v - 1)"
  shows "mset (interleave data v) = mset data + (\<Sum>j<B. mset (ecc_of v (data_blocks v [0..<B] data ! j)))"
proof -
  let ?db = "data_blocks v [0..<B] data" and ?e = "ECC_PER_BLOCK_M ! (v - 1)" and ?s = "short_blocks v"
  let ?blocks = "make_blocks v [0..<B] data"
  let ?L = "Suc (short_len v)"
  have total: "sum_list (map (block_len v) [0..<B]) = length data"
    using sum_block_len [OF v] len by (simp add: B_def sum_list_sum_nth atLeast0LessThan)
  have db: "length (?db ! j) = block_len v j" if "j < B" for j
    using length_data_block [of v "[0..<B]" data j] total that by simp
  have blk: "?blocks ! j = ?db ! j @ (if j < ?s then [0] else []) @ ecc_of v (?db ! j)" if "j < B" for j
    using that by (simp add: make_blocks_eq)
  have lenL: "length (?blocks ! j) = ?L" if "j < B" for j
    using that ecc_fits [OF v] by (simp add: blk db block_len_def length_ecc_of [OF v])
  have nB: "length ?blocks = B" by (simp add: make_blocks_eq)
  have col: "(\<Sum>i<?L. mset (if i \<noteq> short_len v - ?e \<or> ?s \<le> j then [?blocks ! j ! i] else []))
      = mset (?db ! j) + mset (ecc_of v (?db ! j))" if j: "j < B" for j
  proof (cases "j < ?s")
    case True
    have gap: "length (?db ! j) = short_len v - ?e" using db [OF j] True by (simp add: block_len_def)
    have b: "?blocks ! j = ?db ! j @ [0] @ ecc_of v (?db ! j)" using blk [OF j] True by simp
    have L: "?L = length (?db ! j @ [0] @ ecc_of v (?db ! j))" using lenL [OF j] b by simp
    show ?thesis
      using mset_skip_gap [of "?db ! j" 0 "ecc_of v (?db ! j)"] True
      by (simp only: L b gap [symmetric]) (simp add: if_distrib [of mset] cong: if_cong)
  next
    case False
    have b: "?blocks ! j = ?db ! j @ ecc_of v (?db ! j)" using blk [OF j] False by simp
    have L: "?L = length (?db ! j @ ecc_of v (?db ! j))" using lenL [OF j] b by simp
    show ?thesis
      using mset_nth_upt [of "?db ! j @ ecc_of v (?db ! j)"] False by (simp only: L b) simp
  qed
  have "mset (interleave data v) =
      (\<Sum>i<?L. \<Sum>j<B. mset (if i \<noteq> short_len v - ?e \<or> ?s \<le> j then [?blocks ! j ! i] else []))"
    using lenL [of 0] blocks_pos [OF v]
    unfolding interleave_def Let_def B_def [symmetric] nB mset_concat_upt by (simp only:)
  also have "\<dots> = (\<Sum>j<B. \<Sum>i<?L. mset (if i \<noteq> short_len v - ?e \<or> ?s \<le> j then [?blocks ! j ! i] else []))"
    by (rule sum.swap)
  also have "\<dots> = (\<Sum>j<B. mset (?db ! j)) + (\<Sum>j<B. mset (ecc_of v (?db ! j)))"
    using col by (simp only: sum.distrib [symmetric]) (rule sum.cong, simp_all only: lessThan_iff)
  also have "(\<Sum>j<B. mset (?db ! j)) = mset (concat ?db)"
    using mset_concat_upt [of "\<lambda>j. ?db ! j" B] map_nth [of ?db] by simp
  also have "concat ?db = data"
    using total by (intro concat_data_blocks) simp
  finally show ?thesis .
qed

lemma length_interleave:
  assumes v: "1 \<le> v" "v \<le> 10" and len: "length data = dataCodewords v"
  shows "length (interleave data v) = rawCodewords v"
proof -
  have "size (mset (interleave data v)) = rawCodewords v"
    unfolding mset_interleave [OF assms]
    by (simp add: len length_ecc_of [OF v] flip: codewords_split [OF v])
  then show ?thesis by simp
qed

section \<open>The payload bits\<close>

lemma bitAt_bit: "bitAt value i = bit value i"
  by (simp add: bitAt_def bit_iff_odd_drop_bit and_one_eq odd_iff_mod_2_eq_one)

lemma length_push_bits [simp]: "length (push_bits value width) = width"
  by (simp add: push_bits_def)

definition value_of :: "bool list \<Rightarrow> nat" where
  "value_of bits = horner_sum of_bool 2 (rev bits)"

lemma value_of_push_bits: "value_of (push_bits n w) = take_bit w n"
  by (simp add: value_of_def push_bits_def rev_map bitAt_bit [abs_def] horner_sum_bit_eq_take_bit)

lemma codeword_foldl: "foldl (\<lambda>byte x. push_bit 1 byte OR of_bool x) 0 bits = (horner_sum of_bool 2 (rev bits) :: byte)"
proof (induction bits rule: rev_induct)
  case (snoc x bits)
  let ?h = "horner_sum of_bool 2 (rev bits) :: byte"
  have "push_bit 1 ?h OR of_bool x = of_bool x + 2 * ?h"
    by (subst disjunctive_add) (auto simp: bit_simps push_bit_eq_mult ac_simps)
  with snoc show ?case by simp
qed simp

text \<open>The bits of a list of codewords, as a reader sees them.\<close>

definition bits_of :: "byte list \<Rightarrow> bool list" where
  "bits_of cs = concat (map (\<lambda>b. push_bits (unat b) 8) cs)"

lemma push_bits_byte: "push_bits (unat (b :: byte)) 8 = map (bit b) (rev [0..<8])"
  by (simp add: push_bits_def bitAt_bit [abs_def] bit_unsigned_iff [abs_def])

lemma bits_of_codeword:
  "length bits = 8 \<Longrightarrow> push_bits (unat (foldl (\<lambda>byte x. push_bit 1 byte OR of_bool x) (0 :: byte) bits)) 8 = bits"
  unfolding codeword_foldl push_bits_byte
  by (rule nth_equalityI) (auto simp: rev_nth bit_horner_sum_bit_word_iff)

lemma bits_of_codewords_of: "8 dvd length bits \<Longrightarrow> bits_of (codewords_of bits) = bits"
proof (induction bits rule: codewords_of.induct)
  case (1 a b c d e f g h bits)
  then have "8 dvd length bits" by (simp add: numeral_eq_Suc dvd_def) presburger
  moreover have "push_bits (unat (foldl (\<lambda>byte x. push_bit 1 byte OR of_bool x) (0 :: byte) [a, b, c, d, e, f, g, h])) 8
      = [a, b, c, d, e, f, g, h]"
    by (rule bits_of_codeword) simp
  ultimately show ?case using 1(1) by (simp only: codewords_of.simps bits_of_def list.map concat.simps) simp
qed (auto simp: bits_of_def dest: dvd_imp_le)

lemma codewords_of_bits_of: "codewords_of (bits_of cs) = cs"
proof (induction cs)
  case (Cons c cs)
  obtain a b d e f g h i where bits: "push_bits (unat c) 8 = [a, b, d, e, f, g, h, i]"
    using length_push_bits [of "unat c" 8]
    by (auto simp: numeral_eq_Suc length_Suc_conv simp del: length_push_bits)
  have "foldl (\<lambda>byte x. push_bit 1 byte OR of_bool x) 0 (push_bits (unat c) 8) = c"
    unfolding codeword_foldl push_bits_byte
    by (simp add: rev_map horner_sum_bit_eq_take_bit take_bit_word_eq_self)
  with Cons bits show ?case
    by (simp add: bits_of_def del: foldl_Cons)
qed (simp add: bits_of_def)

lemma length_codewords_of: "length (codewords_of bits) = length bits div 8"
  by (induction bits rule: codewords_of.induct) simp_all

lemma length_bits_of [simp]: "length (bits_of cs) = 8 * length cs"
  by (induction cs) (simp_all add: bits_of_def)

lemma bits_of_append: "bits_of (xs @ ys) = bits_of xs @ bits_of ys"
  by (simp add: bits_of_def)

lemma length_pad [simp]: "length (pad_codewords n pad) = n"
  by (induction n arbitrary: pad) simp_all

lemma length_header: "length (header_and_data bytes v) = 4 + count_width v + 8 * length bytes"
  by (simp add: header_and_data_def flip: bits_of_def)

lemma round_up_to_8:
  fixes n cap :: nat
  assumes "n \<le> 8 * cap"
  shows "8 dvd n + (8 - n mod 8) mod 8" and "n + (8 - n mod 8) mod 8 \<le> 8 * cap"
proof -
  have "8 dvd n + (8 - n mod 8) mod 8 \<and> n + (8 - n mod 8) mod 8 \<le> 8 * cap"
  proof (cases "n mod 8 = 0")
    case False
    define q r where "q = n div 8" and "r = n mod 8"
    have n: "n = 8 * q + r" "r < 8" "0 < r" using False by (simp_all add: q_def r_def)
    then have "(8 - r) mod 8 = 8 - r" by simp
    then have up: "n + (8 - n mod 8) mod 8 = 8 * (q + 1)" unfolding r_def [symmetric] using n by simp
    have "q < cap" using n assms by simp
    then show ?thesis unfolding up by simp
  qed (use assms in auto)
  then show "8 dvd n + (8 - n mod 8) mod 8" "n + (8 - n mod 8) mod 8 \<le> 8 * cap" by auto
qed

lemma payload_layout:
  assumes "versionFor (length bytes) = Some v"
  shows "length (payloadCodewords bytes v) = dataCodewords v"
    and "\<exists>fill. bits_of (payloadCodewords bytes v) = header_and_data bytes v @ fill"
proof -
  let ?h = "header_and_data bytes v"
  let ?b1 = "?h @ push_bits 0 (min 4 (dataCodewords v * 8 - length ?h))"
  let ?b2 = "?b1 @ push_bits 0 ((8 - length ?b1 mod 8) mod 8)"
  have "length ?b1 \<le> 8 * dataCodewords v"
    using versionFor_fits [OF assms] by (simp add: length_header)
  note up = round_up_to_8 [OF this]
  have b2: "8 dvd length ?b2" "length ?b2 \<le> 8 * dataCodewords v"
    using up by (simp_all only: length_append length_push_bits)
  have pay: "payloadCodewords bytes v = codewords_of ?b2 @ pad_codewords (dataCodewords v - length (codewords_of ?b2)) 0xec"
    by (simp add: payloadCodewords_def Let_def)
  show "length (payloadCodewords bytes v) = dataCodewords v"
  proof -
    have "length (codewords_of ?b2) \<le> dataCodewords v"
      unfolding length_codewords_of using b2(2) by linarith
    then show ?thesis unfolding pay by (simp only: length_append length_pad le_add_diff_inverse)
  qed
  show "\<exists>fill. bits_of (payloadCodewords bytes v) = ?h @ fill"
    unfolding pay bits_of_append bits_of_codewords_of [OF b2(1)] by (simp only: append_assoc) blast
qed

text \<open>A reader of the payload: mode nibble, length, bytes.\<close>

definition read_payload :: "nat \<Rightarrow> byte list \<Rightarrow> byte list option" where
  "read_payload v cs =
     (let bits = bits_of cs
      in if take 4 bits = [False, True, False, False]
         then let n = value_of (take (count_width v) (drop 4 bits))
              in Some (codewords_of (take (8 * n) (drop (4 + count_width v) bits)))
         else None)"

lemma count_fits: "versionFor n = Some v \<Longrightarrow> take_bit (count_width v) n = n"
  by (auto simp: versionFor_eq count_width_def take_bit_nat_eq_self_iff split: if_splits)

lemma byte_mode_bits: "push_bits 4 4 = [False, True, False, False]"
  by (simp add: push_bits_def bitAt_bit upt_rec bit_0)

section \<open>Properties\<close>

text \<open>
  The payload reads back: for every input that fits, the codewords fill the chosen version exactly,
  and reading their mode, length and bytes gives the input.
\<close>

theorem qr_payload_round_trip:
  assumes "versionFor (length bytes) = Some v"
  shows "length (payloadCodewords bytes v) = dataCodewords v \<and> read_payload v (payloadCodewords bytes v) = Some bytes"
proof -
  obtain fill where fill: "bits_of (payloadCodewords bytes v) =
      push_bits 4 4 @ push_bits (length bytes) (count_width v) @ bits_of bytes @ fill"
    using payload_layout(2) [OF assms] by (auto simp: header_and_data_def bits_of_def)
  have "value_of (take (count_width v) (drop 4 (bits_of (payloadCodewords bytes v)))) = length bytes"
    by (simp add: fill value_of_push_bits count_fits [OF assms])
  moreover have "drop (4 + count_width v) (bits_of (payloadCodewords bytes v)) = bits_of bytes @ fill"
    by (simp add: fill)
  moreover have "take 4 (bits_of (payloadCodewords bytes v)) = [False, True, False, False]"
    by (simp add: fill byte_mode_bits)
  ultimately show ?thesis
    using payload_layout(1) [OF assms] by (simp add: read_payload_def Let_def codewords_of_bits_of)
qed

theorem qr_payload_round_trip_witness:
  "read_payload 2 (payloadCodewords (replicate 20 97) 2) = Some (replicate 20 97)"
  using qr_payload_round_trip [of "replicate 20 97" 2] by (simp add: versionFor_eq)

text \<open>
  The encoder never truncates: it picks the smallest of the ten versions whose level-M capacity holds
  the mode, the length and the bytes, and it refuses exactly the inputs of more than 213 bytes.
\<close>

theorem qr_version_choice:
  "case versionFor n of
     None \<Rightarrow> 213 < n
   | Some v \<Rightarrow> n \<le> 213 \<and> 1 \<le> v \<and> v \<le> 10 \<and> 4 + count_width v + 8 * n \<le> 8 * dataCodewords v
       \<and> list_all (\<lambda>w. 8 * dataCodewords w < 4 + count_width w + 8 * n) [1..<v]"
proof (cases "versionFor n")
  case None
  then show ?thesis by (simp add: versionFor_eq split: if_splits)
next
  case (Some v)
  have "8 * dataCodewords w < 4 + count_width w + 8 * n" if w: "w \<in> {1..<v}" for w
  proof -
    obtain i where "v = Suc i" "\<forall>j<i. \<not> 4 + count_width (Suc j) + n * 8 \<le> dataCodewords (Suc j) * 8"
      using Some by (auto simp: versionFor_def find_Some_iff MIN_VERSION_def MAX_VERSION_def count_width_def Let_def
          simp del: upt_Suc)
    with w show ?thesis by (auto dest: spec [of _ "w - 1"])
  qed
  moreover have "n \<le> 213" using Some by (auto simp: versionFor_eq split: if_splits)
  ultimately show ?thesis
    using Some versionFor_range [OF Some] versionFor_fits [OF Some] by (simp add: list_all_iff)
qed

text \<open>
  Interleaving loses nothing: for a full payload of any supported version the result is a
  rearrangement of the data codewords and of the Reed-Solomon codewords of its blocks, exactly as many
  as the version has room for.
\<close>

theorem qr_interleave_rearranges:
  assumes "1 \<le> v" "v \<le> 10" and "length data = dataCodewords v"
  shows "mset (interleave data v) = mset data
           + (\<Sum>j<BLOCKS_M ! (v - 1). mset (ecc_of v (data_blocks v [0..<BLOCKS_M ! (v - 1)] data ! j)))
       \<and> length (interleave data v) = rawCodewords v
       \<and> concat (data_blocks v [0..<BLOCKS_M ! (v - 1)] data) = data"
proof -
  have "sum_list (map (block_len v) [0..<BLOCKS_M ! (v - 1)]) = length data"
    using sum_block_len [OF assms(1,2)] assms(3) by (simp add: sum_list_sum_nth atLeast0LessThan)
  then show ?thesis
    using mset_interleave [OF assms] length_interleave [OF assms] by (simp add: concat_data_blocks)
qed

theorem qr_interleave_rearranges_witness:
  "length (interleave (replicate 16 7) 1) = 26"
proof -
  have "length (replicate 16 (7 :: byte)) = dataCodewords 1"
    by (simp add: table_defs)
  from qr_interleave_rearranges [OF _ _ this] show ?thesis
    by (simp add: rawCodewords_values [unfolded One_nat_def])
qed

end
