(* ===== verification/Qr_Matrix.thy ===== *)
theory Qr_Matrix
  imports Qr_Encode
begin

text \<open>
  The matrix half of \<open>lib/qr.ts\<close>: the function patterns, the placement of the data bits, the eight
  masks, the penalty score and the choice of the mask. A matrix is a function of row and column; the
  setter of the source ignores coordinates outside it, and nothing else is ever read outside it.
\<close>

unbundle bit_operations_syntax

type_synonym matrix = "int \<Rightarrow> int \<Rightarrow> bool"

record canvas =
  side :: int
  modules :: matrix
  reserved :: matrix

section \<open>Function patterns\<close>

definition inside :: "int \<Rightarrow> int \<Rightarrow> int \<Rightarrow> bool" where
  "inside sz row col \<longleftrightarrow> 0 \<le> row \<and> row < sz \<and> 0 \<le> col \<and> col < sz"

definition set_module :: "canvas \<Rightarrow> (int \<times> int) \<times> bool \<Rightarrow> canvas" where
  "set_module c cell =
     (case cell of ((row, col), dark) \<Rightarrow>
        if row < 0 \<or> side c \<le> row \<or> col < 0 \<or> side c \<le> col then c
        else c\<lparr>modules := (modules c)(row := (modules c row)(col := dark)),
               reserved := (reserved c)(row := (reserved c row)(col := True))\<rparr>)"

definition draw :: "((int \<times> int) \<times> bool) list \<Rightarrow> canvas \<Rightarrow> canvas" where
  "draw cells c = foldl set_module c cells"

definition timing_cells :: "int \<Rightarrow> ((int \<times> int) \<times> bool) list" where
  "timing_cells sz = concat (map (\<lambda>i. [((6, i), i mod 2 = 0), ((i, 6), i mod 2 = 0)]) [0..sz - 1])"

definition chebyshev :: "int \<Rightarrow> int \<Rightarrow> int" where
  "chebyshev dr dc = max \<bar>dr\<bar> \<bar>dc\<bar>"

definition finder_cells :: "int \<Rightarrow> ((int \<times> int) \<times> bool) list" where
  "finder_cells sz =
     concat (map (\<lambda>(cr, cc).
       concat (map (\<lambda>dr.
         map (\<lambda>dc. ((cr + dr, cc + dc), chebyshev dr dc \<noteq> 2 \<and> chebyshev dr dc \<noteq> 4)) [-4..4]) [-4..4]))
       [(3, 3), (3, sz - 4), (sz - 4, 3)])"

definition alignment_cells :: "nat \<Rightarrow> int \<Rightarrow> ((int \<times> int) \<times> bool) list" where
  "alignment_cells version sz =
     (let centres = alignmentCentres version sz; n = length centres
      in concat (map (\<lambda>i. concat (map (\<lambda>j.
           if i = 0 \<and> j = 0 \<or> i = 0 \<and> j = n - 1 \<or> i = n - 1 \<and> j = 0 then []
           else concat (map (\<lambda>dr. map (\<lambda>dc. ((centres ! i + dr, centres ! j + dc), chebyshev dr dc \<noteq> 1)) [-2..2]) [-2..2]))
           [0..<n])) [0..<n]))"

definition format_cells :: "int \<Rightarrow> nat \<Rightarrow> ((int \<times> int) \<times> bool) list" where
  "format_cells sz msk =
     (let bits = formatBits msk
      in map (\<lambda>i. ((int i, 8), bitAt bits i)) [0..<6]
         @ [((7, 8), bitAt bits 6), ((8, 8), bitAt bits 7), ((8, 7), bitAt bits 8)]
         @ map (\<lambda>i. ((8, 14 - int i), bitAt bits i)) [9..<15]
         @ map (\<lambda>i. ((8, sz - 1 - int i), bitAt bits i)) [0..<8]
         @ map (\<lambda>i. ((sz - 15 + int i, 8), bitAt bits i)) [8..<15]
         @ [((sz - 8, 8), True)])"

definition drawFormat :: "nat \<Rightarrow> canvas \<Rightarrow> canvas" where
  "drawFormat msk c = draw (format_cells (side c) msk) c"

definition version_cells :: "int \<Rightarrow> nat \<Rightarrow> ((int \<times> int) \<times> bool) list" where
  "version_cells sz version =
     concat (map (\<lambda>i. let dark = bitAt (versionBits version) i; a = sz - 11 + int (i mod 3); b = int (i div 3)
                      in [((b, a), dark), ((a, b), dark)]) [0..<18])"

definition drawVersion :: "nat \<Rightarrow> canvas \<Rightarrow> canvas" where
  "drawVersion version c = draw (version_cells (side c) version) c"

section \<open>Data bits\<close>

text \<open>The two-module columns from right to left, stepping over column 6.\<close>

function right_columns :: "int \<Rightarrow> int list" where
  "right_columns right =
     (if right < 1 then []
      else let right = (if right = 6 then 5 else right) in right # right_columns (right - 2))"
  by auto
termination
  by (relation "measure nat") auto

declare right_columns.simps [simp del]

definition zigzag :: "int \<Rightarrow> (int \<times> int) list" where
  "zigzag sz =
     concat (map (\<lambda>right. concat (map (\<lambda>vert. map (\<lambda>j.
       let upward = ((right + 1) AND 2 = 0); row = (if upward then sz - 1 - vert else vert) in (row, right - j))
         [0, 1]) [0..sz - 1])) (right_columns (sz - 1)))"

definition place_bit :: "matrix \<Rightarrow> byte list \<Rightarrow> matrix \<times> nat \<Rightarrow> int \<times> int \<Rightarrow> matrix \<times> nat" where
  "place_bit res codewords st cell =
     (case (st, cell) of ((m, b), (row, col)) \<Rightarrow>
        if res row col \<or> length codewords * 8 \<le> b then (m, b)
        else (m(row := (m row)(col := bitAt (unat (codewords ! (b div 8))) (7 - b mod 8))), b + 1))"

definition place_data :: "byte list \<Rightarrow> canvas \<Rightarrow> canvas" where
  "place_data codewords c =
     c\<lparr>modules := fst (foldl (place_bit (reserved c) codewords) (modules c, 0) (zigzag (side c)))\<rparr>"

section \<open>Masks and penalties\<close>

definition maskAt :: "nat \<Rightarrow> int \<Rightarrow> int \<Rightarrow> bool" where
  "maskAt msk row col =
     (if msk = 0 then (row + col) mod 2 = 0
      else if msk = 1 then row mod 2 = 0
      else if msk = 2 then col mod 3 = 0
      else if msk = 3 then (row + col) mod 3 = 0
      else if msk = 4 then (col div 3 + row div 2) mod 2 = 0
      else if msk = 5 then (row * col) mod 2 + (row * col) mod 3 = 0
      else if msk = 6 then ((row * col) mod 2 + (row * col) mod 3) mod 2 = 0
      else ((row + col) mod 2 + (row * col) mod 3) mod 2 = 0)"

definition applyMask :: "nat \<Rightarrow> canvas \<Rightarrow> canvas" where
  "applyMask msk c =
     c\<lparr>modules := (\<lambda>row col. if inside (side c) row col \<and> \<not> reserved c row col \<and> maskAt msk row col
                            then \<not> modules c row col else modules c row col)\<rparr>"

definition PENALTY_N1 :: int where "PENALTY_N1 = 3"
definition PENALTY_N2 :: int where "PENALTY_N2 = 3"
definition PENALTY_N3 :: int where "PENALTY_N3 = 40"
definition PENALTY_N4 :: int where "PENALTY_N4 = 10"

definition addRun :: "int list \<Rightarrow> int \<Rightarrow> int \<Rightarrow> int list" where
  "addRun history runLength sz =
     (let runLength = (if history ! 0 = 0 then runLength + sz else runLength)
      in runLength # butlast history)"

definition countFinderLike :: "int list \<Rightarrow> int" where
  "countFinderLike h =
     (let n = h ! 1;
          core = 0 < n \<and> h ! 2 = n \<and> h ! 3 = n * 3 \<and> h ! 4 = n \<and> h ! 5 = n
      in (if core \<and> n * 4 \<le> h ! 0 \<and> n \<le> h ! 6 then 1 else 0)
         + (if core \<and> n * 4 \<le> h ! 6 \<and> n \<le> h ! 0 then 1 else 0))"

definition terminateRun :: "int list \<Rightarrow> bool \<Rightarrow> int \<Rightarrow> int \<Rightarrow> int" where
  "terminateRun history runColour runLength sz =
     (let (history, runLength) = (if runColour then (addRun history runLength sz, 0) else (history, runLength))
      in countFinderLike (addRun history (runLength + sz) sz))"

record line_state =
  ls_colour :: bool
  ls_run :: int
  ls_history :: "int list"
  ls_score :: int

definition line_step :: "int \<Rightarrow> line_state \<Rightarrow> bool \<Rightarrow> line_state" where
  "line_step sz s dark =
     (if dark = ls_colour s
      then let run = ls_run s + 1
           in s\<lparr>ls_run := run,
                ls_score := (if run = 5 then ls_score s + PENALTY_N1 else if 5 < run then ls_score s + 1 else ls_score s)\<rparr>
      else let history = addRun (ls_history s) (ls_run s) sz
           in \<lparr>ls_colour = dark, ls_run = 1, ls_history = history,
               ls_score = (if \<not> ls_colour s then ls_score s + countFinderLike history * PENALTY_N3 else ls_score s)\<rparr>)"

definition line_penalty :: "int \<Rightarrow> bool list \<Rightarrow> int" where
  "line_penalty sz line =
     (let s = foldl (line_step sz) \<lparr>ls_colour = False, ls_run = 0, ls_history = replicate 7 0, ls_score = 0\<rparr> line
      in ls_score s + terminateRun (ls_history s) (ls_colour s) (ls_run s) sz * PENALTY_N3)"

definition penaltyScore :: "matrix \<Rightarrow> int \<Rightarrow> int" where
  "penaltyScore m sz =
     (let idx = [0..sz - 1];
          rows = sum_list (map (\<lambda>a. line_penalty sz (map (\<lambda>b. m a b) idx)) idx);
          cols = sum_list (map (\<lambda>a. line_penalty sz (map (\<lambda>b. m b a) idx)) idx);
          blocks = sum_list (map (\<lambda>row. sum_list (map (\<lambda>col.
            if m row col = m row (col + 1) \<and> m row col = m (row + 1) col \<and> m row col = m (row + 1) (col + 1)
            then PENALTY_N2 else 0) [0..sz - 2])) [0..sz - 2]);
          dark = sum_list (map (\<lambda>row. int (length (filter (m row) idx))) idx);
          total = sz * sz
      in rows + cols + blocks + (- (- \<bar>dark * 20 - total * 10\<bar> div total) - 1) * PENALTY_N4)"

section \<open>The encoder\<close>

text \<open>The mask loop: the canvas, the best mask so far and its penalty (\<^const>\<open>None\<close> is \<open>Infinity\<close>).\<close>

definition try_mask :: "canvas \<times> nat \<times> int option \<Rightarrow> nat \<Rightarrow> canvas \<times> nat \<times> int option" where
  "try_mask st msk =
     (case st of (c, best, bestPenalty) \<Rightarrow>
        let c1 = drawFormat msk (applyMask msk c);
            penalty = penaltyScore (modules c1) (side c1);
            better = (case bestPenalty of None \<Rightarrow> True | Some p \<Rightarrow> penalty < p)
        in (applyMask msk c1, if better then msk else best, if better then Some penalty else bestPenalty))"

definition function_patterns :: "nat \<Rightarrow> canvas" where
  "function_patterns version =
     (let sz = int version * 4 + 17;
          c = \<lparr>side = sz, modules = (\<lambda>_ _. False), reserved = (\<lambda>_ _. False)\<rparr>;
          c = draw (timing_cells sz) c;
          c = draw (finder_cells sz) c;
          c = draw (alignment_cells version sz) c;
          c = drawFormat 0 c
      in if 7 \<le> version then drawVersion version c else c)"

record QrCode =
  qr_size :: int
  qr_version :: nat
  qr_modules :: matrix

definition encode_bytes :: "byte list \<Rightarrow> QrCode option" where
  "encode_bytes bytes =
     (case versionFor (length bytes) of
        None \<Rightarrow> None
      | Some version \<Rightarrow>
          let c = place_data (interleave (payloadCodewords bytes version) version) (function_patterns version);
              (c, best, _) = foldl try_mask (c, 0, None) [0..<8];
              c = drawFormat best (applyMask best c)
          in Some \<lparr>qr_size = side c, qr_version = version, qr_modules = modules c\<rparr>)"

text \<open>\<^const>\<open>None\<close> is the thrown \<open>QrTooLongError\<close>.\<close>

definition encodeQr :: "string \<Rightarrow> QrCode option" where
  "encodeQr text = encode_bytes (utf8 text)"

section \<open>Drawing\<close>

lemma side_set_module [simp]: "side (set_module c cell) = side c"
  by (simp add: set_module_def split: prod.split)

lemma side_draw [simp]: "side (draw cells c) = side c"
  unfolding draw_def by (induction cells arbitrary: c) simp_all

lemma draw_snoc: "draw (cells @ [cell]) c = set_module (draw cells c) cell"
  by (simp add: draw_def)

lemma modules_draw:
  "modules (draw cells c) r k =
     (if inside (side c) r k then (case map_of (rev cells) (r, k) of Some d \<Rightarrow> d | None \<Rightarrow> modules c r k) else modules c r k)"
proof (induction cells rule: rev_induct)
  case (snoc cell cells)
  obtain row col dark where "cell = ((row, col), dark)" by (metis prod.exhaust)
  with snoc show ?case
    by (auto simp: draw_snoc set_module_def inside_def)
qed (simp add: draw_def)

lemma reserved_draw:
  "reserved (draw cells c) r k \<longleftrightarrow> reserved c r k \<or> inside (side c) r k \<and> (r, k) \<in> fst ` set cells"
proof (induction cells rule: rev_induct)
  case (snoc cell cells)
  obtain row col dark where "cell = ((row, col), dark)" by (metis prod.exhaust)
  with snoc show ?case
    by (auto simp: draw_snoc set_module_def inside_def)
qed (simp add: draw_def)

lemma format_cells_coords: "fst ` set (format_cells sz a) = fst ` set (format_cells sz b)"
  by (simp add: format_cells_def Let_def image_Un image_image)

lemma format_lookup_None: "map_of (rev (format_cells sz a)) rk = None \<longleftrightarrow> rk \<notin> fst ` set (format_cells sz 0)"
  using format_cells_coords [of sz a 0] by (simp add: map_of_eq_None_iff)

definition format_reserved :: "canvas \<Rightarrow> bool" where
  "format_reserved c \<longleftrightarrow>
     (\<forall>(r, k)\<in>fst ` set (format_cells (side c) 0). inside (side c) r k \<longrightarrow> reserved c r k)"

lemma side_drawFormat [simp]: "side (drawFormat m c) = side c"
  by (simp add: drawFormat_def)

lemma side_applyMask [simp]: "side (applyMask m c) = side c"
  and reserved_applyMask [simp]: "reserved (applyMask m c) = reserved c"
  by (simp_all add: applyMask_def)

lemma reserved_drawFormat: "format_reserved c \<Longrightarrow> reserved (drawFormat m c) = reserved c"
  by (auto simp: drawFormat_def fun_eq_iff reserved_draw format_reserved_def format_cells_coords [of _ m 0])

lemma canvas_eqI: "side a = side b \<Longrightarrow> modules a = modules b \<Longrightarrow> reserved a = reserved b \<Longrightarrow> a = (b :: canvas)"
  by simp

lemma format_reserved_cong: "side a = side b \<Longrightarrow> reserved a = reserved b \<Longrightarrow> format_reserved a = format_reserved b"
  by (simp add: format_reserved_def)

lemma drawFormat_overwrites:
  assumes "format_reserved c"
  shows "drawFormat a (drawFormat b c) = drawFormat a c"
proof (rule canvas_eqI)
  have "format_reserved (drawFormat b c)"
    using assms format_reserved_cong [of "drawFormat b c" c] reserved_drawFormat [OF assms] by simp
  then show "reserved (drawFormat a (drawFormat b c)) = reserved (drawFormat a c)"
    using assms by (simp add: reserved_drawFormat)
  show "modules (drawFormat a (drawFormat b c)) = modules (drawFormat a c)"
  proof (intro ext)
    fix r k
    have "map_of (rev (format_cells (side c) a)) (r, k) = None \<longleftrightarrow> map_of (rev (format_cells (side c) b)) (r, k) = None"
      by (simp only: format_lookup_None)
    then show "modules (drawFormat a (drawFormat b c)) r k = modules (drawFormat a c) r k"
      by (cases "map_of (rev (format_cells (side c) a)) (r, k)") (simp_all add: drawFormat_def modules_draw)
  qed
qed simp

lemma applyMask_involution: "applyMask m (applyMask m c) = c"
  by (rule canvas_eqI) (auto simp: applyMask_def fun_eq_iff)

lemma applyMask_drawFormat:
  assumes "format_reserved c"
  shows "applyMask m (drawFormat f c) = drawFormat f (applyMask m c)"
proof (rule canvas_eqI)
  have res: "format_reserved (applyMask m c)"
    using assms format_reserved_cong [of "applyMask m c" c] by simp
  show "reserved (applyMask m (drawFormat f c)) = reserved (drawFormat f (applyMask m c))"
    using assms res by (simp add: reserved_drawFormat)
  have "reserved c r k" if "map_of (rev (format_cells (side c) f)) (r, k) \<noteq> None" "inside (side c) r k" for r k
    using assms that by (auto simp: format_reserved_def format_lookup_None simp del: not_None_eq)
  then show "modules (applyMask m (drawFormat f c)) = modules (drawFormat f (applyMask m c))"
    using reserved_drawFormat [OF assms]
    by (auto simp: fun_eq_iff applyMask_def drawFormat_def modules_draw split: option.split)
qed simp

section \<open>The mask loop\<close>

definition masked :: "canvas \<Rightarrow> nat \<Rightarrow> canvas" where
  "masked c m = drawFormat m (applyMask m c)"

definition mask_penalty :: "canvas \<Rightarrow> nat \<Rightarrow> int" where
  "mask_penalty c m = penaltyScore (modules (masked c m)) (side c)"

lemma side_masked [simp]: "side (masked c m) = side c"
  by (simp add: masked_def)

lemma format_reserved_applyMask: "format_reserved c \<Longrightarrow> format_reserved (applyMask m c)"
  using format_reserved_cong [of "applyMask m c" c] by simp

lemma masked_drawFormat: "format_reserved c \<Longrightarrow> masked (drawFormat f c) m = masked c m"
  by (simp add: masked_def applyMask_drawFormat drawFormat_overwrites format_reserved_applyMask)

lemma unmask_masked: "format_reserved c \<Longrightarrow> applyMask m (masked c m) = drawFormat m c"
  by (simp add: masked_def applyMask_drawFormat format_reserved_applyMask applyMask_involution)

lemma try_mask_eq:
  "try_mask (c, best, p) m =
     (applyMask m (masked c m),
      if (case p of None \<Rightarrow> True | Some q \<Rightarrow> mask_penalty c m < q) then m else best,
      if (case p of None \<Rightarrow> True | Some q \<Rightarrow> mask_penalty c m < q) then Some (mask_penalty c m) else p)"
  by (cases p) (simp_all add: try_mask_def Let_def mask_penalty_def flip: masked_def)

lemma mask_loop:
  assumes fr: "format_reserved c"
  shows "\<exists>best. foldl try_mask (c, 0, None) [0..<Suc n] = (drawFormat n c, best, Some (mask_penalty c best))
           \<and> best \<le> n \<and> (\<forall>m\<le>n. mask_penalty c best \<le> mask_penalty c m)"
proof (induction n)
  case 0
  show ?case by (simp add: try_mask_eq unmask_masked [OF fr])
next
  case (Suc n)
  then obtain best where best: "foldl try_mask (c, 0, None) [0..<Suc n] = (drawFormat n c, best, Some (mask_penalty c best))"
      "best \<le> n" "\<forall>m\<le>n. mask_penalty c best \<le> mask_penalty c m" by blast
  have pen: "mask_penalty (drawFormat n c) m = mask_penalty c m" for m
    by (simp add: mask_penalty_def masked_drawFormat [OF fr])
  have "foldl try_mask (c, 0, None) [0..<Suc (Suc n)] = try_mask (drawFormat n c, best, Some (mask_penalty c best)) (Suc n)"
    using best(1) by simp
  also have "\<dots> = (drawFormat (Suc n) c,
      (if mask_penalty c (Suc n) < mask_penalty c best then Suc n else best),
      Some (mask_penalty c (if mask_penalty c (Suc n) < mask_penalty c best then Suc n else best)))"
    by (simp add: try_mask_eq pen masked_drawFormat [OF fr] unmask_masked [OF fr])
  finally show ?case
    using best(2,3) by (auto simp: le_Suc_eq)
qed

section \<open>Reading the data back\<close>

lemma nth_bits_of: "b < 8 * length cs \<Longrightarrow> bits_of cs ! b = bitAt (unat (cs ! (b div 8))) (7 - b mod 8)"
proof (induction cs arbitrary: b)
  case (Cons c cs)
  show ?case
  proof (cases "b < 8")
    case True
    then show ?thesis by (simp add: bits_of_def nth_append push_bits_def rev_nth)
  next
    case False
    then have "bits_of (c # cs) ! b = bits_of cs ! (b - 8)"
      by (simp add: bits_of_def nth_append)
    also have "\<dots> = bitAt (unat (cs ! ((b - 8) div 8))) (7 - (b - 8) mod 8)"
      using Cons False by simp
    finally have "bits_of (c # cs) ! b = bitAt (unat (cs ! ((b - 8) div 8))) (7 - (b - 8) mod 8)" .
    moreover have "(b - 8) mod 8 = b mod 8" "(b - 8) div 8 = b div 8 - 1" "b div 8 \<noteq> 0"
      using False by (simp_all add: le_mod_geq le_div_geq)
    ultimately show ?thesis by (simp add: nth_Cons')
  qed
qed simp

lemma place_fold:
  "distinct zs \<Longrightarrow>
     fst (foldl (place_bit res cws) (m, b) zs) =
       (\<lambda>r k. case map_of (zip (filter (\<lambda>(r, k). \<not> res r k) zs) (drop b (bits_of cws))) (r, k) of
                Some d \<Rightarrow> d | None \<Rightarrow> m r k)"
proof (induction zs arbitrary: m b)
  case (Cons z zs)
  obtain r k where z: "z = (r, k)" by force
  show ?case
  proof (cases "res r k \<or> length cws * 8 \<le> b")
    case True
    then show ?thesis using Cons by (auto simp: place_bit_def z)
  next
    case False
    then have bits: "drop b (bits_of cws) = bitAt (unat (cws ! (b div 8))) (7 - b mod 8) # drop (Suc b) (bits_of cws)"
      using nth_bits_of [of b cws] by (subst Cons_nth_drop_Suc [symmetric]) simp_all
    have none: "map_of (zip (filter (\<lambda>(r, k). \<not> res r k) zs) ds) (r, k) = None" for ds :: "bool list"
      using Cons.prems by (auto simp: map_of_eq_None_iff z dest: set_zip_leftD)
    show ?thesis
      using Cons False none by (auto simp: place_bit_def z bits fun_eq_iff split: option.split)
  qed
qed simp

lemma distinct_concat_map:
  assumes "distinct xs" "\<And>x. x \<in> set xs \<Longrightarrow> distinct (f x)"
    and "\<And>x y. x \<in> set xs \<Longrightarrow> y \<in> set xs \<Longrightarrow> x \<noteq> y \<Longrightarrow> set (f x) \<inter> set (f y) = {}"
  shows "distinct (concat (map f xs))"
  using assms by (induction xs) fastforce+

lemma right_columns_bounds: "x \<in> set (right_columns n) \<Longrightarrow> 1 \<le> x \<and> x \<le> n"
proof (induction n rule: right_columns.induct)
  case (1 right)
  then show ?case
    by (subst (asm) right_columns.simps) (auto simp: Let_def split: if_splits)
qed

lemma right_columns_gaps: "sorted_wrt (\<lambda>a b. b + 2 \<le> a) (right_columns n)"
proof (induction n rule: right_columns.induct)
  case (1 right)
  then show ?case
    by (subst right_columns.simps) (auto simp: Let_def dest!: right_columns_bounds)
qed

lemma sorted_wrt_apart: "sorted_wrt P xs \<Longrightarrow> x \<in> set xs \<Longrightarrow> y \<in> set xs \<Longrightarrow> x \<noteq> y \<Longrightarrow> P x y \<or> P y x"
  by (induction xs) auto

lemma right_columns_apart:
  "x \<in> set (right_columns n) \<Longrightarrow> y \<in> set (right_columns n) \<Longrightarrow> x \<noteq> y \<Longrightarrow> y + 2 \<le> x \<or> x + 2 \<le> y"
  using sorted_wrt_apart [OF right_columns_gaps] .

lemma distinct_right_columns: "distinct (right_columns n)"
proof -
  have "sorted_wrt (\<lambda>a b. b + 2 \<le> a) xs \<Longrightarrow> distinct xs" for xs :: "int list"
    by (induction xs) auto
  then show ?thesis using right_columns_gaps by blast
qed

lemma map_of_zip_at: "distinct xs \<Longrightarrow> i < length xs \<Longrightarrow> i < length ys \<Longrightarrow> map_of (zip xs ys) (xs ! i) = Some (ys ! i)"
proof (induction xs arbitrary: ys i)
  case (Cons x xs)
  then show ?case by (cases ys; cases i) auto
qed simp

lemma distinct_zigzag: "distinct (zigzag sz)"
  unfolding zigzag_def
proof (rule distinct_concat_map [OF distinct_right_columns])
  fix x y :: int assume "x \<in> set (right_columns (sz - 1))" "y \<in> set (right_columns (sz - 1))" "x \<noteq> y"
  then show "set (concat (map (\<lambda>vert. map (\<lambda>j. let upward = (x + 1) AND 2 = 0; row = if upward then sz - 1 - vert else vert in (row, x - j)) [0, 1]) [0..sz - 1]))
      \<inter> set (concat (map (\<lambda>vert. map (\<lambda>j. let upward = (y + 1) AND 2 = 0; row = if upward then sz - 1 - vert else vert in (row, y - j)) [0, 1]) [0..sz - 1])) = {}"
    using right_columns_apart by (fastforce simp: Let_def)
qed (rule distinct_concat_map, auto simp: Let_def)

lemma zigzag_inside: "(r, k) \<in> set (zigzag sz) \<Longrightarrow> inside sz r k"
  by (auto simp: zigzag_def inside_def Let_def dest!: right_columns_bounds split: if_splits)

lemma reserved_place_data [simp]: "reserved (place_data cws c) = reserved c"
  and side_place_data [simp]: "side (place_data cws c) = side c"
  by (simp_all add: place_data_def)

lemma placed_bits:
  assumes "i < length (bits_of cws)" "i < length free"
    and free: "free = filter (\<lambda>(r, k). \<not> reserved c r k) (zigzag (side c))"
  shows "(case free ! i of (r, k) \<Rightarrow> modules (place_data cws c) r k) = bits_of cws ! i"
proof -
  obtain r k where rk: "free ! i = (r, k)" by force
  have "map_of (zip free (bits_of cws)) (r, k) = Some (bits_of cws ! i)"
    using map_of_zip_at [of free i "bits_of cws"] assms(1,2) distinct_zigzag [of "side c"] rk by (simp add: free)
  then show ?thesis
    using rk by (simp add: place_data_def place_fold [OF distinct_zigzag] flip: free)
qed

section \<open>The whole code\<close>

lemma side_function_patterns: "side (function_patterns v) = int v * 4 + 17"
  by (simp add: function_patterns_def Let_def drawVersion_def)

lemma format_reserved_function_patterns: "format_reserved (function_patterns v)"
proof -
  have "reserved (function_patterns v) r k"
    if "(r, k) \<in> fst ` set (format_cells (int v * 4 + 17) 0)" "inside (int v * 4 + 17) r k" for r k
    using that by (simp add: function_patterns_def Let_def drawVersion_def drawFormat_def reserved_draw)
  then show ?thesis
    unfolding format_reserved_def side_function_patterns by blast
qed

lemma masked_free:
  assumes "format_reserved c" "inside (side c) r k" "\<not> reserved c r k"
  shows "modules (masked c m) r k = (modules c r k \<noteq> maskAt m r k)"
proof -
  have "map_of (rev (format_cells (side c) m)) (r, k) = None"
    using assms by (auto simp: format_reserved_def format_lookup_None)
  then show ?thesis
    using assms by (simp add: masked_def drawFormat_def modules_draw applyMask_def)
qed

lemma distinct_format_cells: "21 \<le> sz \<Longrightarrow> distinct (map fst (format_cells sz m))"
  by (simp add: format_cells_def Let_def upt_rec)

lemma format_cells_inside: "21 \<le> sz \<Longrightarrow> ((r, k), d) \<in> set (format_cells sz m) \<Longrightarrow> inside sz r k"
  by (auto simp: format_cells_def Let_def inside_def)

lemma masked_format:
  assumes "21 \<le> side c" "((r, k), d) \<in> set (format_cells (side c) m)"
  shows "modules (masked c m) r k = d"
proof -
  have "map_of (rev (format_cells (side c) m)) (r, k) = Some d"
    using assms distinct_format_cells [OF assms(1), of m] by (subst map_of_eq_Some_iff) (simp_all add: rev_map [symmetric])
  then show ?thesis
    using format_cells_inside [OF assms] by (simp add: masked_def drawFormat_def modules_draw)
qed

definition free_cells :: "nat \<Rightarrow> (int \<times> int) list" where
  "free_cells v = filter (\<lambda>(r, k). \<not> reserved (function_patterns v) r k) (zigzag (int v * 4 + 17))"

lemma encode_bytes_masked:
  assumes "encode_bytes bytes = Some q"
  obtains v msk c where "versionFor (length bytes) = Some v"
    "c = place_data (interleave (payloadCodewords bytes v) v) (function_patterns v)"
    "q = \<lparr>qr_size = int v * 4 + 17, qr_version = v, qr_modules = modules (masked c msk)\<rparr>"
    "msk < 8" "\<forall>m<8. mask_penalty c msk \<le> mask_penalty c m"
proof -
  obtain v where v: "versionFor (length bytes) = Some v"
    using assms by (auto simp: encode_bytes_def split: option.splits)
  let ?c = "place_data (interleave (payloadCodewords bytes v) v) (function_patterns v)"
  have fr: "format_reserved ?c"
    using format_reserved_function_patterns format_reserved_cong [of ?c "function_patterns v"] by simp
  obtain best where best: "foldl try_mask (?c, 0, None) [0..<Suc 7] = (drawFormat 7 ?c, best, Some (mask_penalty ?c best))"
      "best \<le> 7" "\<forall>m\<le>7. mask_penalty ?c best \<le> mask_penalty ?c m"
    using mask_loop [OF fr, of 7] by blast
  have "q = \<lparr>qr_size = int v * 4 + 17, qr_version = v, qr_modules = modules (masked ?c best)\<rparr>"
    using assms best(1) masked_drawFormat [OF fr, of 7 best]
    by (simp add: encode_bytes_def v Let_def side_function_patterns del: upt_Suc flip: masked_def)
  with v best show thesis by (intro that [of v ?c best]) (auto simp: less_Suc_eq_le)
qed

lemma bch_rem_numeral:
  "bch_rem sh gen (numeral k) rem = bch_rem sh gen (pred_numeral k) (push_bit 1 rem XOR (drop_bit sh rem * gen))"
  by (simp add: numeral_eq_Suc)

lemma formatBits_values:
  "formatBits 0 = 0x5412" "formatBits 1 = 0x5125" "formatBits 2 = 0x5E7C" "formatBits 3 = 0x5B4B"
  "formatBits 4 = 0x45F9" "formatBits 5 = 0x40CE" "formatBits 6 = 0x4F97" "formatBits 7 = 0x4AA0"
proof -
  have three: "Suc (Suc (Suc 0)) XOR 2 = 1"
    by (simp only: numeral_3_eq_3 [symmetric]) simp
  show "formatBits 0 = 0x5412" "formatBits 1 = 0x5125" "formatBits 2 = 0x5E7C" "formatBits 3 = 0x5B4B"
    "formatBits 4 = 0x45F9" "formatBits 5 = 0x40CE" "formatBits 6 = 0x4F97" "formatBits 7 = 0x4AA0"
    by (simp_all add: formatBits_def bch_rem_numeral Let_def three)
qed

text \<open>The number of set bits among the lowest ones.\<close>

fun pop_count :: "nat \<Rightarrow> int \<Rightarrow> nat" where
  "pop_count 0 x = 0"
| "pop_count (Suc n) x = (if odd x then Suc (pop_count n (x div 2)) else pop_count n (x div 2))"

lemma format_distances:
  "let fs = [0x5412, 0x5125, 0x5E7C, 0x5B4B, 0x45F9, 0x40CE, 0x4F97, 0x4AA0]
   in list_all (\<lambda>a. list_all (\<lambda>b. a = b \<or> 5 \<le> pop_count 15 (a XOR b)) fs) fs"
  by code_simp

section \<open>Properties\<close>


text \<open>
  The mask choice: masking is its own inverse, trying the eight masks one after another leaves the
  data as it was, and the mask kept scores the lowest penalty of the eight.
\<close>

theorem qr_mask_loop_restores:
  "let c = place_data cws (function_patterns v); (c', best, p) = foldl try_mask (c, 0, None) [0..<8]
   in applyMask m (applyMask m c) = c \<and> best < 8
      \<and> list_all (\<lambda>n. penaltyScore (modules (drawFormat best (applyMask best c))) (side c)
            \<le> penaltyScore (modules (drawFormat n (applyMask n c))) (side c)) [0..<8]
      \<and> drawFormat best (applyMask best c') = drawFormat best (applyMask best c)"
proof -
  let ?c = "place_data cws (function_patterns v)"
  have fr: "format_reserved ?c"
    using format_reserved_function_patterns format_reserved_cong [of ?c "function_patterns v"] by simp
  obtain best where best: "foldl try_mask (?c, 0, None) [0..<Suc 7] = (drawFormat 7 ?c, best, Some (mask_penalty ?c best))"
      "best \<le> 7" "\<forall>m\<le>7. mask_penalty ?c best \<le> mask_penalty ?c m"
    using mask_loop [OF fr, of 7] by blast
  then show ?thesis
    using masked_drawFormat [OF fr, of 7 best]
    by (simp add: applyMask_involution mask_penalty_def masked_def list_all_iff less_Suc_eq_le del: upt_Suc)
qed

text \<open>
  The format strings of the eight masks are the ones printed in the standard for level M, and any two
  of them differ in at least five modules, so two misread modules never turn one into another.
\<close>

theorem qr_format_strings:
  "let fs = map (\<lambda>m. int (formatBits m)) [0, 1, 2, 3, 4, 5, 6, 7]
   in fs = [0x5412, 0x5125, 0x5E7C, 0x5B4B, 0x45F9, 0x40CE, 0x4F97, 0x4AA0]
      \<and> list_all (\<lambda>a. list_all (\<lambda>b. a = b \<or> 5 \<le> pop_count 15 (a XOR b)) fs) fs"
  using format_distances unfolding Let_def list.map formatBits_values of_nat_numeral by blast


end
