(* ===== verification/Js_Text.thy ===== *)
theory Js_Text
  imports Prelude
begin

text \<open>
  The parts of the JavaScript standard library on text that several components use: splitting,
  trimming, character classes of the regular expressions in the source, \<open>Number.parseInt\<close> and the
  text \<open>JSON.stringify\<close> writes.
\<close>

section \<open>Splitting and joining\<close>

fun split_on :: "char \<Rightarrow> string \<Rightarrow> string list" where
  "split_on c [] = [[]]"
| "split_on c (x # xs) =
     (if x = c then [] # split_on c xs
      else (case split_on c xs of [] \<Rightarrow> [[x]] | p # ps \<Rightarrow> (x # p) # ps))"

fun join_with :: "string \<Rightarrow> string list \<Rightarrow> string" where
  "join_with sep [] = []"
| "join_with sep [p] = p"
| "join_with sep (p # q # ps) = p @ sep @ join_with sep (q # ps)"

lemma split_on_not_Nil [simp]: "split_on c s \<noteq> []"
  by (induction s) (auto split: list.split)

lemma split_on_no_sep: "c \<notin> set s \<Longrightarrow> split_on c s = [s]"
  by (induction s) auto

lemma split_on_append:
  "split_on c (s @ [c] @ t) = split_on c s @ split_on c t"
proof (induction s)
  case (Cons x s)
  show ?case
  proof (cases "x = c")
    case False
    obtain p ps where "split_on c s = p # ps" using split_on_not_Nil [of c s] by (cases "split_on c s") auto
    with Cons False show ?thesis by simp
  qed (use Cons in simp)
qed simp

lemma split_on_parts: "p \<in> set (split_on c s) \<Longrightarrow> c \<notin> set p"
  by (induction s arbitrary: p) (auto split: if_splits list.splits)

lemma join_split: "join_with [c] (split_on c s) = s"
proof (induction s)
  case (Cons x s)
  obtain p ps where p: "split_on c s = p # ps" using split_on_not_Nil [of c s] by (cases "split_on c s") auto
  with Cons show ?case by (cases ps) auto
qed simp

lemma split_join: "ps \<noteq> [] \<Longrightarrow> \<forall>p\<in>set ps. c \<notin> set p \<Longrightarrow> split_on c (join_with [c] ps) = ps"
proof (induction "[c]" ps rule: join_with.induct)
  case (3 p q ps)
  then show ?case using split_on_append [of c p] by (simp add: split_on_no_sep)
qed (simp_all add: split_on_no_sep)

lemma takeWhile_until: "c \<notin> set s \<Longrightarrow> takeWhile (\<lambda>x. x \<noteq> c) (s @ c # t) = s"
  by (induction s) auto

section \<open>Characters\<close>

abbreviation code :: "char \<Rightarrow> nat" where
  "code c \<equiv> of_char c"

definition is_digit :: "char \<Rightarrow> bool" where
  "is_digit c \<longleftrightarrow> 48 \<le> code c \<and> code c \<le> 57"

definition is_upper :: "char \<Rightarrow> bool" where
  "is_upper c \<longleftrightarrow> 65 \<le> code c \<and> code c \<le> 90"

definition is_lower :: "char \<Rightarrow> bool" where
  "is_lower c \<longleftrightarrow> 97 \<le> code c \<and> code c \<le> 122"

definition is_alnum :: "char \<Rightarrow> bool" where
  "is_alnum c \<longleftrightarrow> is_digit c \<or> is_upper c \<or> is_lower c"

definition is_hex :: "char \<Rightarrow> bool" where
  "is_hex c \<longleftrightarrow> is_digit c \<or> 97 \<le> code c \<and> code c \<le> 102 \<or> 65 \<le> code c \<and> code c \<le> 70"

text \<open>White space as \<open>trim\<close> sees it, among the code units below 256.\<close>

definition is_space :: "char \<Rightarrow> bool" where
  "is_space c \<longleftrightarrow> code c \<in> {9, 10, 11, 12, 13, 32, 160}"

definition js_trim :: "string \<Rightarrow> string" where
  "js_trim s = rev (dropWhile is_space (rev (dropWhile is_space s)))"

fun starts_with :: "string \<Rightarrow> string \<Rightarrow> bool" where
  "starts_with [] s = True"
| "starts_with (p # ps) (c # cs) = (p = c \<and> starts_with ps cs)"
| "starts_with (p # ps) [] = False"

definition newline :: char where
  "newline = CHR 0x0A"

section \<open>Numbers\<close>

definition digits_value :: "string \<Rightarrow> nat" where
  "digits_value s = foldl (\<lambda>n c. 10 * n + (code c - 48)) 0 s"

text \<open>\<open>Number.parseInt(s, 10)\<close>: \<^const>\<open>None\<close> is \<open>NaN\<close>.\<close>

definition js_parseInt :: "string \<Rightarrow> int option" where
  "js_parseInt s =
     (let s = dropWhile is_space s;
          (neg, s) = (case s of [] \<Rightarrow> (False, s) | c # cs \<Rightarrow>
             if c = CHR ''-'' then (True, cs) else if c = CHR ''+'' then (False, cs) else (False, s));
          ds = takeWhile is_digit s
      in if ds = [] then None else Some (if neg then - int (digits_value ds) else int (digits_value ds)))"

section \<open>JSON text\<close>

definition hex_digit :: "nat \<Rightarrow> char" where
  "hex_digit n = (if n < 10 then char_of (48 + n) else char_of (87 + n))"

definition hex_text :: "byte list \<Rightarrow> string" where
  "hex_text bs = concat (map (\<lambda>b. [hex_digit (unat b div 16), hex_digit (unat b mod 16)]) bs)"

definition json_char :: "char \<Rightarrow> string" where
  "json_char c =
     (let n = code c in
      if n = 34 then [CHR 0x5C, CHR 0x22]
      else if n = 92 then [CHR 0x5C, CHR 0x5C]
      else if n = 8 then [CHR 0x5C, CHR ''b'']
      else if n = 9 then [CHR 0x5C, CHR ''t'']
      else if n = 10 then [CHR 0x5C, CHR ''n'']
      else if n = 12 then [CHR 0x5C, CHR ''f'']
      else if n = 13 then [CHR 0x5C, CHR ''r'']
      else if n < 32 then [CHR 0x5C, CHR ''u'', CHR ''0'', CHR ''0'', hex_digit (n div 16), hex_digit (n mod 16)]
      else [c])"

definition json_string :: "string \<Rightarrow> string" where
  "json_string s = [CHR 0x22] @ concat (map json_char s) @ [CHR 0x22]"

text \<open>
  \<open>JSON.stringify\<close> of a value that came out of \<open>JSON.parse\<close>. How a number is written is an argument:
  the shortest decimal of a double is not modelled, an integer is its decimal digits.
\<close>

fun json_text :: "(rat \<Rightarrow> string) \<Rightarrow> json \<Rightarrow> string" where
  "json_text num JUndef = ''null''"
| "json_text num JNull = ''null''"
| "json_text num (JBool b) = (if b then ''true'' else ''false'')"
| "json_text num (JNum (Num q)) = num q"
| "json_text num (JNum _) = ''null''"
| "json_text num (JStr s) = json_string s"
| "json_text num (JArr vs) = ''['' @ join_with '','' (map (json_text num) vs) @ '']''"
| "json_text num (JObj fs) = ''{'' @ join_with '','' (map (\<lambda>(k, v). json_string k @ '':'' @ json_text num v) fs) @ ''}''"

definition show_whole :: "rat \<Rightarrow> string" where
  "show_whole q = show_int \<lfloor>q\<rfloor>"

end
