(* ===== verification/Calendar.thy ===== *)
theory Calendar
  imports Js_Text
begin

text \<open>
  The UTC calendar of the JavaScript \<open>Date\<close>: the year, month and day of an instant, \<open>Date.UTC\<close>,
  \<open>padStart\<close> and \<open>toISOString\<close>. An instant is whole milliseconds since the epoch.
\<close>

section \<open>Years\<close>

definition MS_PER_DAY :: int where
  "MS_PER_DAY = 86400000"

text \<open>The day number of the first of January (negative before 1970).\<close>

definition day_from_year :: "int \<Rightarrow> int" where
  "day_from_year y = 365 * (y - 1970) + (y - 1969) div 4 - (y - 1901) div 100 + (y - 1601) div 400"

definition year_of_day :: "int \<Rightarrow> int" where
  "year_of_day d =
     (let e = 1970 + d * 400 div 146097
      in if d < day_from_year e then e - 1 else if day_from_year (e + 1) \<le> d then e + 1 else e)"

lemma div_bounds:
  fixes a n :: int
  assumes "0 < n"
  shows "n * (a div n) \<le> a" "a < n * (a div n) + n"
  using assms mult_div_mod_eq [of n a] pos_mod_sign [OF assms, of a] pos_mod_bound [OF assms, of a] by linarith+

lemma day_from_year_bounds:
  "146097 * (y - 1970) - 506 \<le> 400 * day_from_year y" "400 * day_from_year y \<le> 146097 * (y - 1970) + 589"
proof -
  obtain a b c where q: "a = (y - 1969) div 4" "b = (y - 1901) div 100" "c = (y - 1601) div 400"
    by blast
  have "4 * a \<le> y - 1969" "y - 1969 < 4 * a + 4" "100 * b \<le> y - 1901" "y - 1901 < 100 * b + 100"
       "400 * c \<le> y - 1601" "y - 1601 < 400 * c + 400"
    unfolding q by (rule div_bounds, simp)+
  then show "146097 * (y - 1970) - 506 \<le> 400 * day_from_year y" "400 * day_from_year y \<le> 146097 * (y - 1970) + 589"
    unfolding day_from_year_def q [symmetric] by (simp_all add: algebra_simps)
qed

lemma year_of_day: "day_from_year (year_of_day d) \<le> d \<and> d < day_from_year (year_of_day d + 1)"
proof -
  define q where "q = d * 400 div 146097"
  have q: "146097 * q \<le> 400 * d" "400 * d \<le> 146097 * q + 146096"
    using div_bounds [of 146097 "d * 400"] by (simp_all add: q_def [symmetric])
  have "400 * day_from_year (1970 + q - 1) \<le> 400 * d" "400 * d < 400 * day_from_year (1970 + q + 2)"
    using day_from_year_bounds [of "1970 + q - 1"] day_from_year_bounds [of "1970 + q + 2"] q by (simp_all add: algebra_simps)
  then show ?thesis
    unfolding year_of_day_def q_def [symmetric] Let_def by (auto simp: add.commute)
qed

definition leap_year :: "int \<Rightarrow> bool" where
  "leap_year y \<longleftrightarrow> y mod 4 = 0 \<and> y mod 100 \<noteq> 0 \<or> y mod 400 = 0"

lemma div_step:
  fixes a n :: int
  assumes "0 < n"
  shows "(a + 1) div n = a div n + (if (a + 1) mod n = 0 then 1 else 0)"
proof -
  have a: "n * (a div n) + a mod n = a" and b: "n * ((a + 1) div n) + (a + 1) mod n = a + 1"
    by simp_all
  have m: "0 \<le> a mod n" "a mod n < n" "0 \<le> (a + 1) mod n" "(a + 1) mod n < n"
    using assms by simp_all
  have diff: "n * ((a + 1) div n - a div n) = 1 + a mod n - (a + 1) mod n"
    using a b unfolding right_diff_distrib by linarith
  show ?thesis
  proof (cases "(a + 1) mod n = 0")
    case True
    have "0 < n * ((a + 1) div n - a div n)" "n * ((a + 1) div n - a div n) < n * 2"
      using diff m True assms by linarith+
    then have "0 < (a + 1) div n - a div n" "(a + 1) div n - a div n < 2"
      using assms by (simp_all add: zero_less_mult_iff)
    with True show ?thesis by simp
  next
    case False
    with m have "- n < n * ((a + 1) div n - a div n)" "n * ((a + 1) div n - a div n) < n * 1"
      using diff by linarith+
    then have "n * (- 1) < n * ((a + 1) div n - a div n)" "n * ((a + 1) div n - a div n) < n * 1"
      by simp_all
    then have "- 1 < (a + 1) div n - a div n" "(a + 1) div n - a div n < 1"
      using assms by (simp_all only: mult_less_cancel_left_pos)
    with False show ?thesis by simp
  qed
qed

lemma div_step_mod:
  fixes a b n y :: int
  assumes "0 < n" "b = a + 1" "b mod n = y mod n"
  shows "b div n = a div n + (if y mod n = 0 then 1 else 0)"
  using div_step [OF assms(1), of a] assms(3) by (simp only: assms(2))

lemma year_length: "day_from_year (y + 1) = day_from_year y + (if leap_year y then 366 else 365)"
proof -
  have mods: "(y - 1968) mod 4 = y mod 4" "(y - 1900) mod 100 = y mod 100" "(y - 1600) mod 400 = y mod 400"
    using mod_mult_self1 [of "y" "- 492" 4] mod_mult_self1 [of y "- 19" 100] mod_mult_self1 [of y "- 4" 400] by simp_all
  have "(y - 1968) div 4 = (y - 1969) div 4 + (if y mod 4 = 0 then 1 else 0)"
       "(y - 1900) div 100 = (y - 1901) div 100 + (if y mod 100 = 0 then 1 else 0)"
       "(y - 1600) div 400 = (y - 1601) div 400 + (if y mod 400 = 0 then 1 else 0)"
    by (rule div_step_mod; (rule mods)?; simp)+
  note quotients = this
  obtain a b c where abc: "a = (y - 1969) div 4" "b = (y - 1901) div 100" "c = (y - 1601) div 400"
    by blast
  obtain P Q R where PQR: "P = (y mod 4 = 0)" "Q = (y mod 100 = 0)" "R = (y mod 400 = 0)"
    by blast
  have "R \<longrightarrow> Q" "Q \<longrightarrow> P"
    using mod_mod_cancel [of 100 400 y] mod_mod_cancel [of 4 100 y] by (auto simp: PQR)
  moreover have "y + 1 - 1969 = y - 1968" "y + 1 - 1901 = y - 1900" "y + 1 - 1601 = y - 1600"
    by simp_all
  ultimately show ?thesis
    unfolding day_from_year_def leap_year_def by (auto simp only: quotients abc [symmetric] PQR [symmetric] split: if_split) (simp_all add: algebra_simps)
qed

lemma day_from_year_mono: "y < y' \<Longrightarrow> day_from_year (y + 1) \<le> day_from_year y'"
proof -
  assume "y < y'"
  then have "y + 1 \<le> y'" by simp
  then show ?thesis
  proof (induction y' rule: int_ge_induct)
    case (step i)
    then show ?case using year_length [of i] by (simp split: if_splits)
  qed simp
qed

lemma year_of_day_unique:
  assumes "day_from_year y \<le> d" "d < day_from_year (y + 1)"
  shows "year_of_day d = y"
proof -
  have "\<not> year_of_day d < y" "\<not> y < year_of_day d"
    using day_from_year_mono [of "year_of_day d" y] day_from_year_mono [of y "year_of_day d"] year_of_day [of d] assms
    by linarith+
  then show ?thesis by simp
qed

section \<open>Months\<close>

text \<open>Days of the year before month \<open>m\<close> (0 is January; 12 is the length of the year).\<close>

definition days_before :: "bool \<Rightarrow> nat \<Rightarrow> int" where
  "days_before leap m = [0, 31, 59, 90, 120, 151, 181, 212, 243, 273, 304, 334, 365] ! m + (if leap \<and> 2 \<le> m then 1 else 0)"

definition month_of :: "bool \<Rightarrow> int \<Rightarrow> nat" where
  "month_of leap doy = length (takeWhile (\<lambda>m. days_before leap m \<le> doy) [1..<12])"

lemma days_before_table:
  "list_all (\<lambda>m. 0 \<le> days_before leap m \<and> days_before leap (m + 1) \<le> (if leap then 366 else 365)) [0..<12]"
  "list_all (\<lambda>i. list_all (\<lambda>j. i < j \<longrightarrow> days_before leap i < days_before leap j) [0..<13]) [0..<13]"
  by (cases leap; simp; code_simp)+

lemma days_before_bounds: "m \<le> 11 \<Longrightarrow> 0 \<le> days_before leap m \<and> days_before leap (m + 1) \<le> (if leap then 366 else 365)"
  using days_before_table(1) [of leap] by (auto simp: list_all_iff)

lemma days_before_mono: "i < j \<Longrightarrow> j \<le> 12 \<Longrightarrow> days_before leap i < days_before leap j"
  using days_before_table(2) [of leap] by (auto simp: list_all_iff)

lemma month_of_le: "month_of leap doy \<le> 11"
  unfolding month_of_def by (rule order_trans [OF length_takeWhile_le]) simp

lemma month_of:
  assumes "0 \<le> doy" "doy < (if leap then 366 else 365)"
  shows "days_before leap (month_of leap doy) \<le> doy \<and> doy < days_before leap (month_of leap doy + 1)"
proof -
  let ?P = "\<lambda>m. days_before leap m \<le> doy" and ?n = "month_of leap doy"
  have "days_before leap ?n \<le> doy"
  proof (cases ?n)
    case 0
    with assms(1) show ?thesis by (simp add: days_before_def)
  next
    case (Suc k)
    then have k: "k < length (takeWhile ?P [1..<12])" "k < 11"
      using month_of_le [of leap doy] by (simp_all add: month_of_def)
    then have "?P (takeWhile ?P [1..<12] ! k)"
      by (metis nth_mem set_takeWhileD)
    with k Suc show ?thesis by (simp add: takeWhile_nth)
  qed
  moreover have "doy < days_before leap (?n + 1)"
  proof (cases "?n < 11")
    case True
    then have "\<not> ?P ([1..<12] ! ?n)"
      using nth_length_takeWhile [of ?P "[1..<12]"] by (simp add: month_of_def)
    with True show ?thesis by simp
  next
    case False
    then have "?n = 11" using month_of_le [of leap doy] by simp
    with assms(2) show ?thesis by (simp add: days_before_def split: if_splits)
  qed
  ultimately show ?thesis ..
qed

lemma month_of_unique:
  assumes "m \<le> 11" "days_before leap m \<le> doy" "doy < days_before leap (m + 1)"
  shows "month_of leap doy = m"
proof -
  have "0 \<le> doy" "doy < (if leap then 366 else 365)"
    using assms days_before_bounds [of m leap] by linarith+
  note range = month_of [OF this]
  have "\<not> m < month_of leap doy"
    using range assms days_before_mono [of "m + 1" "month_of leap doy" leap] month_of_le [of leap doy]
    by (cases "m + 1 = month_of leap doy") auto
  moreover have "\<not> month_of leap doy < m"
    using range assms days_before_mono [of "month_of leap doy + 1" m leap]
    by (cases "month_of leap doy + 1 = m") auto
  ultimately show ?thesis by simp
qed

section \<open>Instants\<close>

definition utc_day :: "millis \<Rightarrow> int" where
  "utc_day t = t div MS_PER_DAY"

definition getUTCFullYear :: "millis \<Rightarrow> int" where
  "getUTCFullYear t = year_of_day (utc_day t)"

definition getUTCMonth :: "millis \<Rightarrow> nat" where
  "getUTCMonth t =
     (let y = getUTCFullYear t in month_of (leap_year y) (utc_day t - day_from_year y))"

definition getUTCDate :: "millis \<Rightarrow> int" where
  "getUTCDate t =
     (let y = getUTCFullYear t in utc_day t - day_from_year y - days_before (leap_year y) (getUTCMonth t) + 1)"

text \<open>\<open>Date.UTC(y, m, 1)\<close>; a month past December carries into the next year.\<close>

definition date_utc :: "int \<Rightarrow> nat \<Rightarrow> millis" where
  "date_utc y m =
     (let y' = y + int (m div 12) in (day_from_year y' + days_before (leap_year y') (m mod 12)) * MS_PER_DAY)"

definition pad_start :: "nat \<Rightarrow> char \<Rightarrow> string \<Rightarrow> string" where
  "pad_start n c s = replicate (n - length s) c @ s"

definition pad_int :: "nat \<Rightarrow> int \<Rightarrow> string" where
  "pad_int n i = pad_start n (CHR ''0'') (show_int i)"

text \<open>\<open>toISOString\<close> for the years 0 to 9999.\<close>

definition toISOString :: "millis \<Rightarrow> string" where
  "toISOString t =
     (let s = t mod MS_PER_DAY in
      pad_int 4 (getUTCFullYear t) @ ''-'' @ pad_int 2 (int (getUTCMonth t) + 1) @ ''-'' @ pad_int 2 (getUTCDate t)
      @ ''T'' @ pad_int 2 (s div 3600000) @ '':'' @ pad_int 2 (s div 60000 mod 60) @ '':''
      @ pad_int 2 (s div 1000 mod 60) @ ''.'' @ pad_int 3 (s mod 1000) @ ''Z'')"

text \<open>The month an instant lies in, as one number.\<close>

definition month_index :: "millis \<Rightarrow> int" where
  "month_index t = 12 * getUTCFullYear t + int (getUTCMonth t)"

lemma getUTCMonth_le: "getUTCMonth t \<le> 11"
  by (simp add: getUTCMonth_def Let_def month_of_le)

lemma year_day_range:
  "0 \<le> utc_day t - day_from_year (getUTCFullYear t)
     \<and> utc_day t - day_from_year (getUTCFullYear t) < (if leap_year (getUTCFullYear t) then 366 else 365)"
  using year_of_day [of "utc_day t"] year_length [of "year_of_day (utc_day t)"]
  unfolding getUTCFullYear_def by (simp split: if_splits)

lemma month_start:
  "day_from_year (getUTCFullYear t) + days_before (leap_year (getUTCFullYear t)) (getUTCMonth t) \<le> utc_day t
     \<and> utc_day t < day_from_year (getUTCFullYear t) + days_before (leap_year (getUTCFullYear t)) (getUTCMonth t + 1)"
  using month_of [of "utc_day t - day_from_year (getUTCFullYear t)" "leap_year (getUTCFullYear t)"] year_day_range [of t]
  unfolding getUTCMonth_def Let_def by auto

text \<open>Which instants lie in month \<open>m\<close> of year \<open>y\<close>.\<close>

lemma month_interval:
  assumes "m \<le> 11"
  shows "getUTCFullYear t = y \<and> getUTCMonth t = m \<longleftrightarrow> date_utc y m \<le> t \<and> t < date_utc y (m + 1)"
proof -
  have next_month: "date_utc y (m + 1) = (day_from_year y + days_before (leap_year y) (m + 1)) * MS_PER_DAY"
  proof (cases "m = 11")
    case True
    then show ?thesis
      using year_length [of y] by (simp add: date_utc_def Let_def days_before_def)
  next
    case False
    with assms show ?thesis by (simp add: date_utc_def Let_def)
  qed
  have this_month: "date_utc y m = (day_from_year y + days_before (leap_year y) m) * MS_PER_DAY"
    using assms by (simp add: date_utc_def Let_def)
  have day_le: "a * MS_PER_DAY \<le> t \<longleftrightarrow> a \<le> utc_day t" and day_less: "t < a * MS_PER_DAY \<longleftrightarrow> utc_day t < a" for a
    using div_bounds [of MS_PER_DAY t] unfolding utc_day_def
    by (auto simp: MS_PER_DAY_def)
  show ?thesis
    unfolding next_month this_month day_le day_less
  proof
    assume "getUTCFullYear t = y \<and> getUTCMonth t = m"
    then show "day_from_year y + days_before (leap_year y) m \<le> utc_day t
        \<and> utc_day t < day_from_year y + days_before (leap_year y) (m + 1)"
      using month_start [of t] by auto
  next
    assume r: "day_from_year y + days_before (leap_year y) m \<le> utc_day t
        \<and> utc_day t < day_from_year y + days_before (leap_year y) (m + 1)"
    have "getUTCFullYear t = y"
      unfolding getUTCFullYear_def
      by (rule year_of_day_unique)
        (use r days_before_bounds [OF assms, of "leap_year y"] year_length [of y] in \<open>auto split: if_splits\<close>)
    moreover have "month_of (leap_year y) (utc_day t - day_from_year y) = m"
      by (rule month_of_unique) (use r assms in auto)
    ultimately show "getUTCFullYear t = y \<and> getUTCMonth t = m"
      by (simp add: getUTCMonth_def)
  qed
qed

lemma month_index_eq_iff:
  "month_index s = month_index t \<longleftrightarrow> getUTCFullYear s = getUTCFullYear t \<and> getUTCMonth s = getUTCMonth t"
proof -
  have "month_index u div 12 = getUTCFullYear u" "month_index u mod 12 = int (getUTCMonth u)" for u
    using getUTCMonth_le [of u] by (simp_all add: month_index_def)
  then show ?thesis
    by (metis month_index_def of_nat_eq_iff)
qed

section \<open>Padded numbers\<close>

lemma show_nat_inject: "show_nat m = show_nat n \<longleftrightarrow> m = n"
  by (simp add: show_nat_def show_radix_inject)

lemma show_nat_no_minus: "CHR ''-'' \<notin> set (show_nat n)"
  using show_radix_digits [of 10 n] by (auto simp: show_nat_def)

lemma show_int_inject: "show_int i = show_int j \<longleftrightarrow> i = j"
proof -
  have "CHR ''-'' # s \<noteq> show_nat n" for s n
    using show_nat_no_minus [of n] by (metis list.set_intros(1))
  then show ?thesis
    by (auto simp: show_int_def show_nat_inject split: if_splits) metis+
qed

lemma zero_char: "CHR ''0'' = digit_char 0"
  unfolding digit_char_def by code_simp

lemma pad_two: "m < 100 \<Longrightarrow> pad_int 2 (int m) = [digit_char (m div 10), digit_char (m mod 10)]"
proof (cases "m < 10")
  case True
  then show ?thesis
    by (simp add: pad_int_def pad_start_def show_int_def show_nat_def show_radix.simps [of 10 m] zero_char)
next
  case False
  moreover assume "m < 100"
  ultimately show ?thesis
    by (simp add: pad_int_def pad_start_def show_int_def show_nat_def show_radix.simps [of 10 m]
        show_radix.simps [of 10 "m div 10"])
qed

lemma digit_char_inject: "c < 10 \<Longrightarrow> d < 10 \<Longrightarrow> digit_char c = digit_char d \<longleftrightarrow> c = d"
  by (metis of_char_digit_char add_left_cancel)

lemma pad_two_inject: "m < 100 \<Longrightarrow> n < 100 \<Longrightarrow> pad_int 2 (int m) = pad_int 2 (int n) \<longleftrightarrow> m = n"
proof -
  assume a: "m < 100" "n < 100"
  then have "m div 10 < 10" "n div 10 < 10" "m mod 10 < 10" "n mod 10 < 10" by auto
  then have "pad_int 2 (int m) = pad_int 2 (int n) \<longleftrightarrow> m div 10 = n div 10 \<and> m mod 10 = n mod 10"
    using a by (simp add: pad_two digit_char_inject)
  also have "\<dots> \<longleftrightarrow> m = n"
    by (metis div_mult_mod_eq)
  finally show ?thesis .
qed

end
