(* ===== verification/Audit_Log.thy ===== *)
theory Audit_Log
  imports Js_Text
begin

text \<open>
  The audit log: the closed event catalogue and its metadata allowlist (\<open>lib/audit/events.ts\<close>), the
  client address (\<open>lib/audit/address.ts\<close>), the retention window (\<open>lib/audit/retention.ts\<close>), and the
  two handlers of \<open>app/api/audit/route.ts\<close>.
\<close>

section \<open>The catalogue\<close>

datatype AuditSource = Server | Relay | Client
datatype IpDetail = IpFull | IpPrefix

definition AUDIT_EVENTS :: "(string \<times> AuditSource \<times> IpDetail) list" where
  "AUDIT_EVENTS =
     [(''auth.signin'', Server, IpFull),
      (''auth.signout'', Server, IpPrefix),
      (''device.registered'', Server, IpFull),
      (''device.revoked'', Server, IpPrefix),
      (''vault.synced'', Server, IpPrefix),
      (''recovery.enrolled'', Server, IpPrefix),
      (''recovery.redeemed'', Server, IpPrefix),
      (''recovery.disabled'', Server, IpPrefix),
      (''totp.enrolled'', Server, IpPrefix),
      (''totp.disabled'', Server, IpPrefix),
      (''totp.verified'', Server, IpPrefix),
      (''totp.codes-reissued'', Server, IpPrefix),
      (''passkey.registered'', Server, IpPrefix),
      (''passkey.removed'', Server, IpPrefix),
      (''passkey.used'', Server, IpPrefix),
      (''agent.commanded'', Server, IpPrefix),
      (''connection.opened'', Relay, IpPrefix),
      (''connection.closed'', Relay, IpPrefix),
      (''key.installed'', Client, IpPrefix),
      (''hostkey.pinned'', Client, IpPrefix),
      (''hostkey.mismatch'', Client, IpPrefix),
      (''hostkey.cleared'', Client, IpPrefix)]"

text \<open>
  Object literals inherit from \<open>Object.prototype\<close>, and both \<open>in\<close> and property access look there too.
  These are its properties.
\<close>

definition inherited_names :: "string list" where
  "inherited_names =
     [''constructor'', ''toString'', ''toLocaleString'', ''valueOf'', ''hasOwnProperty'', ''isPrototypeOf'',
      ''propertyIsEnumerable'', ''__proto__'', ''__defineGetter__'', ''__defineSetter__'', ''__lookupGetter__'',
      ''__lookupSetter__'']"

definition isAuditEventType :: "json \<Rightarrow> bool" where
  "isAuditEventType v =
     (case v of JStr t \<Rightarrow> t \<in> set (map fst AUDIT_EVENTS) \<or> t \<in> set inherited_names | _ \<Rightarrow> False)"

definition CLIENT_REPORTABLE :: "string list" where
  "CLIENT_REPORTABLE = map fst (filter (\<lambda>(_, source, _). source = Client) AUDIT_EVENTS)"

definition EMITTED_EVENTS :: "string list" where
  "EMITTED_EVENTS =
     [''device.registered'', ''device.revoked'', ''recovery.enrolled'', ''recovery.redeemed'',
      ''recovery.disabled'', ''totp.enrolled'', ''totp.disabled'', ''totp.verified'', ''totp.codes-reissued'',
      ''passkey.registered'', ''passkey.removed'', ''passkey.used'', ''key.installed'', ''hostkey.pinned'',
      ''hostkey.mismatch'', ''hostkey.cleared'']"

definition UNEMITTED_EVENTS :: "string list" where
  "UNEMITTED_EVENTS = filter (\<lambda>t. t \<notin> set EMITTED_EVENTS) (map fst AUDIT_EVENTS)"

section \<open>Metadata\<close>

definition isFingerprint :: "json \<Rightarrow> bool" where
  "isFingerprint v =
     (case v of
        JStr s \<Rightarrow> starts_with ''SHA256:'' s \<and> length s = 50
          \<and> list_all (\<lambda>c. is_alnum c \<or> c = CHR ''+'' \<or> c = CHR ''/'') (drop 7 s)
      | _ \<Rightarrow> False)"

definition isUuid :: "json \<Rightarrow> bool" where
  "isUuid v = (case v of JStr s \<Rightarrow> length s = 36 \<and> list_all (\<lambda>c. is_hex c \<or> c = CHR ''-'') s | _ \<Rightarrow> False)"

definition isSmallInt :: "json \<Rightarrow> bool" where
  "isSmallInt v = (case v of JNum (Num q) \<Rightarrow> of_int \<lfloor>q\<rfloor> = q \<and> 0 \<le> q \<and> q < 10 ^ 12 | _ \<Rightarrow> False)"

definition isBoolean :: "json \<Rightarrow> bool" where
  "isBoolean v = (case v of JBool _ \<Rightarrow> True | _ \<Rightarrow> False)"

definition isEnum :: "string list \<Rightarrow> json \<Rightarrow> bool" where
  "isEnum allowed v = (case v of JStr s \<Rightarrow> s \<in> set allowed | _ \<Rightarrow> False)"

definition AUDIT_METADATA :: "(string \<times> (string \<times> (json \<Rightarrow> bool)) list) list" where
  "AUDIT_METADATA =
     [(''auth.signin'', [(''method'', isEnum [''password'', ''passkey'', ''sso''])]),
      (''auth.signout'', [(''scope'', isEnum [''device'', ''all''])]),
      (''device.registered'',
        [(''platform'', isEnum [''macos'', ''windows'', ''linux'', ''ios'', ''android'', ''other''])]),
      (''device.revoked'', [(''revokedDeviceId'', isUuid)]),
      (''vault.synced'', [(''version'', isSmallInt), (''records'', isSmallInt)]),
      (''recovery.enrolled'', [(''codes'', isSmallInt)]),
      (''recovery.redeemed'', [(''remaining'', isSmallInt)]),
      (''recovery.disabled'', []),
      (''totp.enrolled'', []),
      (''totp.disabled'', []),
      (''totp.codes-reissued'', [(''backupCodes'', isSmallInt)]),
      (''totp.verified'', [(''factor'', isEnum [''totp'', ''backup-code''])]),
      (''passkey.registered'',
        [(''backedUp'', isBoolean), (''deviceType'', isEnum [''singleDevice'', ''multiDevice''])]),
      (''passkey.removed'', []),
      (''passkey.used'', []),
      (''agent.commanded'',
        [(''command'', isEnum [''restart'', ''upgrade'', ''stop'', ''revoke'']), (''ok'', isBoolean)]),
      (''connection.opened'', [(''port'', isSmallInt)]),
      (''connection.closed'', [(''bytesUp'', isSmallInt), (''bytesDown'', isSmallInt), (''durationMs'', isSmallInt)]),
      (''key.installed'',
        [(''keyId'', isUuid), (''fingerprint'', isFingerprint), (''result'', isEnum [''installed'', ''already-present''])]),
      (''hostkey.pinned'',
        [(''fingerprint'', isFingerprint), (''keyType'', isEnum [''ssh-ed25519'', ''ssh-rsa'', ''ecdsa-sha2-nistp256''])]),
      (''hostkey.mismatch'', [(''expected'', isFingerprint), (''presented'', isFingerprint)]),
      (''hostkey.cleared'', [(''fingerprint'', isFingerprint)])]"

definition MAX_METADATA_BYTES :: nat where
  "MAX_METADATA_BYTES = 512"

datatype MetadataResult = MetaOk "(string \<times> json) list" | MetaError string | MetaThrows

text \<open>
  What \<open>allowed[key]\<close> followed by \<open>validator(value)\<close> comes to. An own entry is its validator. An inherited
  one is a function of \<open>Object.prototype\<close> called without a receiver: \<open>Object(value)\<close> and
  \<open>toString()\<close> return something truthy, \<open>isPrototypeOf\<close> answers false for a value that is not an
  object, and the others (and \<open>__proto__\<close>, which is no function) throw.
\<close>

datatype key_check = Absent | Accepts | Rejects | Throws

definition inherited_check :: "string \<Rightarrow> json \<Rightarrow> key_check" where
  "inherited_check key v =
     (if key = ''constructor'' \<or> key = ''toString'' then Accepts
      else if key = ''isPrototypeOf'' then (case v of JObj _ \<Rightarrow> Throws | JArr _ \<Rightarrow> Throws | _ \<Rightarrow> Rejects)
      else if key \<in> set inherited_names then Throws
      else Absent)"

definition check_key :: "(string \<times> (json \<Rightarrow> bool)) list \<Rightarrow> string \<Rightarrow> json \<Rightarrow> key_check" where
  "check_key allowed key v =
     (case map_of allowed key of
        Some validator \<Rightarrow> if validator v then Accepts else Rejects
      | None \<Rightarrow> inherited_check key v)"

fun check_entries ::
  "string \<Rightarrow> (string \<times> (json \<Rightarrow> bool)) list \<Rightarrow> (string \<times> json) list \<Rightarrow> (string \<times> json) list \<Rightarrow> MetadataResult" where
  "check_entries type allowed [] out = MetaOk out"
| "check_entries type allowed ((key, v) # rest) out =
     (case check_key allowed key v of
        Absent \<Rightarrow> MetaError (''metadata key '' @ key @ '' is not allowed for '' @ type)
      | Rejects \<Rightarrow> MetaError (''metadata value for '' @ key @ '' failed validation'')
      | Throws \<Rightarrow> MetaThrows
      | Accepts \<Rightarrow> check_entries type allowed rest (AList.update key v out))"

definition validateMetadata :: "(rat \<Rightarrow> string) \<Rightarrow> string \<Rightarrow> json \<Rightarrow> MetadataResult" where
  "validateMetadata num type meta =
     (case meta of
        JUndef \<Rightarrow> MetaOk []
      | JNull \<Rightarrow> MetaOk []
      | JObj entries \<Rightarrow>
          (case map_of AUDIT_METADATA type of
             None \<Rightarrow> if entries = [] then MetaOk [] else MetaThrows
           | Some allowed \<Rightarrow>
               (case check_entries type allowed entries [] of
                  MetaOk out \<Rightarrow>
                    if MAX_METADATA_BYTES < length (json_text num (JObj out)) then MetaError ''metadata too large''
                    else MetaOk out
                | r \<Rightarrow> r))
      | _ \<Rightarrow> MetaError ''metadata must be an object'')"

section \<open>Addresses\<close>

definition ipPrefix :: "string option \<Rightarrow> string option" where
  "ipPrefix ip =
     (case ip of
        None \<Rightarrow> None
      | Some raw \<Rightarrow>
          if raw = [] then None
          else
            let addr = js_trim raw in
            if CHR '','' \<in> set addr then None
            else if CHR '':'' \<in> set addr then
              let groups = filter (\<lambda>g. g \<noteq> []) (split_on (CHR '':'') addr)
              in if 3 \<le> length groups then Some (join_with '':'' (take 3 groups) @ ''::/48'') else None
            else
              let octets = split_on (CHR ''.'') addr
              in if length octets \<noteq> 4 \<or> list_ex (\<lambda>o'. \<not> (1 \<le> length o' \<and> length o' \<le> 3 \<and> list_all is_digit o')) octets
                 then None
                 else Some (join_with ''.'' (take 3 octets) @ ''.0/24''))"

definition trusted_hops :: "string option \<Rightarrow> nat" where
  "trusted_hops raw =
     (case raw of
        None \<Rightarrow> 0
      | Some r \<Rightarrow>
          (case js_parseInt r of
             Some n \<Rightarrow> if 1 \<le> n \<and> n \<le> 8 then nat n else 0
           | None \<Rightarrow> 0))"

definition proxyConfigured :: "nat \<Rightarrow> bool" where
  "proxyConfigured hops \<longleftrightarrow> 0 < hops"

definition forwarded_hops :: "string \<Rightarrow> string list" where
  "forwarded_hops forwarded = filter (\<lambda>s. s \<noteq> []) (map js_trim (split_on (CHR '','') forwarded))"

definition clientAddress :: "nat \<Rightarrow> string option \<Rightarrow> string option" where
  "clientAddress hops forwarded =
     (if hops = 0 then None
      else
        (case forwarded of
           None \<Rightarrow> None
         | Some f \<Rightarrow>
             if f = [] then None
             else let hs = forwarded_hops f
                  in if hops \<le> length hs then Some (hs ! (length hs - hops)) else None))"

section \<open>Retention\<close>

datatype Tier = Free | Pro

definition AUDIT_RETENTION_DAYS :: "Tier \<Rightarrow> int" where
  "AUDIT_RETENTION_DAYS tier = (case tier of Free \<Rightarrow> 30 | Pro \<Rightarrow> 365)"

definition auditRetentionDays :: "Tier \<Rightarrow> int" where
  "auditRetentionDays tier = AUDIT_RETENTION_DAYS tier"

definition DAY_MS :: int where
  "DAY_MS = 24 * 60 * 60 * 1000"

definition auditRetentionCutoff :: "Tier \<Rightarrow> millis \<Rightarrow> millis" where
  "auditRetentionCutoff tier now = now - auditRetentionDays tier * DAY_MS"

section \<open>The handlers\<close>

record AuditRow =
  ar_id :: ident
  ar_userId :: ident
  ar_deviceId :: "ident option"
  ar_eventType :: string
  ar_source :: AuditSource
  ar_targetRef :: "string option"
  ar_ipPrefix :: "string option"
  ar_metadata :: "(string \<times> json) list"
  ar_createdAt :: millis

definition MAX_PAGE :: int where "MAX_PAGE = 200"
definition DEFAULT_PAGE :: int where "DEFAULT_PAGE = 50"

text \<open>The argument is \<open>Number(raw)\<close>; \<open>Math.trunc\<close> rounds towards zero.\<close>

definition js_trunc :: "rat \<Rightarrow> int" where
  "js_trunc q = (if q < 0 then \<lceil>q\<rceil> else \<lfloor>q\<rfloor>)"

definition pageSize :: "jsnum \<Rightarrow> int" where
  "pageSize raw =
     (case raw of
        Num q \<Rightarrow> if js_trunc q < 1 then DEFAULT_PAGE else min (js_trunc q) MAX_PAGE
      | _ \<Rightarrow> DEFAULT_PAGE)"

definition ownedDeviceId :: "(ident \<Rightarrow> ident option) \<Rightarrow> ident \<Rightarrow> json \<Rightarrow> ident option" where
  "ownedDeviceId devices userId v =
     (case v of JStr d \<Rightarrow> if d \<noteq> [] \<and> devices d = Some userId then Some d else None | _ \<Rightarrow> None)"

record AuditPage =
  ap_events :: "AuditRow list"
  ap_nextCursor :: "millis option"
  ap_tier :: Tier
  ap_days :: int
  ap_since :: millis

text \<open>
  The query. \<open>before\<close> is absent or the cursor as a date (\<^const>\<open>None\<close> also for one that does not parse),
  and the tier of the account is an argument. \<^const>\<open>None\<close> as the answer is the 401.
\<close>

definition audit_GET ::
  "ident option \<Rightarrow> Tier \<Rightarrow> millis \<Rightarrow> jsnum \<Rightarrow> millis option \<Rightarrow> string option \<Rightarrow> AuditRow list \<Rightarrow> AuditPage option" where
  "audit_GET user tier now limit_raw before type rows =
     (case user of
        None \<Rightarrow> None
      | Some u \<Rightarrow>
          let limit = pageSize limit_raw;
              cutoff = auditRetentionCutoff tier now;
              matching = filter (\<lambda>r. ar_userId r = u \<and> cutoff \<le> ar_createdAt r
                \<and> (case before of None \<Rightarrow> True | Some b \<Rightarrow> ar_createdAt r < b)
                \<and> (case type of None \<Rightarrow> True
                   | Some t \<Rightarrow> t = [] \<or> \<not> isAuditEventType (JStr t) \<or> ar_eventType r = t)) rows;
              page = take (nat limit) (sort_key (\<lambda>r. - ar_createdAt r) matching)
          in Some \<lparr>ap_events = page,
                   ap_nextCursor = (if int (length page) = limit then Some (ar_createdAt (last page)) else None),
                   ap_tier = tier, ap_days = auditRetentionDays tier, ap_since = cutoff\<rparr>)"

definition isTargetRef :: "string \<Rightarrow> bool" where
  "isTargetRef s \<longleftrightarrow> 16 \<le> length s \<and> length s \<le> 32 \<and> list_all (\<lambda>c. is_alnum c \<or> c = CHR ''_'' \<or> c = CHR ''-'') s"

definition audit_row ::
  "(ident \<Rightarrow> ident option) \<Rightarrow> nat \<Rightarrow> string option \<Rightarrow> ident \<Rightarrow> millis \<Rightarrow> ident \<Rightarrow> string \<Rightarrow> json \<Rightarrow> (string \<times> json) list \<Rightarrow> AuditRow" where
  "audit_row devices hops forwarded uuid now u t b meta =
     \<lparr>ar_id = uuid, ar_userId = u,
      ar_deviceId = ownedDeviceId devices u (json_field b ''deviceId''),
      ar_eventType = t,
      ar_source = fst (the (map_of AUDIT_EVENTS t)),
      ar_targetRef = (case json_field b ''targetRef'' of JStr r \<Rightarrow> Some r | _ \<Rightarrow> None),
      ar_ipPrefix = ipPrefix (clientAddress hops forwarded),
      ar_metadata = meta, ar_createdAt = now\<rparr>"

definition target_ref_ok :: "json \<Rightarrow> bool" where
  "target_ref_ok v = (case v of JUndef \<Rightarrow> True | JNull \<Rightarrow> True | JStr r \<Rightarrow> isTargetRef r | _ \<Rightarrow> False)"

definition audit_POST ::
  "(rat \<Rightarrow> string) \<Rightarrow> ident option \<Rightarrow> (ident \<Rightarrow> ident option) \<Rightarrow> nat \<Rightarrow> string option \<Rightarrow> ident \<Rightarrow> millis \<Rightarrow> json option
     \<Rightarrow> AuditRow list \<Rightarrow> nat \<times> AuditRow list" where
  "audit_POST num user devices hops forwarded uuid now body rows =
     (case (user, body) of
        (None, _) \<Rightarrow> (401, rows)
      | (_, None) \<Rightarrow> (400, rows)
      | (Some u, Some b) \<Rightarrow>
          if b = JNull then (500, rows)
          else
            (case json_field b ''eventType'' of
               JStr t \<Rightarrow>
                 if \<not> isAuditEventType (JStr t) then (400, rows)
                 else if t \<notin> set CLIENT_REPORTABLE then (403, rows)
                 else
                   (case validateMetadata num t (json_field b ''metadata'') of
                      MetaThrows \<Rightarrow> (500, rows)
                    | MetaError _ \<Rightarrow> (400, rows)
                    | MetaOk meta \<Rightarrow>
                        if target_ref_ok (json_field b ''targetRef'')
                        then (201, rows @ [audit_row devices hops forwarded uuid now u t b meta])
                        else (400, rows))
             | _ \<Rightarrow> (400, rows)))"

section \<open>Facts about the metadata check\<close>

lemma check_entries_accepted:
  "check_entries type allowed entries out = MetaOk result \<Longrightarrow> (k, v) \<in> set result \<Longrightarrow>
     (k, v) \<in> set out \<or> check_key allowed k v = Accepts \<and> (k, v) \<in> set entries"
proof (induction type allowed entries out rule: check_entries.induct)
  case (2 type allowed key w rest out)
  then show ?case
    using set_update_subset [of key w out] by (auto split: key_check.splits)
qed simp

lemma check_entries_keeps:
  "check_entries type allowed entries out = MetaOk result \<Longrightarrow> distinct (map fst entries) \<Longrightarrow>
     map_of result = map_of out ++ map_of entries"
proof (induction type allowed entries out rule: check_entries.induct)
  case (2 type allowed key w rest out)
  have "map_of result = (map_of out)(key \<mapsto> w) ++ map_of rest"
    using 2 by (auto simp: AList.update_conv' fun_upd_def split: key_check.splits)
  moreover have "key \<notin> dom (map_of rest)"
    using 2(3) by (simp add: dom_map_of_conv_image_fst)
  ultimately show ?case
    by (auto simp: fun_eq_iff map_add_def domIff split: option.split)
qed simp

lemma validateMetadata_MetaOk:
  assumes "validateMetadata num type (JObj entries) = MetaOk out"
  shows "(\<exists>allowed. map_of AUDIT_METADATA type = Some allowed \<and> check_entries type allowed entries [] = MetaOk out
           \<and> length (json_text num (JObj out)) \<le> MAX_METADATA_BYTES) \<or> entries = [] \<and> out = []"
  using assms
  by (auto simp: validateMetadata_def split: option.splits MetadataResult.splits if_splits)

lemma check_key_own:
  "check_key allowed k v = Accepts \<Longrightarrow>
     k = ''constructor'' \<or> k = ''toString'' \<or> (\<exists>validator. map_of allowed k = Some validator \<and> validator v)"
  by (auto simp: check_key_def inherited_check_def split: option.splits if_splits json.splits)

lemma client_source: "t \<in> set CLIENT_REPORTABLE \<Longrightarrow> fst (the (map_of AUDIT_EVENTS t)) = Client"
  by (auto simp: CLIENT_REPORTABLE_def AUDIT_EVENTS_def)

lemma audit_row_confined:
  assumes "t \<in> set CLIENT_REPORTABLE" "target_ref_ok (json_field b ''targetRef'')"
    and r: "r = audit_row devices hops forwarded uuid now u t b meta"
  shows "ar_userId r = u \<and> ar_source r = Client \<and> ar_eventType r \<in> set CLIENT_REPORTABLE
      \<and> (case ar_deviceId r of None \<Rightarrow> True | Some d \<Rightarrow> devices d = Some u)
      \<and> (case ar_targetRef r of None \<Rightarrow> True | Some x \<Rightarrow> isTargetRef x)
      \<and> ar_ipPrefix r = ipPrefix (clientAddress hops forwarded)"
  using assms client_source [OF assms(1)]
  by (auto simp: audit_row_def ownedDeviceId_def target_ref_ok_def split: json.splits)

lemma audit_POST_cases:
  assumes "audit_POST num user devices hops forwarded uuid now body rows = (status, rows')"
  shows "status \<noteq> 201 \<and> rows' = rows
    \<or> (\<exists>u b t meta. status = 201 \<and> user = Some u \<and> t \<in> set CLIENT_REPORTABLE
         \<and> target_ref_ok (json_field b ''targetRef'')
         \<and> rows' = rows @ [audit_row devices hops forwarded uuid now u t b meta])"
  using assms unfolding audit_POST_def
  by (auto split: option.splits json.splits MetadataResult.splits if_splits)

section \<open>Facts about the page and the addresses\<close>

lemma sorted_key_prefix:
  assumes "sorted (map f xs)" "x \<in> set xs" "x \<notin> set (take n xs)" "e \<in> set (take n xs)"
  shows "f e \<le> (f x :: 'b::linorder)"
proof -
  have "x \<in> set (drop n xs)"
    using assms(2,3) by (metis append_take_drop_id set_append UnE)
  moreover have "sorted (map f (take n xs) @ map f (drop n xs))"
    using assms(1) by (metis append_take_drop_id map_append)
  ultimately show ?thesis
    using assms(4) by (simp add: sorted_append)
qed

lemma pageSize_le: "pageSize raw \<le> MAX_PAGE"
  by (auto simp: pageSize_def MAX_PAGE_def DEFAULT_PAGE_def split: jsnum.split)

lemma forwarded_hops_append:
  "forwarded_hops (spoofed @ '','' @ trusted) = forwarded_hops spoofed @ forwarded_hops trusted"
  using split_on_append [of "CHR '',''" spoofed trusted] by (simp add: forwarded_hops_def)

lemma dropWhile_none: "list_all (\<lambda>c. \<not> P c) s \<Longrightarrow> dropWhile P s = s"
  by (cases s) auto

lemma js_trim_no_space: "list_all (\<lambda>c. \<not> is_space c) s \<Longrightarrow> js_trim s = s"
  by (simp add: js_trim_def dropWhile_none)

lemma is_digit_not_special: "is_digit c \<Longrightarrow> \<not> is_space c \<and> c \<noteq> CHR ''.'' \<and> c \<noteq> CHR '':'' \<and> c \<noteq> CHR '',''"
  by (auto simp: is_digit_def is_space_def)

lemma clientAddress_suffix:
  assumes "0 < hops" "hops \<le> length (forwarded_hops trusted)"
  shows "clientAddress hops (Some (spoofed @ '','' @ trusted)) = clientAddress hops (Some trusted)
       \<and> clientAddress hops (Some trusted) = Some (forwarded_hops trusted ! (length (forwarded_hops trusted) - hops))"
proof -
  have "trusted \<noteq> []"
    using assms by (auto simp: forwarded_hops_def js_trim_def)
  moreover have "length (forwarded_hops spoofed) + length (forwarded_hops trusted) - hops
      = length (forwarded_hops spoofed) + (length (forwarded_hops trusted) - hops)"
    using assms(2) by simp
  ultimately show ?thesis
    using assms forwarded_hops_append [of spoofed trusted]
    by (auto simp: clientAddress_def Let_def nth_append)
qed

section \<open>Properties\<close>

text \<open>
  C16. What the metadata check lets through: nothing is dropped or added, the text is at most 512
  characters, and every key is one the event allows with a value its validator accepts, or one of the two
  inherited names \<open>constructor\<close> and \<open>toString\<close>.
\<close>

theorem metadata_allowlist:
  assumes ok: "validateMetadata num type (JObj entries) = MetaOk out" and keys: "distinct (map fst entries)"
  shows "map_of out = map_of entries
       \<and> (\<forall>(k, v)\<in>set out. k = ''constructor'' \<or> k = ''toString''
            \<or> (\<exists>allowed validator. map_of AUDIT_METADATA type = Some allowed
                 \<and> map_of allowed k = Some validator \<and> validator v))
       \<and> length (json_text num (JObj out)) \<le> MAX_METADATA_BYTES"
  using validateMetadata_MetaOk [OF ok]
proof (elim disjE exE conjE)
  fix allowed assume a: "map_of AUDIT_METADATA type = Some allowed" "check_entries type allowed entries [] = MetaOk out"
      "length (json_text num (JObj out)) \<le> MAX_METADATA_BYTES"
  have "map_of out = map_of entries"
    using check_entries_keeps [OF a(2) keys] by simp
  moreover have "k = ''constructor'' \<or> k = ''toString''
      \<or> (\<exists>allowed validator. map_of AUDIT_METADATA type = Some allowed \<and> map_of allowed k = Some validator \<and> validator v)"
    if "(k, v) \<in> set out" for k v
    using check_entries_accepted [OF a(2) that] check_key_own [of allowed k v] a(1) by auto
  ultimately show ?thesis
    using a(3) by blast
qed (simp add: MAX_METADATA_BYTES_def)

theorem metadata_allowlist_witness:
  "map_of [(''method'', JStr ''sso'')] ''method'' = Some (JStr ''sso'')
     \<and> length (json_text show_whole (JObj [(''method'', JStr ''sso'')])) \<le> 512"
proof -
  have "validateMetadata show_whole ''auth.signin'' (JObj [(''method'', JStr ''sso'')]) = MetaOk [(''method'', JStr ''sso'')]"
    by (simp add: validateMetadata_def AUDIT_METADATA_def check_key_def isEnum_def MAX_METADATA_BYTES_def
        json_string_def json_char_def)
  from metadata_allowlist [OF this] show ?thesis
    by (simp add: MAX_METADATA_BYTES_def del: json_text.simps)
qed

text \<open>
  The allowlist has a hole: \<open>allowed[key]\<close> also finds the inherited \<open>constructor\<close>, which answers
  every value with something truthy, so free text under that key is accepted and stored, on every event
  type, although the catalogue promises that unknown metadata keys are rejected.
\<close>

theorem metadata_allowlist_bypass:
  "list_all (\<lambda>type. validateMetadata show_whole type (JObj [(''constructor'', JStr ''cat /etc/shadow'')])
      = MetaOk [(''constructor'', JStr ''cat /etc/shadow'')]) (map fst AUDIT_EVENTS)"
proof -
  have len: "length (json_text show_whole (JObj [(''constructor'', JStr ''cat /etc/shadow'')])) = 33"
    by (simp add: json_string_def json_char_def)
  have "check_entries t allowed [(''constructor'', v)] [] = MetaOk [(''constructor'', v)]"
    if "map_of allowed ''constructor'' = None" for t allowed v
    using that by (simp add: check_key_def inherited_check_def)
  moreover have "list_all (\<lambda>t. case map_of AUDIT_METADATA t of None \<Rightarrow> False | Some a \<Rightarrow> map_of a ''constructor'' = None)
      (map fst AUDIT_EVENTS)"
    by (simp add: AUDIT_EVENTS_def AUDIT_METADATA_def)
  ultimately show ?thesis
    by (auto simp: list_all_iff validateMetadata_def len MAX_METADATA_BYTES_def simp del: json_text.simps
        split: option.splits)
qed

text \<open>
  A browser can only add rows it may report: an accepted report appends one row of a
  client-reportable type, marked \<open>client\<close>, for the signed-in account, with a device of that account or none
  and a blinded target or none; every refusal leaves the log as it was.
\<close>

theorem audit_post_is_confined:
  "case audit_POST num user devices hops forwarded uuid now body rows of (status, rows') \<Rightarrow>
     if status = 201
     then \<exists>u row. user = Some u \<and> rows' = rows @ [row] \<and> ar_userId row = u \<and> ar_source row = Client
        \<and> ar_eventType row \<in> set CLIENT_REPORTABLE
        \<and> (case ar_deviceId row of None \<Rightarrow> True | Some d \<Rightarrow> devices d = Some u)
        \<and> (case ar_targetRef row of None \<Rightarrow> True | Some r \<Rightarrow> isTargetRef r)
        \<and> ar_ipPrefix row = ipPrefix (clientAddress hops forwarded)
     else rows' = rows"
proof -
  obtain status rows' where post: "audit_POST num user devices hops forwarded uuid now body rows = (status, rows')"
    by force
  from audit_POST_cases [OF post] show ?thesis
  proof (elim disjE exE conjE)
    fix u b t meta
    assume *: "status = 201" "user = Some u" "t \<in> set CLIENT_REPORTABLE" "target_ref_ok (json_field b ''targetRef'')"
      "rows' = rows @ [audit_row devices hops forwarded uuid now u t b meta]"
    show ?thesis
      unfolding post prod.case *(1) if_P [OF refl]
      by (rule exI [of _ u], rule exI [of _ "audit_row devices hops forwarded uuid now u t b meta"])
        (use audit_row_confined [OF *(3,4) refl, of devices hops forwarded uuid now u meta] *(2,5) in simp)
  qed (simp add: post)
qed

text \<open>
  A page of the log is the account's own, inside its retention window and before the cursor, newest
  first, at most 200 rows long; a row left out of it that qualified is not newer than any row on it, so a
  reader who follows the cursor misses nothing newer.
\<close>

theorem audit_page_is_newest:
  assumes page: "audit_GET (Some u) tier now limit before None rows = Some page"
  shows "sorted_wrt (\<lambda>a b. ar_createdAt b \<le> ar_createdAt a) (ap_events page)
       \<and> length (ap_events page) \<le> 200
       \<and> (\<forall>r\<in>set (ap_events page). r \<in> set rows \<and> ar_userId r = u \<and> auditRetentionCutoff tier now \<le> ar_createdAt r
            \<and> (case before of None \<Rightarrow> True | Some b \<Rightarrow> ar_createdAt r < b))
       \<and> (\<forall>r\<in>set rows. ar_userId r = u \<and> auditRetentionCutoff tier now \<le> ar_createdAt r
            \<and> (case before of None \<Rightarrow> True | Some b \<Rightarrow> ar_createdAt r < b) \<longrightarrow>
            r \<in> set (ap_events page) \<or> (\<forall>e\<in>set (ap_events page). ar_createdAt r \<le> ar_createdAt e))"
proof -
  define keep where "keep r \<longleftrightarrow> ar_userId r = u \<and> auditRetentionCutoff tier now \<le> ar_createdAt r
            \<and> (case before of None \<Rightarrow> True | Some b \<Rightarrow> ar_createdAt r < b)" for r :: AuditRow
  define n where "n = nat (pageSize limit)"
  let ?sorted = "sort_key (\<lambda>r. - ar_createdAt r) (filter keep rows)"
  have events: "ap_events page = take n ?sorted"
    using page by (auto simp: audit_GET_def Let_def keep_def [abs_def] n_def)
  have srt: "sorted (map (\<lambda>r. - ar_createdAt r) ?sorted)"
    by simp
  have "sorted_wrt (\<lambda>a b. ar_createdAt b \<le> ar_createdAt a) (take n ?sorted)"
    using sorted_wrt_take [of "\<lambda>a b. ar_createdAt b \<le> ar_createdAt a" ?sorted n] srt
    by (simp add: sorted_wrt_map)
  moreover have "length (take n ?sorted) \<le> 200"
    using pageSize_le [of limit] by (simp add: n_def MAX_PAGE_def)
  moreover have "r \<in> set rows \<and> keep r" if "r \<in> set (take n ?sorted)" for r
    using set_take_subset [of n ?sorted] that by auto
  moreover have "r \<in> set (take n ?sorted) \<or> (\<forall>e\<in>set (take n ?sorted). ar_createdAt r \<le> ar_createdAt e)"
    if "r \<in> set rows" "keep r" for r
    using sorted_key_prefix [OF srt, of r n] that by force
  ultimately show ?thesis
    unfolding events keep_def [symmetric] by blast
qed

theorem audit_page_is_newest_witness:
  "let row = (\<lambda>i t. \<lparr>ar_id = i, ar_userId = ''u'', ar_deviceId = None, ar_eventType = ''auth.signin'', ar_source = Server,
       ar_targetRef = None, ar_ipPrefix = None, ar_metadata = [], ar_createdAt = t\<rparr>);
       page = \<lparr>ap_events = [row ''b'' 9], ap_nextCursor = Some 9, ap_tier = Free, ap_days = 30, ap_since = 10 - 30 * DAY_MS\<rparr>
   in audit_GET (Some ''u'') Free 10 (Num 1) None None [row ''a'' 5, row ''b'' 9] = Some page
      \<and> length (ap_events page) \<le> 200"
proof -
  define row where "row = (\<lambda>i t. \<lparr>ar_id = i, ar_userId = ''u'', ar_deviceId = None, ar_eventType = ''auth.signin'',
    ar_source = Server, ar_targetRef = None, ar_ipPrefix = None, ar_metadata = [], ar_createdAt = t\<rparr>)"
  define page where
    "page = \<lparr>ap_events = [row ''b'' 9], ap_nextCursor = Some 9, ap_tier = Free, ap_days = 30, ap_since = 10 - 30 * DAY_MS\<rparr>"
  have get: "audit_GET (Some ''u'') Free 10 (Num 1) None None [row ''a'' 5, row ''b'' 9] = Some page"
    by (simp add: audit_GET_def page_def row_def pageSize_def js_trunc_def MAX_PAGE_def auditRetentionCutoff_def
        auditRetentionDays_def AUDIT_RETENTION_DAYS_def DAY_MS_def)
  from audit_page_is_newest [OF get] get show ?thesis
    by (simp add: page_def row_def Let_def)
qed

text \<open>
  The client address cannot be forged: with \<open>n\<close> trusted proxies, whatever a client puts in front of
  the entries its proxies wrote, the address taken is the one the outermost trusted proxy saw.
\<close>

theorem client_address_unforgeable:
  assumes "0 < hops" "hops \<le> length (forwarded_hops trusted)"
  shows "clientAddress hops (Some (spoofed @ '','' @ trusted)) = clientAddress hops (Some trusted)
       \<and> clientAddress hops (Some trusted) = Some (forwarded_hops trusted ! (length (forwarded_hops trusted) - hops))"
  using assms by (rule clientAddress_suffix)

theorem client_address_unforgeable_witness:
  "clientAddress 1 (Some ''6.6.6.6, 1.2.3.4'') = Some ''1.2.3.4''"
  using client_address_unforgeable [of 1 "'' 1.2.3.4''" "''6.6.6.6''"]
  by (simp add: forwarded_hops_def js_trim_def is_space_def)

text \<open>
  An IPv4 address is reduced to its /24: the last octet never shows, and two addresses get one prefix
  exactly when their first three octets are written alike.
\<close>

theorem ipv4_prefix:
  assumes "list_all (\<lambda>x. 1 \<le> length x \<and> length x \<le> 3 \<and> list_all is_digit x) [a, b, c, d]"
  shows "ipPrefix (Some (join_with ''.'' [a, b, c, d])) = Some (join_with ''.'' [a, b, c] @ ''.0/24'')"
proof -
  let ?addr = "join_with ''.'' [a, b, c, d]"
  have digits: "\<forall>x\<in>set [a, b, c, d]. \<forall>y\<in>set x. is_digit y"
    using assms by (auto simp: list_all_iff)
  have chars: "is_digit x \<or> x = CHR ''.''" if "x \<in> set ?addr" for x
    using that digits by auto
  have "list_all (\<lambda>c. \<not> is_space c) ?addr"
    using chars is_digit_not_special by (force simp: list_all_iff is_space_def)
  then have "js_trim ?addr = ?addr"
    by (rule js_trim_no_space)
  moreover have "CHR '','' \<notin> set ?addr" "CHR '':'' \<notin> set ?addr"
    using chars is_digit_not_special by force+
  moreover have "split_on (CHR ''.'') ?addr = [a, b, c, d]"
    by (rule split_join) (use digits is_digit_not_special [of "CHR ''.''"] in auto)
  moreover have "?addr \<noteq> []"
    using assms by simp
  ultimately show ?thesis
    using assms by (simp add: ipPrefix_def Let_def del: join_with.simps)
qed

theorem ipv4_prefix_witness:
  "ipPrefix (Some ''203.0.113.7'') = Some ''203.0.113.0/24''"
  using ipv4_prefix [of "''203''" "''0''" "''113''" "''7''"] by (simp add: is_digit_def)

text \<open>
  Compressed IPv6 addresses get a wrong /48: the empty group of \<open>::\<close> is dropped before the first
  three groups are taken, so two addresses of the same network \<open>2001:db8::/48\<close> get different prefixes,
  and one of them the prefix of another network.
\<close>

theorem ipv6_prefix_wrong_when_compressed:
  "ipPrefix (Some ''2001:db8::1'') = Some ''2001:db8:1::/48''
     \<and> ipPrefix (Some ''2001:db8::2'') = Some ''2001:db8:2::/48''
     \<and> ipPrefix (Some ''2001:db8:1:0:0:0:0:9'') = Some ''2001:db8:1::/48''"
  by code_simp

end
