(* ===== verification/Rate_Limit.thy ===== *)
theory Rate_Limit
  imports Audit_Log
begin

text \<open>
  The limiter every rate-limited route shares (\<open>lib/rate-limit.ts\<close>): a fixed window per key, kept in the
  table \<open>rate_limit\<close>. The check and the increment are one SQL statement, so one request is one atomic
  step on the table.
\<close>

section \<open>The model\<close>

record Rule =
  max_requests :: int
  windowSeconds :: int

record Decision =
  allowed :: bool
  retryAfter :: int

definition ALLOWED :: Decision where
  "ALLOWED = \<lparr>allowed = True, retryAfter = 0\<rparr>"

record LimitRow =
  lr_count :: int
  lr_window_start :: millis

type_synonym limit_table = "string \<rightharpoonup> LimitRow"

text \<open>
  The upsert. \<open>count\<close> is a Postgres \<open>integer\<close>: an increment past its largest value is an error of the
  statement, which then changes nothing.
\<close>

definition INT4_MAX :: int where
  "INT4_MAX = 2147483647"

definition upsert :: "string \<Rightarrow> millis \<Rightarrow> int \<Rightarrow> limit_table \<Rightarrow> (LimitRow \<times> limit_table) option" where
  "upsert key now windowMs t =
     (let row = (case t key of
          None \<Rightarrow> \<lparr>lr_count = 1, lr_window_start = now\<rparr>
        | Some r \<Rightarrow>
            \<lparr>lr_count = (if windowMs \<le> now - lr_window_start r then 1 else lr_count r + 1),
             lr_window_start = (if windowMs \<le> now - lr_window_start r then now else lr_window_start r)\<rparr>)
      in if INT4_MAX < lr_count row then None else Some (row, t(key \<mapsto> row)))"

text \<open>\<open>reachable\<close> says whether the database answered; a failed statement allows the request.\<close>

definition consume :: "bool \<Rightarrow> string \<Rightarrow> Rule \<Rightarrow> millis \<Rightarrow> limit_table \<Rightarrow> Decision \<times> limit_table" where
  "consume reachable key rule now t =
     (let windowMs = windowSeconds rule * 1000 in
      if \<not> reachable then (ALLOWED, t)
      else
        (case upsert key now windowMs t of
           None \<Rightarrow> (ALLOWED, t)
         | Some (row, t') \<Rightarrow>
             if lr_count row \<le> max_requests rule then (ALLOWED, t')
             else
               let endsAt = lr_window_start row + windowMs
               in (\<lparr>allowed = False, retryAfter = max 1 \<lceil>of_int (endsAt - now) / (1000 :: rat)\<rceil>\<rparr>, t')))"

definition UNRESOLVED :: string where
  "UNRESOLVED = ''unresolved''"

definition subjectFor :: "nat \<Rightarrow> string option \<Rightarrow> string option \<Rightarrow> string" where
  "subjectFor hops forwarded userId =
     (case userId of
        Some u \<Rightarrow> if u \<noteq> [] then ''u:'' @ u else
          (if \<not> proxyConfigured hops then UNRESOLVED
           else (case ipPrefix (clientAddress hops forwarded) of Some p \<Rightarrow> ''n:'' @ p | None \<Rightarrow> UNRESOLVED))
      | None \<Rightarrow>
          (if \<not> proxyConfigured hops then UNRESOLVED
           else (case ipPrefix (clientAddress hops forwarded) of Some p \<Rightarrow> ''n:'' @ p | None \<Rightarrow> UNRESOLVED)))"

definition keyFor :: "string \<Rightarrow> string \<Rightarrow> string" where
  "keyFor bucket subject = bucket @ '':'' @ subject"

record Refusal =
  rf_status :: int
  rf_error :: string
  rf_retryAfter :: int

definition tooManyRequests :: "Decision \<Rightarrow> string option \<Rightarrow> Refusal" where
  "tooManyRequests decision message =
     (let seconds = max 1 (retryAfter decision) in
      \<lparr>rf_status = 429,
       rf_error = (case message of
          Some m \<Rightarrow> m
        | None \<Rightarrow> ''That is more requests than this endpoint accepts. Try again in '' @ show_int seconds @ '' second''
            @ (if seconds = 1 then [] else ''s'') @ ''.''),
       rf_retryAfter = seconds\<rparr>)"

definition enforce ::
  "bool \<Rightarrow> nat \<Rightarrow> string option \<Rightarrow> string \<Rightarrow> Rule \<Rightarrow> string option \<Rightarrow> string option \<Rightarrow> millis \<Rightarrow> limit_table
     \<Rightarrow> Refusal option \<times> limit_table" where
  "enforce reachable hops forwarded bucket rule userId message now t =
     (let (decision, t') = consume reachable (keyFor bucket (subjectFor hops forwarded userId)) rule now t
      in (if allowed decision then None else Some (tooManyRequests decision message), t'))"

text \<open>The storage handed to the authentication library.\<close>

record AuthLimit =
  al_key :: string
  al_count :: int
  al_lastRequest :: millis

definition authRateLimitStorage_get :: "string \<Rightarrow> limit_table \<Rightarrow> AuthLimit option" where
  "authRateLimitStorage_get key t =
     map_option (\<lambda>r. \<lparr>al_key = key, al_count = lr_count r, al_lastRequest = lr_window_start r\<rparr>) (t key)"

definition authRateLimitStorage_set :: "string \<Rightarrow> int \<Rightarrow> millis \<Rightarrow> limit_table \<Rightarrow> limit_table" where
  "authRateLimitStorage_set key count lastRequest t = t(key \<mapsto> \<lparr>lr_count = count, lr_window_start = lastRequest\<rparr>)"

definition authRateLimitStorage_consume ::
  "bool \<Rightarrow> string \<Rightarrow> int \<Rightarrow> int \<Rightarrow> millis \<Rightarrow> limit_table \<Rightarrow> (bool \<times> int option) \<times> limit_table" where
  "authRateLimitStorage_consume reachable key window max_n now t =
     (let (decision, t') = consume reachable key \<lparr>max_requests = max_n, windowSeconds = window\<rparr> now t
      in ((allowed decision, if allowed decision then None else Some (retryAfter decision)), t'))"

section \<open>A stream of requests\<close>

text \<open>
  Postgres serialises the upserts, so requests of all callers are one sequence of \<open>(key, time)\<close> pairs.
  Every key has one rule, that of the bucket in it.
\<close>

fun serve :: "(string \<Rightarrow> Rule) \<Rightarrow> (string \<times> millis) list \<Rightarrow> limit_table \<Rightarrow> (string \<times> Decision) list \<times> limit_table" where
  "serve rules [] t = ([], t)"
| "serve rules ((key, now) # reqs) t =
     (let (d, t') = consume True key (rules key) now t;
          (ds, t'') = serve rules reqs t'
      in ((key, d) # ds, t''))"

definition times_of :: "string \<Rightarrow> (string \<times> 'a) list \<Rightarrow> 'a list" where
  "times_of key reqs = map snd (filter (\<lambda>(k, _). k = key) reqs)"

section \<open>Facts about one request\<close>

lemma consume_other [simp]: "k \<noteq> key \<Longrightarrow> snd (consume r key rule now t) k = t k"
  by (auto simp: consume_def upsert_def Let_def split: option.splits)

lemma consume_open:
  assumes "case t key of None \<Rightarrow> True | Some row \<Rightarrow> windowSeconds rule * 1000 \<le> now - lr_window_start row"
  shows "snd (consume True key rule now t) key = Some \<lparr>lr_count = 1, lr_window_start = now\<rparr>
       \<and> (allowed (fst (consume True key rule now t)) \<longleftrightarrow> 1 \<le> max_requests rule)"
  using assms by (auto simp: consume_def upsert_def Let_def INT4_MAX_def ALLOWED_def split: option.splits)

lemma consume_counting:
  assumes "t key = Some \<lparr>lr_count = n, lr_window_start = start\<rparr>" "now - start < windowSeconds rule * 1000" "n < INT4_MAX"
  shows "snd (consume True key rule now t) key = Some \<lparr>lr_count = n + 1, lr_window_start = start\<rparr>
       \<and> (allowed (fst (consume True key rule now t)) \<longleftrightarrow> n + 1 \<le> max_requests rule)"
  using assms by (auto simp: consume_def upsert_def Let_def ALLOWED_def)

lemma consume_keeps_window:
  assumes "t key = Some row" "now - lr_window_start row < windowSeconds rule * 1000"
  shows "\<exists>row'. snd (consume True key rule now t) key = Some row' \<and> lr_window_start row' = lr_window_start row"
  using assms by (auto simp: consume_def upsert_def Let_def)

lemma serve_step:
  "serve rules ((key, now) # reqs) t =
     ((key, fst (consume True key (rules key) now t)) # fst (serve rules reqs (snd (consume True key (rules key) now t))),
      snd (serve rules reqs (snd (consume True key (rules key) now t))))"
  by (simp add: case_prod_beta Let_def)

lemma times_of_Cons [simp]: "times_of key ((k, x) # reqs) = (if k = key then x # times_of key reqs else times_of key reqs)"
  by (simp add: times_of_def)

lemma times_of_Nil [simp]: "times_of key [] = []"
  by (simp add: times_of_def)

text \<open>Inside a window whose count stands at \<open>n\<close>.\<close>

lemma serve_counting:
  assumes "t key = Some \<lparr>lr_count = n, lr_window_start = start\<rparr>"
    and "list_all (\<lambda>now. now - start < windowSeconds (rules key) * 1000) (times_of key reqs)"
    and "n + int (length (times_of key reqs)) \<le> INT4_MAX"
  shows "map allowed (times_of key (fst (serve rules reqs t)))
       = map (\<lambda>i. n + int i + 1 \<le> max_requests (rules key)) [0..<length (times_of key reqs)]"
  using assms
proof (induction reqs arbitrary: t n)
  case (Cons req reqs)
  obtain k now where req: "req = (k, now)"
    by force
  show ?case
  proof (cases "k = key")
    case True
    let ?c = "consume True key (rules key) now t"
    have c: "snd ?c key = Some \<lparr>lr_count = n + 1, lr_window_start = start\<rparr>"
        "allowed (fst ?c) \<longleftrightarrow> n + 1 \<le> max_requests (rules key)"
      using consume_counting [of t key n start now "rules key"] Cons.prems(1) Cons.prems(2,3) req True by auto
    have "map allowed (times_of key (fst (serve rules reqs (snd ?c))))
        = map (\<lambda>i. n + 1 + int i + 1 \<le> max_requests (rules key)) [0..<length (times_of key reqs)]"
      by (rule Cons.IH) (use c(1) Cons.prems(2,3) req True in auto)
    then show ?thesis
      using c(2) req True by (simp add: serve_step map_upt_Suc add.commute add.left_commute del: upt_Suc serve.simps)
  next
    case False
    then show ?thesis
      using Cons.prems req Cons.IH [of "snd (consume True k (rules k) now t)" n]
      by (simp add: serve_step del: serve.simps)
  qed
qed simp

lemma serve_keeps_window:
  assumes "t key = Some row"
    and "list_all (\<lambda>now. now - lr_window_start row < windowSeconds (rules key) * 1000) (times_of key reqs)"
  shows "\<exists>row'. snd (serve rules reqs t) key = Some row' \<and> lr_window_start row' = lr_window_start row"
  using assms
proof (induction reqs arbitrary: t row)
  case (Cons req reqs)
  obtain k now where req: "req = (k, now)"
    by force
  show ?case
  proof (cases "k = key")
    case True
    obtain row' where "snd (consume True key (rules key) now t) key = Some row'" "lr_window_start row' = lr_window_start row"
      using consume_keeps_window [of t key row now "rules key"] Cons.prems(1) Cons.prems(2) req True by auto
    then show ?thesis
      using Cons.IH [of _ row'] Cons.prems(2) req True by (simp add: serve_step del: serve.simps)
  next
    case False
    then show ?thesis
      using Cons.prems req Cons.IH [of "snd (consume True k (rules k) now t)" row]
      by (simp add: serve_step del: serve.simps)
  qed
qed simp

text \<open>A refusal names the second in which the window ends.\<close>

lemma consume_refused:
  assumes "consume reachable key rule now t = (d, t')" "\<not> allowed d" "1 \<le> max_requests rule"
  shows "\<exists>row. t' key = Some row
       \<and> now + 1000 * (retryAfter d - 1) < lr_window_start row + windowSeconds rule * 1000
       \<and> lr_window_start row + windowSeconds rule * 1000 \<le> now + 1000 * retryAfter d"
proof -
  obtain row where up: "upsert key now (windowSeconds rule * 1000) t = Some (row, t')" "max_requests rule < lr_count row"
      "retryAfter d = max 1 \<lceil>of_int (lr_window_start row + windowSeconds rule * 1000 - now) / (1000 :: rat)\<rceil>"
    using assms(1,2) by (auto simp: consume_def Let_def ALLOWED_def split: if_splits option.splits prod.splits)
  let ?left = "lr_window_start row + windowSeconds rule * 1000 - now"
  have row: "t' key = Some row" "0 < ?left"
    using up(1,2) assms(3) by (auto simp: upsert_def Let_def split: option.splits if_splits)
  have "of_int ?left / (1000 :: rat) \<le> of_int (retryAfter d)"
    using up(3) le_of_int_ceiling [of "of_int ?left / (1000 :: rat)"] by linarith
  then have "(of_int ?left :: rat) \<le> of_int (1000 * retryAfter d)"
    by simp
  then have le: "?left \<le> 1000 * retryAfter d"
    by linarith
  have "(0 :: rat) < of_int ?left / 1000"
    using row(2) by simp
  then have "0 < \<lceil>of_int ?left / (1000 :: rat)\<rceil>"
    by simp
  then have "retryAfter d = \<lceil>of_int ?left / (1000 :: rat)\<rceil>"
    using up(3) by simp
  then have "of_int (retryAfter d) - 1 < of_int ?left / (1000 :: rat)"
    using ceiling_correct [of "of_int ?left / (1000 :: rat)"] by simp
  then have "(of_int (1000 * (retryAfter d - 1)) :: rat) < of_int ?left"
    by simp
  then have "1000 * (retryAfter d - 1) < ?left"
    by linarith
  with le row(1) show ?thesis
    by (intro exI [of _ row]) simp
qed

lemma serve_fresh:
  assumes "case t key of None \<Rightarrow> True | Some row \<Rightarrow> windowSeconds (rules key) * 1000 \<le> start - lr_window_start row"
    and "times_of key reqs = start # later"
    and "list_all (\<lambda>now. now - start < windowSeconds (rules key) * 1000) later"
    and "int (length later) < INT4_MAX"
  shows "map allowed (times_of key (fst (serve rules reqs t)))
       = map (\<lambda>i. int i < max_requests (rules key)) [0..<Suc (length later)]"
  using assms
proof (induction reqs arbitrary: t)
  case (Cons req reqs)
  obtain k now where req: "req = (k, now)"
    by force
  show ?case
  proof (cases "k = key")
    case True
    with Cons.prems(2) req have eqs: "now = start" "times_of key reqs = later"
      by auto
    let ?c = "consume True key (rules key) start t"
    have c: "snd ?c key = Some \<lparr>lr_count = 1, lr_window_start = start\<rparr>"
        "allowed (fst ?c) \<longleftrightarrow> 1 \<le> max_requests (rules key)"
      using consume_open [where t = t and key = key and rule = "rules key" and now = start] Cons.prems(1) by auto
    have "map allowed (times_of key (fst (serve rules reqs (snd ?c))))
        = map (\<lambda>i. 1 + int i + 1 \<le> max_requests (rules key)) [0..<length (times_of key reqs)]"
      by (rule serve_counting) (use c(1) Cons.prems(3,4) eqs in auto)
    then show ?thesis
      using c(2) req True eqs
      by (auto simp add: serve_step map_upt_Suc simp del: upt_Suc serve.simps)
  next
    case False
    then show ?thesis
      using Cons.prems req Cons.IH [of "snd (consume True k (rules k) now t)"]
      by (simp add: serve_step del: serve.simps)
  qed
qed simp

section \<open>Properties\<close>

text \<open>
  C13. The window is exact: from the first request of a new window on, whatever requests other keys make in
  between, exactly the first \<open>max\<close> requests of the key are allowed and every further one inside the
  window is refused.
\<close>

theorem rate_limit_exact:
  assumes "case t key of None \<Rightarrow> True | Some row \<Rightarrow> windowSeconds (rules key) * 1000 \<le> start - lr_window_start row"
    and "times_of key reqs = start # later"
    and "list_all (\<lambda>now. now - start < windowSeconds (rules key) * 1000) later"
    and "int (length later) < INT4_MAX"
  shows "map allowed (times_of key (fst (serve rules reqs t)))
       = map (\<lambda>i. int i < max_requests (rules key)) [0..<Suc (length later)]"
  using assms by (rule serve_fresh)

theorem rate_limit_exact_witness:
  "map allowed (times_of ''a'' (fst (serve (\<lambda>_. \<lparr>max_requests = 2, windowSeconds = 60\<rparr>)
      [(''b'', 0), (''a'', 5), (''a'', 6), (''b'', 7), (''a'', 50000)] Map.empty)))
   = [True, True, False]"
  using rate_limit_exact [of "\<lambda>_. \<lparr>max_requests = 2, windowSeconds = 60\<rparr>" "''a''" 5 Map.empty
      "[(''b'', 0), (''a'', 5), (''a'', 6), (''b'', 7), (''a'', 50000)]" "[6, 50000]"]
  by (simp add: INT4_MAX_def upt_rec del: serve.simps)

text \<open>
  A refused caller is let back in when it was told to come back: knocking in the meantime does not
  extend the window, and the first request at or after the announced second is allowed.
\<close>

theorem rate_limit_retry_honoured:
  assumes refused: "consume True key (rules key) now t = (d, t')" "\<not> allowed d"
    and positive: "1 \<le> max_requests (rules key)"
    and knocking: "list_all (\<lambda>s. s \<le> now + 1000 * (retryAfter d - 1)) (times_of key reqs)"
    and returns: "now + 1000 * retryAfter d \<le> later"
  shows "fst (consume True key (rules key) later (snd (serve rules reqs t'))) = ALLOWED"
proof -
  obtain row where row: "t' key = Some row"
      "now + 1000 * (retryAfter d - 1) < lr_window_start row + windowSeconds (rules key) * 1000"
      "lr_window_start row + windowSeconds (rules key) * 1000 \<le> now + 1000 * retryAfter d"
    using consume_refused [OF refused positive] by blast
  have "list_all (\<lambda>s. s - lr_window_start row < windowSeconds (rules key) * 1000) (times_of key reqs)"
    using knocking row(2) by (auto simp: list_all_iff)
  from serve_keeps_window [of t' key row rules reqs] row(1) this obtain row' where
      "snd (serve rules reqs t') key = Some row'" "lr_window_start row' = lr_window_start row"
    by blast
  then show ?thesis
    using row(3) returns positive
    by (auto simp: consume_def upsert_def Let_def INT4_MAX_def)
qed

theorem rate_limit_retry_honoured_witness:
  "let rules = (\<lambda>_. \<lparr>max_requests = 1, windowSeconds = 60\<rparr>);
       t = [''a'' \<mapsto> \<lparr>lr_count = 1, lr_window_start = 0\<rparr>];
       (d, t') = consume True ''a'' (rules ''a'') 1000 t
   in \<not> allowed d \<and> fst (consume True ''a'' (rules ''a'') 60000 (snd (serve rules [(''a'', 3000)] t'))) = ALLOWED"
proof -
  define rules where "rules = (\<lambda>_ :: string. \<lparr>max_requests = 1, windowSeconds = 60\<rparr>)"
  define t where "t = [''a'' \<mapsto> \<lparr>lr_count = 1, lr_window_start = 0\<rparr>]"
  define d where "d = \<lparr>allowed = False, retryAfter = 59\<rparr>"
  define t' where "t' = [''a'' \<mapsto> \<lparr>lr_count = 2, lr_window_start = 0\<rparr>]"
  have c: "consume True ''a'' (rules ''a'') 1000 t = (d, t')"
    by (simp add: consume_def upsert_def rules_def t_def t'_def d_def INT4_MAX_def Let_def)
  have "fst (consume True ''a'' (rules ''a'') 60000 (snd (serve rules [(''a'', 3000)] t'))) = ALLOWED"
    by (rule rate_limit_retry_honoured [where d = d and t' = t' and t = t and now = 1000]) (use c in \<open>simp_all add: d_def rules_def\<close>)
  with c show ?thesis
    by (simp add: rules_def t_def d_def Let_def del: serve.simps)
qed

text \<open>
  Nobody picks the budget they are counted against: for a signed-in caller the headers do not matter,
  and for an anonymous one behind \<open>hops\<close> proxies whatever it wrote into \<open>X-Forwarded-For\<close> itself does
  not; two buckets never share a key.
\<close>

theorem rate_limit_subject_unforgeable:
  assumes "0 < hops" "hops \<le> length (forwarded_hops trusted)" "u \<noteq> []" "CHR '':'' \<notin> set bucket" "CHR '':'' \<notin> set bucket'"
  shows "enforce reachable hops (Some (spoofed @ '','' @ trusted)) bucket rule user message now t
           = enforce reachable hops (Some trusted) bucket rule user message now t
       \<and> enforce reachable hops forwarded bucket rule (Some u) message now t
           = enforce reachable hops None bucket rule (Some u) message now t
       \<and> (keyFor bucket subject = keyFor bucket' subject' \<longleftrightarrow> bucket = bucket' \<and> subject = subject')"
proof -
  have same: "clientAddress hops (Some (spoofed @ '','' @ trusted)) = clientAddress hops (Some trusted)"
    using clientAddress_suffix [OF assms(1,2)] by blast
  have "keyFor bucket subject = keyFor bucket' subject' \<Longrightarrow> bucket = bucket' \<and> subject = subject'"
    using assms(4,5) takeWhile_until [of "CHR '':''" bucket subject] takeWhile_until [of "CHR '':''" bucket' subject']
    by (auto simp: keyFor_def)
  then show ?thesis
    using assms(3) unfolding enforce_def subjectFor_def same by auto
qed

theorem rate_limit_subject_unforgeable_witness:
  "enforce True 1 (Some ''6.6.6.6, 1.2.3.4'') ''share'' \<lparr>max_requests = 1, windowSeconds = 60\<rparr> None None 0 Map.empty
   = enforce True 1 (Some '' 1.2.3.4'') ''share'' \<lparr>max_requests = 1, windowSeconds = 60\<rparr> None None 0 Map.empty"
  using rate_limit_subject_unforgeable [of 1 "'' 1.2.3.4''" "''u''" "''share''" "''recording''" True "''6.6.6.6''"
      "\<lparr>max_requests = 1, windowSeconds = 60\<rparr>" None None 0 Map.empty]
  by (simp add: forwarded_hops_def js_trim_def is_space_def)

end
