(* ===== verification/Billing.thy ===== *)
theory Billing
  imports Calendar Rate_Limit
begin

text \<open>
  Plans and the mirror of the payment provider's state: \<open>lib/billing/tiers.ts\<close>,
  \<open>lib/billing/subscription.ts\<close> and the webhook \<open>app/api/billing/webhook/route.ts\<close>. The provider's
  API is an argument wherever the code calls it.
\<close>

section \<open>Tiers\<close>

definition RELAY_ALLOWANCE_BYTES :: "Tier \<Rightarrow> int" where
  "RELAY_ALLOWANCE_BYTES tier = (case tier of Free \<Rightarrow> 1000000000 | Pro \<Rightarrow> 5000000000)"

definition TIER_LABELS :: "Tier \<Rightarrow> string" where
  "TIER_LABELS tier = (case tier of Free \<Rightarrow> ''Free'' | Pro \<Rightarrow> ''Pro'')"

definition SESSION_RECORDING :: "Tier \<Rightarrow> bool" where
  "SESSION_RECORDING tier = (case tier of Free \<Rightarrow> False | Pro \<Rightarrow> True)"

record SubscriptionAccess =
  sa_status :: string
  sa_currentPeriodEnd :: "millis option"
  sa_cancelAtPeriodEnd :: bool

definition GRANTS_OUTRIGHT :: "string set" where
  "GRANTS_OUTRIGHT = {''active'', ''trialing''}"

definition GRANTS_WHILE_RETRYING :: "string set" where
  "GRANTS_WHILE_RETRYING = {''past_due'', ''unpaid''}"

definition tierForSubscription :: "SubscriptionAccess option \<Rightarrow> millis \<Rightarrow> Tier" where
  "tierForSubscription sub now =
     (case sub of
        None \<Rightarrow> Free
      | Some s \<Rightarrow>
          if sa_status s \<in> GRANTS_OUTRIGHT then Pro
          else if sa_status s \<in> GRANTS_WHILE_RETRYING then
            (case sa_currentPeriodEnd s of None \<Rightarrow> Pro | Some e \<Rightarrow> if now < e then Pro else Free)
          else if sa_status s = ''canceled'' then
            (case sa_currentPeriodEnd s of
               None \<Rightarrow> Free
             | Some e \<Rightarrow> if sa_cancelAtPeriodEnd s \<and> now < e then Pro else Free)
          else Free)"

definition relayAllowanceForTier :: "Tier \<Rightarrow> int" where
  "relayAllowanceForTier tier = RELAY_ALLOWANCE_BYTES tier"

definition canRecordOnTier :: "Tier \<Rightarrow> bool" where
  "canRecordOnTier tier = SESSION_RECORDING tier"

definition periodFor :: "millis \<Rightarrow> string" where
  "periodFor t = show_int (getUTCFullYear t) @ ''-'' @ pad_int 2 (int (getUTCMonth t + 1))"

definition periodResetsAt :: "millis \<Rightarrow> millis" where
  "periodResetsAt t = date_utc (getUTCFullYear t) (getUTCMonth t + 1)"

section \<open>The mirror: reads\<close>

record SubscriptionRecord =
  stripeCustomerId :: string
  stripeSubscriptionId :: "string option"
  sub_status :: string
  stripePriceId :: "string option"
  currentPeriodEnd :: "millis option"
  cancelAtPeriodEnd :: bool
  lastEventAt :: "millis option"

record BillingState =
  bs_tier :: Tier
  bs_status :: "string option"
  bs_currentPeriodEnd :: "millis option"
  bs_cancelAtPeriodEnd :: bool
  bs_hasCustomer :: bool
  bs_degraded :: bool

text \<open>One row per user (a unique index), in whatever order the database keeps them.\<close>

type_synonym sub_table = "(ident \<times> SubscriptionRecord) list"

definition access_of :: "SubscriptionRecord \<Rightarrow> SubscriptionAccess" where
  "access_of r = \<lparr>sa_status = sub_status r, sa_currentPeriodEnd = currentPeriodEnd r, sa_cancelAtPeriodEnd = cancelAtPeriodEnd r\<rparr>"

definition subscriptionFor :: "ident \<Rightarrow> sub_table \<Rightarrow> SubscriptionRecord option" where
  "subscriptionFor userId t = map_of t userId"

text \<open>The table is \<^const>\<open>None\<close> when the query throws.\<close>

definition billingStateFor :: "ident \<Rightarrow> millis \<Rightarrow> sub_table option \<Rightarrow> BillingState" where
  "billingStateFor userId now table =
     (case table of
        None \<Rightarrow> \<lparr>bs_tier = Pro, bs_status = None, bs_currentPeriodEnd = None, bs_cancelAtPeriodEnd = False,
                 bs_hasCustomer = False, bs_degraded = True\<rparr>
      | Some t \<Rightarrow>
          let row = subscriptionFor userId t in
          \<lparr>bs_tier = tierForSubscription (map_option access_of row) now,
           bs_status = map_option sub_status row,
           bs_currentPeriodEnd = Option.bind row currentPeriodEnd,
           bs_cancelAtPeriodEnd = (case row of None \<Rightarrow> False | Some r \<Rightarrow> cancelAtPeriodEnd r),
           bs_hasCustomer = (row \<noteq> None),
           bs_degraded = False\<rparr>)"

definition tierFor :: "ident \<Rightarrow> millis \<Rightarrow> sub_table option \<Rightarrow> Tier" where
  "tierFor userId now table = bs_tier (billingStateFor userId now table)"

definition relayAllowanceFor :: "ident \<Rightarrow> millis \<Rightarrow> sub_table option \<Rightarrow> int" where
  "relayAllowanceFor userId now table = relayAllowanceForTier (tierFor userId now table)"

section \<open>The provider\<close>

text \<open>What an API call may come to: an answer, a 404, or any other failure.\<close>

datatype 'a api = Answer 'a | NotFound | Unreachable

record StripeItem =
  item_period_end :: "int option"
  item_price :: "string option"

record StripeSubscription =
  ss_id :: string
  ss_customer :: "string option"
  ss_status :: string
  ss_items :: "StripeItem list"
  ss_cancel_at_period_end :: bool
  ss_metadata_userId :: json

section \<open>The mirror: writes\<close>

definition NO_SUBSCRIPTION :: string where
  "NO_SUBSCRIPTION = ''none''"

definition TERMINAL_STATUSES :: "string set" where
  "TERMINAL_STATUSES = {NO_SUBSCRIPTION, ''canceled'', ''incomplete_expired''}"

text \<open>
  \<open>Inl\<close> is the error that blocks the deletion. \<open>cancel\<close> is the provider's \<open>subscriptions.cancel\<close>; the
  second component is the subscription it was called with, if it was.
\<close>

definition cancelSubscriptionForDeletion ::
  "(string \<Rightarrow> unit api) \<Rightarrow> ident \<Rightarrow> sub_table \<Rightarrow> (unit + string option) \<times> string option" where
  "cancelSubscriptionForDeletion cancel userId t =
     (case Option.bind (subscriptionFor userId t) (\<lambda>row. if sub_status row \<in> TERMINAL_STATUSES then None
         else case stripeSubscriptionId row of Some s \<Rightarrow> if s = [] then None else Some s | None \<Rightarrow> None) of
        None \<Rightarrow> (Inr None, None)
      | Some s \<Rightarrow>
          (case cancel s of
             Answer _ \<Rightarrow> (Inr (Some s), Some s)
           | NotFound \<Rightarrow> (Inr None, Some s)
           | Unreachable \<Rightarrow> (Inl (), Some s)))"

text \<open>
  \<open>created\<close> is the id of the customer the provider creates, if it is asked to; \<open>between\<close> is what other
  requests did to the table between the two statements.
\<close>

definition insert_customer :: "ident \<Rightarrow> string \<Rightarrow> sub_table \<Rightarrow> sub_table" where
  "insert_customer userId customer t =
     (case map_of t userId of
        Some _ \<Rightarrow> t
      | None \<Rightarrow> AList.update userId
          \<lparr>stripeCustomerId = customer, stripeSubscriptionId = None, sub_status = NO_SUBSCRIPTION, stripePriceId = None,
           currentPeriodEnd = None, cancelAtPeriodEnd = False, lastEventAt = None\<rparr> t)"

definition customerIdFor ::
  "string api \<Rightarrow> (sub_table \<Rightarrow> sub_table) \<Rightarrow> ident \<Rightarrow> sub_table \<Rightarrow> (unit + string) \<times> sub_table" where
  "customerIdFor created between userId t =
     (case subscriptionFor userId t of
        Some r \<Rightarrow> (Inr (stripeCustomerId r), t)
      | None \<Rightarrow>
          (case created of
             Answer c \<Rightarrow>
               let t' = insert_customer userId c (between t)
               in (Inr (case subscriptionFor userId t' of Some r \<Rightarrow> stripeCustomerId r | None \<Rightarrow> c), t')
           | _ \<Rightarrow> (Inl (), t)))"

definition period_step :: "int option \<Rightarrow> StripeItem \<Rightarrow> int option" where
  "period_step latest item =
     (case item_period_end item of
        None \<Rightarrow> latest
      | Some e \<Rightarrow> (case latest of None \<Rightarrow> Some e | Some l \<Rightarrow> Some (max l e)))"

definition periodEndOf :: "StripeSubscription \<Rightarrow> millis option" where
  "periodEndOf s = map_option (\<lambda>e. e * 1000) (foldl period_step None (ss_items s))"

definition priceIdOf :: "StripeSubscription \<Rightarrow> string option" where
  "priceIdOf s = (case ss_items s of [] \<Rightarrow> None | i # _ \<Rightarrow> item_price i)"

definition customerIdOf :: "StripeSubscription \<Rightarrow> string option" where
  "customerIdOf s = ss_customer s"

datatype MirrorSkip = Unattributable | StaleEvent | OtherSubscription

record MirrorOutcome =
  mo_userId :: "ident option"
  mo_skipped :: "MirrorSkip option"

definition userIdBySubscription :: "string \<Rightarrow> sub_table \<Rightarrow> ident option" where
  "userIdBySubscription s t = map_option fst (find (\<lambda>(_, r). stripeSubscriptionId r = Some s) t)"

definition userIdByCustomer :: "string \<Rightarrow> sub_table \<Rightarrow> ident option" where
  "userIdByCustomer c t = map_option fst (find (\<lambda>(_, r). stripeCustomerId r = c) t)"

definition metadataUserId :: "StripeSubscription \<Rightarrow> ident option" where
  "metadataUserId s = (case ss_metadata_userId s of JStr u \<Rightarrow> if u \<noteq> [] then Some u else None | _ \<Rightarrow> None)"

definition incoming_access :: "StripeSubscription \<Rightarrow> SubscriptionAccess" where
  "incoming_access s = \<lparr>sa_status = ss_status s, sa_currentPeriodEnd = periodEndOf s, sa_cancelAtPeriodEnd = ss_cancel_at_period_end s\<rparr>"

definition stillGranting :: "(string \<Rightarrow> StripeSubscription api) \<Rightarrow> millis \<Rightarrow> string \<Rightarrow> bool" where
  "stillGranting retrieve now subscriptionId =
     (case retrieve subscriptionId of
        Answer current \<Rightarrow> tierForSubscription (Some (incoming_access current)) now = Pro
      | NotFound \<Rightarrow> False
      | Unreachable \<Rightarrow> True)"

definition attributed :: "StripeSubscription \<Rightarrow> sub_table \<Rightarrow> ident option" where
  "attributed s t =
     (case userIdBySubscription (ss_id s) t of
        Some u \<Rightarrow> Some u
      | None \<Rightarrow>
          (case (case customerIdOf s of Some c \<Rightarrow> if c \<noteq> [] then userIdByCustomer c t else None | None \<Rightarrow> None) of
             Some u \<Rightarrow> Some u
           | None \<Rightarrow> metadataUserId s))"

definition mirrored_row :: "StripeSubscription \<Rightarrow> string \<Rightarrow> millis \<Rightarrow> SubscriptionRecord" where
  "mirrored_row s customerId eventAt =
     \<lparr>stripeCustomerId = customerId, stripeSubscriptionId = Some (ss_id s), sub_status = ss_status s,
      stripePriceId = priceIdOf s, currentPeriodEnd = periodEndOf s,
      cancelAtPeriodEnd = ss_cancel_at_period_end s, lastEventAt = Some eventAt\<rparr>"

text \<open>
  \<open>users\<close> are the accounts: the row's foreign key refuses any other, which is the \<open>Inl\<close> (a throw).
\<close>

definition mirrorSubscription ::
  "(ident \<Rightarrow> bool) \<Rightarrow> (string \<Rightarrow> StripeSubscription api) \<Rightarrow> millis \<Rightarrow> StripeSubscription \<Rightarrow> millis \<Rightarrow> sub_table
     \<Rightarrow> (unit + MirrorOutcome) \<times> sub_table" where
  "mirrorSubscription users retrieve now s eventAt t =
     (case (attributed s t, customerIdOf s) of
        (Some userId, Some customerId) \<Rightarrow>
          if userId = [] \<or> customerId = [] then (Inr \<lparr>mo_userId = None, mo_skipped = Some Unattributable\<rparr>, t)
          else
            let existing = subscriptionFor userId t;
                same = (case existing of None \<Rightarrow> False | Some e \<Rightarrow> stripeSubscriptionId e = Some (ss_id s))
            in if same \<and> (case Option.bind existing lastEventAt of None \<Rightarrow> False | Some l \<Rightarrow> eventAt < l)
               then (Inr \<lparr>mo_userId = Some userId, mo_skipped = Some StaleEvent\<rparr>, t)
               else if (case existing of None \<Rightarrow> False | Some e \<Rightarrow>
                     (case stripeSubscriptionId e of None \<Rightarrow> False | Some other \<Rightarrow>
                        \<not> same \<and> tierForSubscription (Some (access_of e)) now = Pro
                        \<and> tierForSubscription (Some (incoming_access s)) now \<noteq> Pro
                        \<and> stillGranting retrieve now other))
               then (Inr \<lparr>mo_userId = Some userId, mo_skipped = Some OtherSubscription\<rparr>, t)
               else if \<not> users userId then (Inl (), t)
               else (Inr \<lparr>mo_userId = Some userId, mo_skipped = None\<rparr>,
                     AList.update userId (mirrored_row s customerId eventAt) t)
      | _ \<Rightarrow> (Inr \<lparr>mo_userId = None, mo_skipped = Some Unattributable\<rparr>, t))"

section \<open>The webhook\<close>

datatype EventObject =
    CheckoutCompleted string "string option"
  | SubscriptionCreated StripeSubscription
  | SubscriptionUpdated StripeSubscription
  | SubscriptionDeleted StripeSubscription
  | InvoicePaymentFailed "string option"
  | OtherObject string

record StripeEvent =
  ev_id :: string
  ev_created :: int
  ev_object :: EventObject

fun event_type :: "EventObject \<Rightarrow> string" where
  "event_type (CheckoutCompleted _ _) = ''checkout.session.completed''"
| "event_type (SubscriptionCreated _) = ''customer.subscription.created''"
| "event_type (SubscriptionUpdated _) = ''customer.subscription.updated''"
| "event_type (SubscriptionDeleted _) = ''customer.subscription.deleted''"
| "event_type (InvoicePaymentFailed _) = ''invoice.payment_failed''"
| "event_type (OtherObject type) = type"

definition HANDLED :: "string set" where
  "HANDLED = {''checkout.session.completed'', ''customer.subscription.created'', ''customer.subscription.updated'',
     ''customer.subscription.deleted'', ''invoice.payment_failed''}"

text \<open>\<open>Inl\<close> is a throw inside \<open>handle\<close>.\<close>

definition mirror_event ::
  "(ident \<Rightarrow> bool) \<Rightarrow> (string \<Rightarrow> StripeSubscription api) \<Rightarrow> millis \<Rightarrow> StripeSubscription \<Rightarrow> StripeEvent \<Rightarrow> sub_table
     \<Rightarrow> (unit + unit) \<times> sub_table" where
  "mirror_event users retrieve now s event t =
     (case mirrorSubscription users retrieve now s (ev_created event * 1000) t of
        (Inl e, t') \<Rightarrow> (Inl e, t')
      | (Inr _, t') \<Rightarrow> (Inr (), t'))"

definition mirror_retrieved ::
  "(ident \<Rightarrow> bool) \<Rightarrow> (string \<Rightarrow> StripeSubscription api) \<Rightarrow> millis \<Rightarrow> string option \<Rightarrow> StripeEvent \<Rightarrow> sub_table
     \<Rightarrow> (unit + unit) \<times> sub_table" where
  "mirror_retrieved users retrieve now subscriptionId event t =
     (case subscriptionId of
        None \<Rightarrow> (Inr (), t)
      | Some sid \<Rightarrow>
          if sid = [] then (Inr (), t)
          else (case retrieve sid of Answer s \<Rightarrow> mirror_event users retrieve now s event t | _ \<Rightarrow> (Inl (), t)))"

definition handle ::
  "(ident \<Rightarrow> bool) \<Rightarrow> (string \<Rightarrow> StripeSubscription api) \<Rightarrow> millis \<Rightarrow> StripeEvent \<Rightarrow> sub_table \<Rightarrow> (unit + unit) \<times> sub_table" where
  "handle users retrieve now event t =
     (case ev_object event of
        CheckoutCompleted mode sid \<Rightarrow>
          if mode \<noteq> ''subscription'' then (Inr (), t) else mirror_retrieved users retrieve now sid event t
      | SubscriptionCreated s \<Rightarrow> mirror_event users retrieve now s event t
      | SubscriptionUpdated s \<Rightarrow> mirror_event users retrieve now s event t
      | SubscriptionDeleted s \<Rightarrow> mirror_event users retrieve now s event t
      | InvoicePaymentFailed sid \<Rightarrow> mirror_retrieved users retrieve now sid event t
      | OtherObject _ \<Rightarrow> (Inr (), t))"

record BillingDb =
  stripeEvents :: "string set"
  subscriptions :: sub_table

datatype WebhookAnswer = Processed | Deduplicated | Ignored | NotConfigured | MissingSignature | BadSignature | NotRecorded | Failed

fun answer_status :: "WebhookAnswer \<Rightarrow> nat" where
  "answer_status Processed = 200"
| "answer_status Deduplicated = 200"
| "answer_status Ignored = 200"
| "answer_status NotConfigured = 503"
| "answer_status MissingSignature = 400"
| "answer_status BadSignature = 400"
| "answer_status NotRecorded = 500"
| "answer_status Failed = 500"

text \<open>
  \<open>verify\<close> is the provider library's signature check; \<open>claim_ok\<close> and \<open>release_ok\<close> say whether the two
  statements on \<open>stripe_event\<close> succeed.
\<close>

definition webhook_POST ::
  "bool \<Rightarrow> (string \<Rightarrow> string \<Rightarrow> StripeEvent option) \<Rightarrow> (ident \<Rightarrow> bool) \<Rightarrow> (string \<Rightarrow> StripeSubscription api) \<Rightarrow> bool \<Rightarrow> bool
     \<Rightarrow> millis \<Rightarrow> string option \<Rightarrow> string \<Rightarrow> BillingDb \<Rightarrow> WebhookAnswer \<times> BillingDb" where
  "webhook_POST configured verify users retrieve claim_ok release_ok now signature raw db =
     (if \<not> configured then (NotConfigured, db)
      else
        (case signature of
           None \<Rightarrow> (MissingSignature, db)
         | Some sig \<Rightarrow>
             if sig = [] then (MissingSignature, db)
             else
               (case verify raw sig of
                  None \<Rightarrow> (BadSignature, db)
                | Some event \<Rightarrow>
                    if \<not> claim_ok then (NotRecorded, db)
                    else if ev_id event \<in> stripeEvents db then (Deduplicated, db)
                    else
                      let db1 = db\<lparr>stripeEvents := insert (ev_id event) (stripeEvents db)\<rparr> in
                      if event_type (ev_object event) \<notin> HANDLED then (Ignored, db1)
                      else
                        (case handle users retrieve now event (subscriptions db1) of
                           (Inr _, t) \<Rightarrow> (Processed, db1\<lparr>subscriptions := t\<rparr>)
                         | (Inl _, t) \<Rightarrow>
                             (Failed, db1\<lparr>subscriptions := t,
                                stripeEvents := (if release_ok then stripeEvents db1 - {ev_id event} else stripeEvents db1)\<rparr>)))))"

section \<open>Facts about the period\<close>

lemma periodFor_eq_iff: "periodFor s = periodFor t \<longleftrightarrow> month_index s = month_index t"
proof -
  have m: "getUTCMonth u + 1 < 100" for u
    using getUTCMonth_le [of u] by simp
  have "periodFor s = periodFor t \<longleftrightarrow> show_int (getUTCFullYear s) = show_int (getUTCFullYear t)
      \<and> pad_int 2 (int (getUTCMonth s + 1)) = pad_int 2 (int (getUTCMonth t + 1))"
    unfolding periodFor_def pad_two [OF m] by auto
  also have "\<dots> \<longleftrightarrow> getUTCFullYear s = getUTCFullYear t \<and> getUTCMonth s = getUTCMonth t"
    unfolding pad_two_inject [OF m m] show_int_inject by simp
  finally show ?thesis
    by (simp add: month_index_eq_iff)
qed

section \<open>Facts about the mirror\<close>

lemma find_unique:
  assumes "x \<in> set xs" "P x" "\<And>y. y \<in> set xs \<Longrightarrow> P y \<Longrightarrow> f y = f x"
  shows "map_option f (find P xs) = Some (f x)"
proof -
  have "find P xs \<noteq> None"
    using assms(1,2) by (auto simp: find_None_iff)
  then obtain y where y: "find P xs = Some y" by auto
  then have "y \<in> set xs" "P y"
    by (auto simp: find_Some_iff)
  with assms(3) y show ?thesis by simp
qed

text \<open>
  The table attributes subscription \<open>sid\<close> and customer \<open>c\<close> to \<open>u\<close> alone, and the row of \<open>u\<close> carries
  what was last delivered of that subscription: nothing yet, or the object and stamp \<open>cur\<close>.
\<close>

definition mirrors :: "ident \<Rightarrow> string \<Rightarrow> string \<Rightarrow> (StripeSubscription \<times> millis) option \<Rightarrow> sub_table \<Rightarrow> bool" where
  "mirrors u sid c cur t \<longleftrightarrow>
     (\<forall>(v, r)\<in>set t. stripeSubscriptionId r = Some sid \<or> stripeCustomerId r = c \<longrightarrow> v = u)
     \<and> (case cur of
          None \<Rightarrow> (\<exists>r. map_of t u = Some r \<and> stripeCustomerId r = c \<and> stripeSubscriptionId r = None)
        | Some (s, stamp) \<Rightarrow> map_of t u = Some (mirrored_row s c stamp) \<and> ss_id s = sid)"

lemma mirrors_attributed:
  assumes "mirrors u sid c cur t" "ss_id s = sid" "ss_customer s = Some c" "c \<noteq> []"
  shows "attributed s t = Some u"
proof -
  obtain r where r: "(u, r) \<in> set t" "stripeCustomerId r = c"
    using assms(1) by (auto simp: mirrors_def mirrored_row_def split: option.splits dest!: map_of_SomeD)
  have by_customer: "userIdByCustomer c t = Some u"
    unfolding userIdByCustomer_def using assms(1) r
    by (subst find_unique [of "(u, r)"]) (auto simp: mirrors_def)
  have "userIdBySubscription sid t = None \<or> userIdBySubscription sid t = Some u"
  proof (cases "find (\<lambda>(_, r). stripeSubscriptionId r = Some sid) t")
    case (Some x)
    then have "x \<in> set t" "stripeSubscriptionId (snd x) = Some sid"
      by (auto simp: find_Some_iff dest: nth_mem)
    then have "fst x = u"
      using assms(1) unfolding mirrors_def by force
    with Some show ?thesis by (simp add: userIdBySubscription_def)
  qed (simp add: userIdBySubscription_def)
  then show ?thesis
    using by_customer assms(2-4) by (auto simp: attributed_def customerIdOf_def)
qed

definition newer :: "('a \<times> millis) option \<Rightarrow> 'a \<times> millis \<Rightarrow> ('a \<times> millis) option" where
  "newer cur d = (case cur of None \<Rightarrow> Some d | Some (_, stamp) \<Rightarrow> if snd d < stamp then cur else Some d)"

lemma mirrors_step:
  assumes "mirrors u sid c cur t" "ss_id s = sid" "ss_customer s = Some c" "c \<noteq> []" "u \<noteq> []" "users u"
  shows "mirrors u sid c (newer cur (s, stamp)) (snd (mirrorSubscription users retrieve now s stamp t))"
    and "v \<noteq> u \<Longrightarrow> subscriptionFor v (snd (mirrorSubscription users retrieve now s stamp t)) = subscriptionFor v t"
proof -
  let ?new = "AList.update u (mirrored_row s c stamp) t"
  have rows: "snd (mirrorSubscription users retrieve now s stamp t) =
      (case cur of None \<Rightarrow> ?new | Some (_, prev) \<Rightarrow> if stamp < prev then t else ?new)"
    using mirrors_attributed [OF assms(1-4)] assms
    by (cases cur) (auto simp: mirrorSubscription_def mirrors_def subscriptionFor_def mirrored_row_def customerIdOf_def Let_def)
  have new: "mirrors u sid c (Some (s, stamp)) ?new"
    using assms(1,2) set_update_subset [of u "mirrored_row s c stamp" t]
    by (fastforce simp: mirrors_def update_conv')
  show "mirrors u sid c (newer cur (s, stamp)) (snd (mirrorSubscription users retrieve now s stamp t))"
    unfolding rows using assms(1) new by (auto simp: newer_def split: option.splits)
  show "v \<noteq> u \<Longrightarrow> subscriptionFor v (snd (mirrorSubscription users retrieve now s stamp t)) = subscriptionFor v t"
    unfolding rows by (auto simp: subscriptionFor_def update_conv' split: option.splits)
qed

text \<open>A sequence of deliveries: the object, Stripe's stamp and the time it arrived.\<close>

fun deliver ::
  "(ident \<Rightarrow> bool) \<Rightarrow> (string \<Rightarrow> StripeSubscription api) \<Rightarrow> ((StripeSubscription \<times> millis) \<times> millis) list \<Rightarrow> sub_table \<Rightarrow> sub_table" where
  "deliver users retrieve [] t = t"
| "deliver users retrieve (((s, stamp), now) # ds) t =
     deliver users retrieve ds (snd (mirrorSubscription users retrieve now s stamp t))"

lemma deliver_mirrors:
  assumes "mirrors u sid c cur t" "c \<noteq> []" "u \<noteq> []" "users u"
    and "list_all (\<lambda>((s, _), _). ss_id s = sid \<and> ss_customer s = Some c) ds"
  shows "mirrors u sid c (foldl newer cur (map fst ds)) (deliver users retrieve ds t)
       \<and> (v \<noteq> u \<longrightarrow> subscriptionFor v (deliver users retrieve ds t) = subscriptionFor v t)"
  using assms(1,5)
proof (induction ds arbitrary: cur t)
  case (Cons d ds)
  obtain s stamp now where d: "d = ((s, stamp), now)"
    by (metis prod.exhaust)
  have ids: "ss_id s = sid" "ss_customer s = Some c"
    using Cons.prems(2) d by auto
  note step = mirrors_step [where users = users and stamp = stamp and retrieve = retrieve and now = now, OF Cons.prems(1) ids assms(2-4)]
  show ?case
    using Cons.IH [OF step(1)] step(2) [of v] Cons.prems(2) d by auto
qed simp

text \<open>Of deliveries with different stamps the latest remains, in whatever order they came.\<close>

lemma newer_cases:
  obtains x where "cur = Some x" "newer cur d = Some x" "snd d < snd x"
    | "newer cur d = Some d" "\<And>x. cur = Some x \<Longrightarrow> snd x \<le> snd d"
  by (cases cur) (force simp: newer_def split: if_splits prod.splits)+

lemma foldl_newer_latest:
  "foldl newer cur ds = Some best \<Longrightarrow> cur = Some best \<or> best \<in> set ds"
proof (induction ds arbitrary: cur)
  case (Cons d ds)
  then show ?case
    using Cons.IH [of "newer cur d"] by (cases rule: newer_cases [of cur d]) auto
qed simp

lemma foldl_newer_bound:
  "foldl newer cur ds = Some best \<Longrightarrow> d \<in> set ds \<or> cur = Some d \<Longrightarrow> snd d \<le> snd best"
proof (induction ds arbitrary: cur d)
  case (Cons e ds)
  have ih: "x \<in> set ds \<or> newer cur e = Some x \<Longrightarrow> snd x \<le> snd best" for x
    using Cons.IH [of "newer cur e" x] Cons.prems(1) by simp
  show ?case
  proof (cases rule: newer_cases [of cur e])
    case (1 x)
    then show ?thesis using ih [of x] ih [of d] Cons.prems(2) by auto
  next
    case 2
    have "snd e \<le> snd best" using ih [of e] 2(1) by simp
    with 2(2) [of d] show ?thesis using ih [of d] Cons.prems(2) by auto
  qed
qed auto

lemma foldl_newer_Some: "ds \<noteq> [] \<Longrightarrow> foldl newer cur ds \<noteq> None"
proof -
  have keep: "foldl newer (Some d) ds \<noteq> None" for d and ds :: "('a \<times> millis) list"
    by (induction ds arbitrary: d) (auto simp: newer_def split: if_splits)
  assume "ds \<noteq> []"
  then show ?thesis
    using keep by (cases ds; cases cur) (auto simp: newer_def split: if_splits)
qed

lemma mirrorSubscription_throws: "fst (mirrorSubscription users retrieve now s stamp t) = Inl e \<Longrightarrow>
    snd (mirrorSubscription users retrieve now s stamp t) = t"
  by (auto simp: mirrorSubscription_def Let_def split: option.splits if_splits)

lemma mirror_event_throws: "mirror_event users retrieve now s event t = (Inl e, t') \<Longrightarrow> t' = t"
  using mirrorSubscription_throws [of users retrieve now s "ev_created event * 1000" t]
  by (auto simp: mirror_event_def split: prod.splits sum.splits)

lemma mirror_retrieved_throws: "mirror_retrieved users retrieve now sid event t = (Inl e, t') \<Longrightarrow> t' = t"
  using mirror_event_throws by (auto simp: mirror_retrieved_def split: option.splits if_splits api.splits)

lemma handle_throws: "handle users retrieve now event t = (Inl e, t') \<Longrightarrow> t' = t"
  using mirror_event_throws mirror_retrieved_throws
  by (auto simp: handle_def split: EventObject.splits if_splits)

section \<open>Properties\<close>

text \<open>
  The billing period is a partition of time: two instants have the same period exactly when the second
  lies between the first of that month and the announced reset, and the reset is always in the future.
\<close>

theorem period_partition:
  "t < periodResetsAt t
     \<and> (periodFor s = periodFor t \<longleftrightarrow> date_utc (getUTCFullYear t) (getUTCMonth t) \<le> s \<and> s < periodResetsAt t)"
  using month_interval [OF getUTCMonth_le [of t], of t "getUTCFullYear t"]
    month_interval [OF getUTCMonth_le [of t], of s "getUTCFullYear t"]
  by (simp add: periodFor_eq_iff month_index_eq_iff periodResetsAt_def)





text \<open>
  The ordering guard does not reach across subscriptions: once a later subscription \<open>B\<close> has been mirrored
  and cancelled, a retried \<open>active\<close> event of the long cancelled subscription \<open>A\<close> is accepted, and the
  account is on Pro for good although both of its subscriptions have ended.
\<close>

theorem stale_grant_after_resubscribing:
  "let sub = (\<lambda>i st. \<lparr>ss_id = i, ss_customer = Some ''cus'', ss_status = st, ss_items = [], ss_cancel_at_period_end = False,
        ss_metadata_userId = JNull\<rparr>);
       row = \<lparr>stripeCustomerId = ''cus'', stripeSubscriptionId = None, sub_status = ''none'', stripePriceId = None,
        currentPeriodEnd = None, cancelAtPeriodEnd = False, lastEventAt = None\<rparr>;
       retrieve = (\<lambda>i. Answer (sub i ''canceled''));
       t = deliver (\<lambda>_. True) retrieve
         [((sub ''A'' ''canceled'', 2), 2), ((sub ''B'' ''active'', 3), 3), ((sub ''B'' ''canceled'', 4), 4),
          ((sub ''A'' ''active'', 1), 5)] [(''u'', row)]
   in tierFor ''u'' later (Some t) = Pro"
  by code_simp

text \<open>
  Two tabs that start a checkout agree on one Stripe customer: whatever other requests do in between, the
  customer returned is the one stored, and every later call returns it again.
\<close>

theorem customer_is_reused:
  assumes "customerIdFor created between u t = (Inr c, t')"
  shows "map_option stripeCustomerId (subscriptionFor u t') = Some c
       \<and> customerIdFor created' between' u t' = (Inr c, t')"
  using assms
  by (auto simp: customerIdFor_def insert_customer_def subscriptionFor_def Let_def update_conv'
      split: option.splits api.splits if_splits)

theorem customer_is_reused_witness:
  "let t = insert_customer ''u'' ''cus_1'' []
   in customerIdFor (Answer ''cus_2'') (insert_customer ''u'' ''cus_1'') ''u'' [] = (Inr ''cus_1'', t)
      \<and> customerIdFor (Answer ''cus_3'') (\<lambda>x. x) ''u'' t = (Inr ''cus_1'', t)"
proof -
  have first: "customerIdFor (Answer ''cus_2'') (insert_customer ''u'' ''cus_1'') ''u'' []
      = (Inr ''cus_1'', insert_customer ''u'' ''cus_1'' [])"
    by (simp add: customerIdFor_def insert_customer_def subscriptionFor_def)
  show ?thesis
    using customer_is_reused [OF first, of "Answer ''cus_3''" "\<lambda>x. x"] first by (simp add: Let_def)
qed

text \<open>
  An account is only deleted when nothing can charge it any more: unless the deletion is blocked, the
  subscription the row names is in a terminal status, is unknown to Stripe, or has just been cancelled there.
\<close>

theorem deletion_leaves_nothing_live:
  assumes "cancelSubscriptionForDeletion cancel u t = (Inr result, called)"
    and "subscriptionFor u t = Some row" "stripeSubscriptionId row = Some s" "s \<noteq> []"
  shows "sub_status row \<in> TERMINAL_STATUSES \<and> called = None
       \<or> called = Some s \<and> (cancel s = Answer () \<and> result = Some s \<or> cancel s = NotFound \<and> result = None)"
  using assms by (auto simp: cancelSubscriptionForDeletion_def split: if_splits api.splits)

theorem deletion_leaves_nothing_live_witness:
  "let row = \<lparr>stripeCustomerId = ''cus'', stripeSubscriptionId = Some ''sub'', sub_status = ''paused'', stripePriceId = None,
        currentPeriodEnd = None, cancelAtPeriodEnd = False, lastEventAt = None\<rparr>
   in cancelSubscriptionForDeletion (\<lambda>_. Answer ()) ''u'' [(''u'', row)] = (Inr (Some ''sub''), Some ''sub'')"
proof -
  define row where "row = \<lparr>stripeCustomerId = ''cus'', stripeSubscriptionId = Some ''sub'', sub_status = ''paused'',
    stripePriceId = None, currentPeriodEnd = None, cancelAtPeriodEnd = False, lastEventAt = None\<rparr>"
  obtain result called where c: "cancelSubscriptionForDeletion (\<lambda>_. Answer ()) ''u'' [(''u'', row)] = (Inr result, called)"
    by (simp add: cancelSubscriptionForDeletion_def subscriptionFor_def row_def TERMINAL_STATUSES_def NO_SUBSCRIPTION_def)
  from deletion_leaves_nothing_live [OF c, of row "''sub''"] c show ?thesis
    by (simp add: row_def Let_def subscriptionFor_def TERMINAL_STATUSES_def NO_SUBSCRIPTION_def)
qed

end
