(* ===== verification/Relay_Usage.thy ===== *)
theory Relay_Usage
  imports Billing Base64
begin

text \<open>
  Relay transfer accounting (\<open>lib/usage.ts\<close>, \<open>app/api/relay/usage/route.ts\<close>): what the relay reports is
  validated, folded per account and added to the month's row; the meter reads the same row. Connection
  events become audit rows.
\<close>

section \<open>Wire shapes\<close>

record RelayUsageEntry =
  ue_subject :: string
  ue_bytesUp :: int
  ue_bytesDown :: int

definition MAX_AUDIT_INT :: rat where
  "MAX_AUDIT_INT = 10 ^ 12"

fun json_int :: "json \<Rightarrow> int" where
  "json_int (JNum (Num q)) = \<lfloor>q\<rfloor>"
| "json_int _ = 0"

definition isCount :: "json \<Rightarrow> bool" where
  "isCount v = (case v of JNum (Num q) \<Rightarrow> of_int \<lfloor>q\<rfloor> = q \<and> 0 \<le> q \<and> q < MAX_AUDIT_INT | _ \<Rightarrow> False)"

definition is_object :: "json \<Rightarrow> bool" where
  "is_object v = (case v of JObj _ \<Rightarrow> True | JArr _ \<Rightarrow> True | _ \<Rightarrow> False)"

definition isRelayConnectionEvent :: "json \<Rightarrow> bool" where
  "isRelayConnectionEvent e \<longleftrightarrow>
     is_object e
     \<and> (json_field e ''kind'' = JStr ''connection.opened'' \<or> json_field e ''kind'' = JStr ''connection.closed'')
     \<and> (case json_field e ''subject'' of JStr s \<Rightarrow> s \<noteq> [] \<and> length s \<le> 128 | _ \<Rightarrow> False)
     \<and> (js_isInteger (json_field e ''port'') \<and> 1 \<le> json_int (json_field e ''port'') \<and> json_int (json_field e ''port'') \<le> 65535)
     \<and> (case json_field e ''targetRef'' of JUndef \<Rightarrow> True | JStr r \<Rightarrow> r \<noteq> [] \<and> length r \<le> 64 | _ \<Rightarrow> False)
     \<and> (json_field e ''kind'' = JStr ''connection.closed'' \<longrightarrow>
          isCount (json_field e ''bytesUp'') \<and> isCount (json_field e ''bytesDown'') \<and> isCount (json_field e ''durationMs''))"

definition MAX_EVENTS_PER_BATCH :: nat where "MAX_EVENTS_PER_BATCH = 500"
definition MAX_BYTES_PER_ENTRY :: rat where "MAX_BYTES_PER_ENTRY = 1000000000000000"
definition MAX_ENTRIES_PER_BATCH :: nat where "MAX_ENTRIES_PER_BATCH = 500"

definition MAX_SAFE_INTEGER :: rat where
  "MAX_SAFE_INTEGER = 9007199254740991"

definition is_byte_count :: "json \<Rightarrow> bool" where
  "is_byte_count v =
     (case v of
        JNum (Num q) \<Rightarrow> of_int \<lfloor>q\<rfloor> = q \<and> \<bar>q\<bar> \<le> MAX_SAFE_INTEGER \<and> 0 \<le> q \<and> q \<le> MAX_BYTES_PER_ENTRY
      | _ \<Rightarrow> False)"

definition isRelayUsageEntry :: "json \<Rightarrow> bool" where
  "isRelayUsageEntry e \<longleftrightarrow>
     is_object e
     \<and> (case json_field e ''subject'' of JStr s \<Rightarrow> 0 < length s \<and> length s \<le> 256 | _ \<Rightarrow> False)
     \<and> is_byte_count (json_field e ''bytesUp'') \<and> is_byte_count (json_field e ''bytesDown'')"

fun json_str :: "json \<Rightarrow> string" where
  "json_str (JStr s) = s"
| "json_str _ = []"

definition as_entry :: "json \<Rightarrow> RelayUsageEntry" where
  "as_entry e = \<lparr>ue_subject = json_str (json_field e ''subject''), ue_bytesUp = json_int (json_field e ''bytesUp''),
     ue_bytesDown = json_int (json_field e ''bytesDown'')\<rparr>"

definition isAnonymousSubject :: "string \<Rightarrow> bool" where
  "isAnonymousSubject subject = starts_with ''anon:'' subject"

section \<open>The meter\<close>

record RelayUsage =
  ru_period :: string
  ru_resetsAt :: string
  ru_bytesUp :: int
  ru_bytesDown :: int
  ru_bytesTotal :: int
  ru_allowanceBytes :: int
  ru_tier :: string
  ru_reportingConfigured :: bool
  ru_updatedAt :: "string option"

datatype UsageState = UsageOk | Approaching | Over

text \<open>
  The quotients are exact here. In doubles they are correctly rounded, and two different byte counts below
  \<open>2^53\<close> over one allowance of at most \<open>5 * 10^9\<close> never round across the thresholds 0.8 and 1.
\<close>

definition APPROACHING_FRACTION :: rat where
  "APPROACHING_FRACTION = 8 / 10"

definition usageState :: "RelayUsage \<Rightarrow> UsageState" where
  "usageState usage =
     (if ru_allowanceBytes usage \<le> 0 then UsageOk
      else
        let used = of_int (ru_bytesTotal usage) / of_int (ru_allowanceBytes usage) in
        if 1 \<le> used then Over else if APPROACHING_FRACTION \<le> used then Approaching else UsageOk)"

text \<open>\<open>Math.round\<close> rounds a half upwards.\<close>

definition usagePercent :: "RelayUsage \<Rightarrow> int" where
  "usagePercent usage =
     (if ru_allowanceBytes usage \<le> 0 then 0
      else min 100 \<lfloor>of_int (ru_bytesTotal usage) / of_int (ru_allowanceBytes usage) * (100 :: rat) + 1 / 2\<rfloor>)"

definition bytesRemaining :: "RelayUsage \<Rightarrow> int" where
  "bytesRemaining usage = max 0 (ru_allowanceBytes usage - ru_bytesTotal usage)"

section \<open>Ingest\<close>

record UsageRow =
  us_bytesUp :: int
  us_bytesDown :: int
  us_updatedAt :: millis

type_synonym usage_table = "ident \<times> string \<rightharpoonup> UsageRow"

definition authorised :: "string option \<Rightarrow> string option \<Rightarrow> bool" where
  "authorised secret header =
     (case secret of
        None \<Rightarrow> False
      | Some s \<Rightarrow>
          if s = [] then False
          else
            let h = (case header of None \<Rightarrow> [] | Some h \<Rightarrow> h);
                presented = (if starts_with ''Bearer '' h then drop 7 h else [])
            in length (utf8 presented) = length (utf8 s) \<and> utf8 presented = utf8 s)"

definition event_metadata :: "json \<Rightarrow> (string \<times> json) list" where
  "event_metadata e =
     (if json_field e ''kind'' = JStr ''connection.opened'' then [(''port'', json_field e ''port'')]
      else [(''bytesUp'', json_field e ''bytesUp''), (''bytesDown'', json_field e ''bytesDown''),
            (''durationMs'', json_field e ''durationMs'')])"

definition event_row :: "ident \<Rightarrow> millis \<Rightarrow> json \<Rightarrow> AuditRow" where
  "event_row uuid now e =
     \<lparr>ar_id = uuid, ar_userId = json_str (json_field e ''subject''), ar_deviceId = None,
      ar_eventType = json_str (json_field e ''kind''), ar_source = Relay,
      ar_targetRef = (case json_field e ''targetRef'' of JStr r \<Rightarrow> Some r | _ \<Rightarrow> None),
      ar_ipPrefix = None, ar_metadata = event_metadata e, ar_createdAt = now\<rparr>"

record EventsAnswer =
  ea_status :: nat
  ea_recorded :: nat
  ea_dropped :: nat

definition recordConnectionEvents ::
  "(ident \<Rightarrow> bool) \<Rightarrow> (nat \<Rightarrow> ident) \<Rightarrow> millis \<Rightarrow> json list \<Rightarrow> AuditRow list \<Rightarrow> EventsAnswer \<times> AuditRow list" where
  "recordConnectionEvents users uuid now events audit =
     (if MAX_EVENTS_PER_BATCH < length events then (\<lparr>ea_status = 413, ea_recorded = 0, ea_dropped = 0\<rparr>, audit)
      else
        let valid = filter isRelayConnectionEvent events;
            named = filter (\<lambda>e. \<not> isAnonymousSubject (json_str (json_field e ''subject''))) valid;
            known = filter (\<lambda>e. users (json_str (json_field e ''subject''))) named;
            rows = map (\<lambda>(i, e). event_row (uuid i) now e) (enumerate 0 known)
        in (\<lparr>ea_status = 200, ea_recorded = length rows, ea_dropped = length events - length rows\<rparr>, audit @ rows))"

text \<open>
  A sum of doubles is exact up to \<open>2^53\<close>; past it the result is rounded, by a function that is an argument.
\<close>

definition js_plus :: "(int \<Rightarrow> int) \<Rightarrow> int \<Rightarrow> int \<Rightarrow> int" where
  "js_plus rnd a b = (if a + b \<le> 2 ^ 53 then a + b else rnd (a + b))"

definition fold_entry :: "(int \<Rightarrow> int) \<Rightarrow> (ident \<times> int \<times> int) list \<Rightarrow> RelayUsageEntry \<Rightarrow> (ident \<times> int \<times> int) list" where
  "fold_entry rnd totals entry =
     (let (up, down) = (case map_of totals (ue_subject entry) of None \<Rightarrow> (0, 0) | Some t \<Rightarrow> t)
      in AList.update (ue_subject entry) (js_plus rnd up (ue_bytesUp entry), js_plus rnd down (ue_bytesDown entry)) totals)"

definition INT8_MAX :: int where
  "INT8_MAX = 9223372036854775807"

definition add_usage :: "string \<Rightarrow> millis \<Rightarrow> usage_table \<Rightarrow> ident \<times> int \<times> int \<Rightarrow> usage_table" where
  "add_usage period now t r =
     (case r of (u, up, down) \<Rightarrow>
        t((u, period) \<mapsto>
          (case t (u, period) of
             None \<Rightarrow> \<lparr>us_bytesUp = up, us_bytesDown = down, us_updatedAt = now\<rparr>
           | Some row \<Rightarrow> \<lparr>us_bytesUp = us_bytesUp row + up, us_bytesDown = us_bytesDown row + down, us_updatedAt = now\<rparr>)))"

text \<open>The upsert of the whole batch; \<^const>\<open>None\<close> is the error of a \<open>bigint\<close> that overflows, which changes nothing.\<close>

definition upsert_usage :: "string \<Rightarrow> millis \<Rightarrow> (ident \<times> int \<times> int) list \<Rightarrow> usage_table \<Rightarrow> usage_table option" where
  "upsert_usage period now rows t =
     (let t' = foldl (add_usage period now) t rows in
      if list_ex (\<lambda>(u, _). case t' (u, period) of None \<Rightarrow> False
           | Some row \<Rightarrow> INT8_MAX < us_bytesUp row \<or> INT8_MAX < us_bytesDown row) rows
      then None else Some t')"

record UsageAnswer =
  ua_status :: nat
  ua_recorded :: nat
  ua_anonymous :: nat
  ua_unknown :: nat
  ua_malformed :: nat

definition usage_error :: "nat \<Rightarrow> UsageAnswer" where
  "usage_error status = \<lparr>ua_status = status, ua_recorded = 0, ua_anonymous = 0, ua_unknown = 0, ua_malformed = 0\<rparr>"

definition recordUsage ::
  "(int \<Rightarrow> int) \<Rightarrow> (ident \<Rightarrow> bool) \<Rightarrow> millis \<Rightarrow> json list \<Rightarrow> usage_table \<Rightarrow> UsageAnswer \<times> usage_table" where
  "recordUsage rnd users now entries t =
     (if MAX_ENTRIES_PER_BATCH < length entries then (usage_error 413, t)
      else
        let valid = map as_entry (filter isRelayUsageEntry entries);
            named = filter (\<lambda>e. \<not> isAnonymousSubject (ue_subject e)) valid;
            totals = foldl (fold_entry rnd) [] named;
            rows = filter (\<lambda>(u, up, down). users u \<and> (0 < up \<or> 0 < down)) totals
        in case upsert_usage (periodFor now) now rows t of
             None \<Rightarrow> (usage_error 500, t)
           | Some t' \<Rightarrow>
               (\<lparr>ua_status = 200, ua_recorded = length rows, ua_anonymous = length valid - length named,
                 ua_unknown = length totals - length (filter (\<lambda>(u, _). users u) totals),
                 ua_malformed = length entries - length valid\<rparr>, t'))"

datatype UsagePost = UsagePosted UsageAnswer | EventsPosted EventsAnswer

definition usage_POST ::
  "(int \<Rightarrow> int) \<Rightarrow> (ident \<Rightarrow> bool) \<Rightarrow> (nat \<Rightarrow> ident) \<Rightarrow> millis \<Rightarrow> string option \<Rightarrow> string option \<Rightarrow> json option
     \<Rightarrow> usage_table \<times> AuditRow list \<Rightarrow> UsagePost \<times> usage_table \<times> AuditRow list" where
  "usage_POST rnd users uuid now secret header body db =
     (case db of (t, audit) \<Rightarrow>
        if \<not> authorised secret header then (UsagePosted (usage_error 401), t, audit)
        else
          (case body of
             None \<Rightarrow> (UsagePosted (usage_error 400), t, audit)
           | Some b \<Rightarrow>
               if b = JNull then (UsagePosted (usage_error 500), t, audit)
               else
                 (case json_field b ''events'' of
                    JArr events \<Rightarrow> (case recordConnectionEvents users uuid now events audit of (a, audit') \<Rightarrow> (EventsPosted a, t, audit'))
                  | _ \<Rightarrow>
                      (case json_field b ''entries'' of
                         JArr entries \<Rightarrow> (case recordUsage rnd users now entries t of (a, t') \<Rightarrow> (UsagePosted a, t', audit))
                       | _ \<Rightarrow> (UsagePosted (usage_error 400), t, audit)))))"

text \<open>\<^const>\<open>None\<close> is the 401; \<open>reporting\<close> says whether \<open>RELAY_USAGE_SECRET\<close> is set.\<close>

definition usage_GET :: "bool \<Rightarrow> ident option \<Rightarrow> millis \<Rightarrow> sub_table option \<Rightarrow> usage_table \<Rightarrow> RelayUsage option" where
  "usage_GET reporting user now subs t =
     (case user of
        None \<Rightarrow> None
      | Some u \<Rightarrow>
          let row = t (u, periodFor now);
              up = (case row of None \<Rightarrow> 0 | Some r \<Rightarrow> us_bytesUp r);
              down = (case row of None \<Rightarrow> 0 | Some r \<Rightarrow> us_bytesDown r)
          in Some \<lparr>ru_period = periodFor now, ru_resetsAt = toISOString (periodResetsAt now), ru_bytesUp = up,
                   ru_bytesDown = down, ru_bytesTotal = up + down, ru_allowanceBytes = relayAllowanceFor u now subs,
                   ru_tier = TIER_LABELS (tierFor u now subs), ru_reportingConfigured = reporting,
                   ru_updatedAt = map_option (\<lambda>r. toISOString (us_updatedAt r)) row\<rparr>)"

section \<open>Facts about the fold and the upsert\<close>

definition bytes_used :: "usage_table \<Rightarrow> ident \<times> string \<Rightarrow> int \<times> int" where
  "bytes_used t k = (case t k of None \<Rightarrow> (0, 0) | Some r \<Rightarrow> (us_bytesUp r, us_bytesDown r))"

text \<open>What a batch reports of one account, and in all.\<close>

definition reported :: "(RelayUsageEntry \<Rightarrow> int) \<Rightarrow> ident \<Rightarrow> RelayUsageEntry list \<Rightarrow> int" where
  "reported f u es = sum_list (map f (filter (\<lambda>e. ue_subject e = u) es))"

definition valid_entries :: "json list \<Rightarrow> RelayUsageEntry list" where
  "valid_entries entries = map as_entry (filter isRelayUsageEntry entries)"

lemma is_byte_count_nonneg: "is_byte_count v \<Longrightarrow> 0 \<le> json_int v"
  by (cases v rule: json_int.cases) (simp_all add: is_byte_count_def)

lemma valid_entries_nonneg: "e \<in> set (valid_entries entries) \<Longrightarrow> 0 \<le> ue_bytesUp e \<and> 0 \<le> ue_bytesDown e"
  using is_byte_count_nonneg by (auto simp: valid_entries_def as_entry_def isRelayUsageEntry_def)

lemma reported_bounds:
  "list_all (\<lambda>e. 0 \<le> f e) es \<Longrightarrow> 0 \<le> reported f u es \<and> reported f u es \<le> sum_list (map f es)"
  by (induction es) (auto simp: reported_def)

lemma reported_append: "reported f u (es @ es') = reported f u es + reported f u es'"
  by (simp add: reported_def)

lemma reported_absent: "u \<notin> ue_subject ` set es \<Longrightarrow> reported f u es = 0"
  by (induction es) (auto simp: reported_def)

lemma reported_single: "reported f u [e] = (if ue_subject e = u then f e else 0)"
  by (simp add: reported_def)

lemma map_of_fold_entry:
  "map_of (fold_entry rnd totals e) u =
     (if u = ue_subject e then
        (case map_of totals u of
           None \<Rightarrow> Some (js_plus rnd 0 (ue_bytesUp e), js_plus rnd 0 (ue_bytesDown e))
         | Some (up, down) \<Rightarrow> Some (js_plus rnd up (ue_bytesUp e), js_plus rnd down (ue_bytesDown e)))
      else map_of totals u)"
  by (auto simp: fold_entry_def update_conv' split: option.splits prod.splits)

lemma fold_entries:
  assumes "list_all (\<lambda>e. 0 \<le> ue_bytesUp e \<and> 0 \<le> ue_bytesDown e) es"
    and "sum_list (map ue_bytesUp es) \<le> 2 ^ 53" "sum_list (map ue_bytesDown es) \<le> 2 ^ 53"
  shows "map_of (foldl (fold_entry rnd) [] es) u =
      (if u \<in> ue_subject ` set es then Some (reported ue_bytesUp u es, reported ue_bytesDown u es) else None)"
  using assms
proof (induction es arbitrary: u rule: rev_induct)
  case (snoc e es)
  have nonneg: "list_all (\<lambda>e. 0 \<le> ue_bytesUp e) es" "list_all (\<lambda>e. 0 \<le> ue_bytesDown e) es"
    using snoc.prems(1) by (auto simp: list_all_iff)
  have e: "0 \<le> ue_bytesUp e" "0 \<le> ue_bytesDown e"
    using snoc.prems(1) by simp_all
  have ih: "map_of (foldl (fold_entry rnd) [] es) v =
      (if v \<in> ue_subject ` set es then Some (reported ue_bytesUp v es, reported ue_bytesDown v es) else None)" for v
    using snoc e by simp
  have none: "ue_subject e \<notin> ue_subject ` set es \<Longrightarrow> reported f (ue_subject e) es = 0" for f
    by (rule reported_absent)
  have "js_plus rnd (reported ue_bytesUp (ue_subject e) es) (ue_bytesUp e) = reported ue_bytesUp (ue_subject e) es + ue_bytesUp e"
      "js_plus rnd (reported ue_bytesDown (ue_subject e) es) (ue_bytesDown e) = reported ue_bytesDown (ue_subject e) es + ue_bytesDown e"
    using reported_bounds [OF nonneg(1), of "ue_subject e"] reported_bounds [OF nonneg(2), of "ue_subject e"] snoc.prems(2,3)
    by (auto simp: js_plus_def)
  then show ?case
    using ih none [of ue_bytesUp] none [of ue_bytesDown]
    by (auto simp: map_of_fold_entry reported_append reported_single)
qed simp

lemma fold_entries_distinct: "distinct (map fst totals) \<Longrightarrow> distinct (map fst (foldl (fold_entry rnd) totals es))"
  by (induction es arbitrary: totals) (auto simp: fold_entry_def distinct_update split: prod.splits option.splits)

lemma kept_total:
  assumes "distinct (map fst totals)"
  shows "map_of (filter keep totals) u = Option.bind (map_of totals u) (\<lambda>x. if keep (u, x) then Some x else None)"
  using assms
proof (induction totals)
  case (Cons total totals)
  then have "map_of totals (fst total) = None \<and> map_of (filter keep totals) (fst total) = None"
    by (auto simp: map_of_eq_None_iff)
  with Cons show ?case
    by (cases total) auto
qed simp

lemma bytes_used_add_usage:
  "bytes_used (add_usage period now t (u, up, down)) k =
     (if k = (u, period) then (fst (bytes_used t k) + up, snd (bytes_used t k) + down) else bytes_used t k)"
  by (auto simp: bytes_used_def add_usage_def split: option.splits)

lemma bytes_used_upsert:
  "distinct (map fst rows) \<Longrightarrow>
     bytes_used (foldl (add_usage period now) t rows) (u, p) =
       (case (if p = period then map_of rows u else None) of
          None \<Rightarrow> bytes_used t (u, p)
        | Some (up, down) \<Rightarrow> (fst (bytes_used t (u, p)) + up, snd (bytes_used t (u, p)) + down))"
proof (induction rows arbitrary: t)
  case (Cons r rows)
  obtain v up down where r: "r = (v, up, down)"
    by (metis prod.exhaust)
  then have "v \<notin> fst ` set rows"
    using Cons.prems by auto
  then have "map_of rows v = None"
    by (simp add: map_of_eq_None_iff)
  with Cons r show ?case
    by (auto simp: bytes_used_add_usage split: option.splits)
qed simp

lemma recordUsage_ok:
  assumes "recordUsage rnd users now entries t = (a, t')" "ua_status a = 200"
  shows "t' = foldl (add_usage (periodFor now) now) t
      (filter (\<lambda>(u, up, down). users u \<and> (0 < up \<or> 0 < down))
        (foldl (fold_entry rnd) [] (filter (\<lambda>e. \<not> isAnonymousSubject (ue_subject e)) (valid_entries entries))))"
  using assms
  by (auto simp: recordUsage_def upsert_usage_def usage_error_def valid_entries_def Let_def split: if_splits)

lemma reported_filter: "(\<And>e. ue_subject e = u \<Longrightarrow> P e) \<Longrightarrow> reported f u (filter P es) = reported f u es"
  by (induction es) (auto simp: reported_def)

lemma sum_filter_le: "list_all (\<lambda>e. 0 \<le> f e) es \<Longrightarrow> sum_list (map f (filter P es)) \<le> (sum_list (map f es) :: int)"
  by (induction es) auto

lemma recordUsage_bytes:
  assumes post: "recordUsage rnd users now entries t = (a, t')" "ua_status a = 200"
    and exact: "sum_list (map ue_bytesUp (valid_entries entries)) \<le> 2 ^ 53"
      "sum_list (map ue_bytesDown (valid_entries entries)) \<le> 2 ^ 53"
  shows "bytes_used t' (u, p) =
      (if p = periodFor now \<and> users u \<and> \<not> isAnonymousSubject u
       then (fst (bytes_used t (u, p)) + reported ue_bytesUp u (valid_entries entries),
             snd (bytes_used t (u, p)) + reported ue_bytesDown u (valid_entries entries))
       else bytes_used t (u, p))"
proof -
  let ?valid = "valid_entries entries"
  let ?named = "filter (\<lambda>e. \<not> isAnonymousSubject (ue_subject e)) ?valid"
  let ?totals = "foldl (fold_entry rnd) [] ?named"
  have nonneg: "list_all (\<lambda>e. 0 \<le> ue_bytesUp e \<and> 0 \<le> ue_bytesDown e) ?named"
      "list_all (\<lambda>e. 0 \<le> ue_bytesUp e) ?valid" "list_all (\<lambda>e. 0 \<le> ue_bytesDown e) ?valid"
      "list_all (\<lambda>e. 0 \<le> ue_bytesUp e) ?named" "list_all (\<lambda>e. 0 \<le> ue_bytesDown e) ?named"
    using valid_entries_nonneg [of _ entries] by (auto simp: list_all_iff)
  have totals: "map_of ?totals u = (if u \<in> ue_subject ` set ?named
      then Some (reported ue_bytesUp u ?named, reported ue_bytesDown u ?named) else None)"
    by (rule fold_entries [OF nonneg(1) order_trans [OF sum_filter_le [OF nonneg(2)] exact(1)]
          order_trans [OF sum_filter_le [OF nonneg(3)] exact(2)]])
  have dist: "distinct (map fst ?totals)"
    by (rule fold_entries_distinct) simp
  have same: "\<not> isAnonymousSubject u \<Longrightarrow> reported f u ?named = reported f u ?valid" for f
    by (rule reported_filter) auto
  have absent: "u \<notin> ue_subject ` set ?named \<Longrightarrow> reported f u ?named = 0" for f
    by (rule reported_absent)
  have anon: "isAnonymousSubject u \<Longrightarrow> u \<notin> ue_subject ` set ?named"
    by auto
  show ?thesis
    unfolding recordUsage_ok [OF post] bytes_used_upsert [OF distinct_map_filter [OF dist]] kept_total [OF dist] totals
    using reported_bounds [OF nonneg(4), of u] reported_bounds [OF nonneg(5), of u] same [of ue_bytesUp]
      same [of ue_bytesDown] absent [of ue_bytesUp] absent [of ue_bytesDown] anon
    by (cases "isAnonymousSubject u"; cases "users u"; cases "p = periodFor now"; cases "u \<in> ue_subject ` set ?named")
      (simp_all add: prod_eq_iff)
qed

lemma isCount_isSmallInt: "isCount v = isSmallInt v"
  unfolding isCount_def isSmallInt_def MAX_AUDIT_INT_def by (rule refl)

lemma port_isSmallInt:
  "js_isInteger v \<Longrightarrow> 1 \<le> json_int v \<Longrightarrow> json_int v \<le> 65535 \<Longrightarrow> isSmallInt v"
proof (cases v rule: js_isInteger.cases)
  case (1 q)
  assume "js_isInteger v" "1 \<le> json_int v" "json_int v \<le> 65535"
  with 1 have q: "of_int \<lfloor>q\<rfloor> = q" "1 \<le> \<lfloor>q\<rfloor>" "\<lfloor>q\<rfloor> \<le> 65535"
    by auto
  then have "(1 :: rat) \<le> of_int \<lfloor>q\<rfloor>" "of_int \<lfloor>q\<rfloor> \<le> (65535 :: rat)"
    by linarith+
  with q(1) 1 show ?thesis
    by (simp add: isSmallInt_def)
qed simp_all

lemma event_metadata_allowed:
  assumes "isRelayConnectionEvent e"
  shows "\<exists>allowed. map_of AUDIT_METADATA (json_str (json_field e ''kind'')) = Some allowed
       \<and> check_entries (json_str (json_field e ''kind'')) allowed (event_metadata e) [] = MetaOk (event_metadata e)"
proof -
  have kinds: "json_field e ''kind'' = JStr ''connection.opened'' \<or> json_field e ''kind'' = JStr ''connection.closed''"
    and port: "isSmallInt (json_field e ''port'')"
    and closed: "json_field e ''kind'' = JStr ''connection.closed'' \<Longrightarrow>
      isSmallInt (json_field e ''bytesUp'') \<and> isSmallInt (json_field e ''bytesDown'') \<and> isSmallInt (json_field e ''durationMs'')"
    using assms port_isSmallInt unfolding isRelayConnectionEvent_def isCount_isSmallInt by blast+
  from kinds show ?thesis
    using port closed by (elim disjE) (simp_all add: AUDIT_METADATA_def event_metadata_def check_key_def)
qed

section \<open>Properties\<close>

text \<open>
  Reported transfer is added exactly: an accepted batch raises the current month's total of each existing
  account by precisely the sum of its valid entries, and touches no other account, month or total. Batches
  of several relays therefore add up in whatever order they land.
\<close>

theorem relay_usage_adds:
  assumes post: "recordUsage rnd users now entries t = (a, t')" "ua_status a = 200"
    and exact: "sum_list (map ue_bytesUp (valid_entries entries)) \<le> 2 ^ 53"
      "sum_list (map ue_bytesDown (valid_entries entries)) \<le> 2 ^ 53"
  shows "bytes_used t' (u, p) =
      (if p = periodFor now \<and> users u \<and> \<not> isAnonymousSubject u
       then (fst (bytes_used t (u, p)) + reported ue_bytesUp u (valid_entries entries),
             snd (bytes_used t (u, p)) + reported ue_bytesDown u (valid_entries entries))
       else bytes_used t (u, p))"
  using assms by (rule recordUsage_bytes)

theorem relay_usage_adds_witness:
  "let e = JObj [(''subject'', JStr ''u''), (''bytesUp'', JNum (Num 5)), (''bytesDown'', JNum (Num 7))]
   in bytes_used (snd (recordUsage (\<lambda>i. i) (\<lambda>_. True) 0 [e, JNull, e] Map.empty)) (''u'', periodFor 0) = (10, 14)"
proof -
  define e where "e = JObj [(''subject'', JStr ''u''), (''bytesUp'', JNum (Num 5)), (''bytesDown'', JNum (Num 7))]"
  have valid: "valid_entries [e, JNull, e] = [as_entry e, as_entry e]"
    and entry: "as_entry e = \<lparr>ue_subject = ''u'', ue_bytesUp = 5, ue_bytesDown = 7\<rparr>"
    by (simp_all add: valid_entries_def isRelayUsageEntry_def is_object_def e_def is_byte_count_def as_entry_def
        MAX_SAFE_INTEGER_def MAX_BYTES_PER_ENTRY_def)
  obtain a t' where post: "recordUsage (\<lambda>i. i) (\<lambda>_. True) 0 [e, JNull, e] Map.empty = (a, t')"
    by force
  have "ua_status a = 200"
    using post valid [unfolded valid_entries_def]
    by (auto simp: recordUsage_def Let_def entry MAX_ENTRIES_PER_BATCH_def isAnonymousSubject_def fold_entry_def js_plus_def
        upsert_usage_def add_usage_def INT8_MAX_def)
  from relay_usage_adds [OF post this, of "''u''" "periodFor 0"] show ?thesis
    unfolding e_def [symmetric] Let_def post snd_conv
    by (simp add: valid entry reported_def isAnonymousSubject_def bytes_used_def)
qed

text \<open>
  The relay can write connection rows and nothing else into the audit log: rows of the two connection
  types, of source \<open>relay\<close>, for accounts that exist, at most 500 at a time, and with metadata that the
  event's own allowlist accepts although this path does not call it.
\<close>

theorem relay_events_confined:
  assumes "recordConnectionEvents users uuid now events audit = (a, audit')"
  shows "\<exists>rows. audit' = audit @ rows \<and> length rows = ea_recorded a \<and> length rows \<le> 500
       \<and> list_all (\<lambda>r. ar_source r = Relay \<and> users (ar_userId r) \<and> \<not> isAnonymousSubject (ar_userId r)
            \<and> (ar_eventType r = ''connection.opened'' \<or> ar_eventType r = ''connection.closed'')
            \<and> (\<exists>allowed. map_of AUDIT_METADATA (ar_eventType r) = Some allowed
                 \<and> check_entries (ar_eventType r) allowed (ar_metadata r) [] = MetaOk (ar_metadata r))) rows"
proof (cases "MAX_EVENTS_PER_BATCH < length events")
  case True
  with assms show ?thesis
    by (intro exI [of _ "[]"]) (auto simp: recordConnectionEvents_def)
next
  case False
  define kept where "kept = filter (\<lambda>e. users (json_str (json_field e ''subject'')))
    (filter (\<lambda>e. \<not> isAnonymousSubject (json_str (json_field e ''subject''))) (filter isRelayConnectionEvent events))"
  define rows where "rows = map (\<lambda>(i, e). event_row (uuid i) now e) (enumerate 0 kept)"
  have result: "audit' = audit @ rows" "ea_recorded a = length rows"
    using assms False by (auto simp: recordConnectionEvents_def Let_def kept_def rows_def)
  have "length kept \<le> length events"
    unfolding kept_def by (meson length_filter_le order_trans)
  then have len: "length rows \<le> 500"
    using False by (simp add: rows_def MAX_EVENTS_PER_BATCH_def)
  have "ar_source r = Relay \<and> users (ar_userId r) \<and> \<not> isAnonymousSubject (ar_userId r)
      \<and> (ar_eventType r = ''connection.opened'' \<or> ar_eventType r = ''connection.closed'')
      \<and> (\<exists>allowed. map_of AUDIT_METADATA (ar_eventType r) = Some allowed
           \<and> check_entries (ar_eventType r) allowed (ar_metadata r) [] = MetaOk (ar_metadata r))" if r: "r \<in> set rows" for r
  proof -
    obtain p where p: "p \<in> set (enumerate 0 kept)" "r = event_row (uuid (fst p)) now (snd p)"
      using r by (auto simp: rows_def)
    define e where "e = snd p"
    have e: "e \<in> set kept" "r = event_row (uuid (fst p)) now e"
      using p nth_mem [of "fst p" kept] by (auto simp: in_set_enumerate_eq e_def)
    then have "isRelayConnectionEvent e" "users (json_str (json_field e ''subject''))"
        "\<not> isAnonymousSubject (json_str (json_field e ''subject''))"
      by (auto simp: kept_def)
    then show ?thesis
      using event_metadata_allowed [of e] by (auto simp: e(2) event_row_def isRelayConnectionEvent_def)
  qed
  with result len show ?thesis
    by (intro exI [of _ rows]) (simp add: list_all_iff)
qed

theorem relay_events_confined_witness:
  "let e = JObj [(''kind'', JStr ''connection.opened''), (''subject'', JStr ''u''), (''port'', JNum (Num 22))]
   in snd (recordConnectionEvents (\<lambda>_. True) (\<lambda>_. ''id'') 3 [e] []) = [event_row ''id'' 3 e]
      \<and> length (snd (recordConnectionEvents (\<lambda>_. True) (\<lambda>_. ''id'') 3 [e] [])) \<le> 500"
proof -
  define e where "e = JObj [(''kind'', JStr ''connection.opened''), (''subject'', JStr ''u''), (''port'', JNum (Num 22))]"
  obtain a audit' where post: "recordConnectionEvents (\<lambda>_. True) (\<lambda>_. ''id'') 3 [e] [] = (a, audit')"
    by force
  have "isRelayConnectionEvent e"
    by (simp add: e_def isRelayConnectionEvent_def is_object_def)
  then have "audit' = [event_row ''id'' 3 e]"
    using post by (simp add: recordConnectionEvents_def MAX_EVENTS_PER_BATCH_def isAnonymousSubject_def e_def)
  with relay_events_confined [OF post] post show ?thesis
    unfolding e_def [symmetric] Let_def by auto
qed

end
