(* ===== verification/Relay_Token.thy ===== *)
theory Relay_Token
  imports Relay_Usage
begin

text \<open>
  The relay token mint (\<open>app/api/relay-token/route.ts\<close>): who is asking, the limit, the monthly allowance,
  the ownership of an agent, and the claims the relay will trust. The HMAC and the number printer of
  \<open>JSON.stringify\<close> are arguments.
\<close>

section \<open>The model\<close>

definition TTL_SECONDS :: int where "TTL_SECONDS = 60"
definition ANON_TTL_SECONDS :: int where "ANON_TTL_SECONDS = 30"
definition MAX_PORT :: int where "MAX_PORT = 65535"
definition MINT_LIMIT :: Rule where "MINT_LIMIT = \<lparr>max_requests = 60, windowSeconds = 60\<rparr>"

definition b64url :: "byte list \<Rightarrow> string" where
  "b64url buf = toB64Url buf"

record TokenSubject =
  ts_sub :: string
  ts_ttl :: int
  ts_anonymous :: bool
  ts_cookie :: "string option"

text \<open>The last field is the cookie that is set, if one is; \<open>uuid\<close> is the fresh identifier.\<close>

definition token_subjectFor :: "ident option \<Rightarrow> string option \<Rightarrow> string \<Rightarrow> TokenSubject" where
  "token_subjectFor session cookie uuid =
     (case session of
        Some u \<Rightarrow> \<lparr>ts_sub = u, ts_ttl = TTL_SECONDS, ts_anonymous = False, ts_cookie = None\<rparr>
      | None \<Rightarrow>
          (case cookie of
             Some c \<Rightarrow>
               if isUuid (JStr c) then \<lparr>ts_sub = ''anon:'' @ c, ts_ttl = ANON_TTL_SECONDS, ts_anonymous = True, ts_cookie = None\<rparr>
               else \<lparr>ts_sub = ''anon:'' @ uuid, ts_ttl = ANON_TTL_SECONDS, ts_anonymous = True, ts_cookie = Some uuid\<rparr>
           | None \<Rightarrow> \<lparr>ts_sub = ''anon:'' @ uuid, ts_ttl = ANON_TTL_SECONDS, ts_anonymous = True, ts_cookie = Some uuid\<rparr>))"

record Exhausted =
  ex_usedBytes :: int
  ex_allowanceBytes :: int
  ex_resetsAt :: string

text \<open>\<^const>\<open>None\<close> is \<open>over: false\<close>; the table is \<^const>\<open>None\<close> when the query throws.\<close>

definition allowanceCheck :: "ident \<Rightarrow> millis \<Rightarrow> sub_table option \<Rightarrow> usage_table option \<Rightarrow> Exhausted option" where
  "allowanceCheck userId now subs usage =
     (case usage of
        None \<Rightarrow> None
      | Some t \<Rightarrow>
          let allowanceBytes = relayAllowanceFor userId now subs;
              usedBytes = (case t (userId, periodFor now) of None \<Rightarrow> 0 | Some r \<Rightarrow> us_bytesUp r + us_bytesDown r)
          in if usedBytes < allowanceBytes then None
             else Some \<lparr>ex_usedBytes = usedBytes, ex_allowanceBytes = allowanceBytes,
                        ex_resetsAt = toISOString (periodResetsAt now)\<rparr>)"

datatype Destination = ToHost string json | ToAgent ident

record Claims =
  cl_sub :: string
  cl_dest :: Destination
  cl_ref :: "string option"
  cl_exp :: int

definition claims_json :: "Claims \<Rightarrow> json" where
  "claims_json c =
     JObj ([(''sub'', JStr (cl_sub c))]
       @ (case cl_dest c of ToHost host port \<Rightarrow> [(''host'', JStr host), (''port'', port)] | ToAgent a \<Rightarrow> [(''agent'', JStr a)])
       @ (case cl_ref c of None \<Rightarrow> [] | Some r \<Rightarrow> [(''ref'', JStr r)])
       @ [(''exp'', JNum (Num (of_int (cl_exp c))))])"

definition token_ref :: "json \<Rightarrow> string option" where
  "token_ref v = (case v of JStr r \<Rightarrow> if 0 < length r \<and> length r \<le> 64 then Some r else None | _ \<Rightarrow> None)"

definition sign_token :: "(rat \<Rightarrow> string) \<Rightarrow> (string \<Rightarrow> byte list \<Rightarrow> byte list) \<Rightarrow> string \<Rightarrow> Claims \<Rightarrow> string" where
  "sign_token num hmac secret claims =
     (let payload = b64url (utf8 (json_text num (claims_json claims)))
      in payload @ ''.'' @ b64url (hmac secret (utf8 payload)))"

record AgentRow =
  ag_userId :: ident
  ag_revoked :: bool

datatype TokenAnswer =
    Limited Refusal
  | TokenRefused nat
  | QuotaRefused Exhausted
  | Minted string int bool

definition bad_port :: "json \<Rightarrow> bool" where
  "bad_port port =
     (case port of
        JNum _ \<Rightarrow> \<not> (js_isInteger port \<and> 1 \<le> json_int port \<and> json_int port \<le> MAX_PORT)
      | _ \<Rightarrow> False)"

definition is_number :: "json \<Rightarrow> bool" where
  "is_number v = (case v of JNum _ \<Rightarrow> True | _ \<Rightarrow> False)"

definition wants_agent :: "json \<Rightarrow> bool" where
  "wants_agent agent = (case agent of JStr a \<Rightarrow> 0 < length a | _ \<Rightarrow> False)"

definition owned :: "(ident \<Rightarrow> AgentRow option) \<Rightarrow> string \<Rightarrow> ident \<Rightarrow> bool" where
  "owned agents sub agent = (case agents agent of None \<Rightarrow> False | Some r \<Rightarrow> ag_userId r = sub \<and> \<not> ag_revoked r)"

definition mint ::
  "(rat \<Rightarrow> string) \<Rightarrow> (string \<Rightarrow> byte list \<Rightarrow> byte list) \<Rightarrow> millis \<Rightarrow> string \<Rightarrow> sub_table option \<Rightarrow> usage_table option
     \<Rightarrow> (ident \<Rightarrow> AgentRow option) \<Rightarrow> TokenSubject \<Rightarrow> json \<Rightarrow> TokenAnswer" where
  "mint num hmac now secret subs usage agents who body =
     (let host = json_field body ''host''; port = json_field body ''port''; agent = json_field body ''agent'' in
      if body = JNull then TokenRefused 500
      else if agent \<noteq> JUndef \<and> host \<noteq> JUndef then TokenRefused 400
      else if \<not> wants_agent agent \<and> (json_str host = [] \<or> \<not> is_number port) then TokenRefused 400
      else if bad_port port then TokenRefused 400
      else
        (case (if ts_anonymous who then None else allowanceCheck (ts_sub who) now subs usage) of
           Some over \<Rightarrow> QuotaRefused over
         | None \<Rightarrow>
             if wants_agent agent \<and> ts_anonymous who then TokenRefused 401
             else if wants_agent agent \<and> \<not> owned agents (ts_sub who) (json_str agent) then TokenRefused 404
             else
               Minted (sign_token num hmac secret
                   \<lparr>cl_sub = ts_sub who,
                    cl_dest = (if wants_agent agent then ToAgent (json_str agent) else ToHost (json_str host) port),
                    cl_ref = token_ref (json_field body ''ref''),
                    cl_exp = now div 1000 + ts_ttl who\<rparr>)
                 (ts_ttl who) (ts_anonymous who)))"

definition relay_token_POST ::
  "(rat \<Rightarrow> string) \<Rightarrow> (string \<Rightarrow> byte list \<Rightarrow> byte list) \<Rightarrow> bool \<Rightarrow> nat \<Rightarrow> string option \<Rightarrow> ident option \<Rightarrow> string option \<Rightarrow> string
     \<Rightarrow> millis \<Rightarrow> string option \<Rightarrow> json option \<Rightarrow> sub_table option \<Rightarrow> usage_table option \<Rightarrow> (ident \<Rightarrow> AgentRow option)
     \<Rightarrow> limit_table \<Rightarrow> TokenAnswer \<times> limit_table" where
  "relay_token_POST num hmac reachable hops forwarded session cookie uuid now secret body subs usage agents limits =
     (let who = token_subjectFor session cookie uuid;
          (limited, limits') = enforce reachable hops forwarded ''relay-token'' MINT_LIMIT
             (if ts_anonymous who then None else Some (ts_sub who)) (Some ''Too many connection attempts in the last minute. Sessions already open are unaffected; wait a moment before opening another.'') now limits
      in (case limited of
            Some r \<Rightarrow> Limited r
          | None \<Rightarrow>
              (case secret of
                 None \<Rightarrow> TokenRefused 503
               | Some s \<Rightarrow>
                   if s = [] then TokenRefused 503
                   else (case body of None \<Rightarrow> TokenRefused 400 | Some b \<Rightarrow> mint num hmac now s subs usage agents who b)),
          limits'))"

section \<open>Facts about the mint\<close>

lemma mint_Minted:
  assumes "mint num hmac now secret subs usage agents who body = Minted token ttl anonymous"
  shows "\<exists>dest. token = sign_token num hmac secret \<lparr>cl_sub = ts_sub who, cl_dest = dest,
             cl_ref = token_ref (json_field body ''ref''), cl_exp = now div 1000 + ts_ttl who\<rparr>
       \<and> ttl = ts_ttl who \<and> anonymous = ts_anonymous who
       \<and> (case dest of
            ToAgent a \<Rightarrow> json_field body ''agent'' = JStr a \<and> \<not> ts_anonymous who \<and> owned agents (ts_sub who) a
          | ToHost h p \<Rightarrow> json_field body ''host'' = JStr h \<and> h \<noteq> [] \<and> json_field body ''port'' = p \<and> js_isInteger p
              \<and> 1 \<le> json_int p \<and> json_int p \<le> MAX_PORT)
       \<and> (ts_anonymous who \<or> allowanceCheck (ts_sub who) now subs usage = None)"
proof -
  let ?agent = "json_field body ''agent''" and ?host = "json_field body ''host''" and ?port = "json_field body ''port''"
  let ?dest = "if wants_agent ?agent then ToAgent (json_str ?agent) else ToHost (json_str ?host) ?port"
  have facts: "wants_agent ?agent \<or> json_str ?host \<noteq> [] \<and> is_number ?port" "\<not> bad_port ?port"
      "ts_anonymous who \<or> allowanceCheck (ts_sub who) now subs usage = None"
      "wants_agent ?agent \<Longrightarrow> \<not> ts_anonymous who \<and> owned agents (ts_sub who) (json_str ?agent)"
      "token = sign_token num hmac secret \<lparr>cl_sub = ts_sub who, cl_dest = ?dest,
             cl_ref = token_ref (json_field body ''ref''), cl_exp = now div 1000 + ts_ttl who\<rparr>"
      "ttl = ts_ttl who" "anonymous = ts_anonymous who"
    using assms by (auto simp: mint_def Let_def split: if_splits option.splits)
  have agent: "wants_agent v \<Longrightarrow> v = JStr (json_str v)" and host: "json_str v \<noteq> [] \<Longrightarrow> v = JStr (json_str v)" for v
    by (cases v; simp add: wants_agent_def)+
  have port: "is_number v \<Longrightarrow> \<not> bad_port v \<Longrightarrow> js_isInteger v \<and> 1 \<le> json_int v \<and> json_int v \<le> MAX_PORT" for v
    by (cases v) (simp_all add: is_number_def bad_port_def)
  show ?thesis
    by (rule exI [of _ ?dest]) (use facts agent [of ?agent] host [of ?host] port [of ?port] in auto)
qed

section \<open>Properties\<close>

text \<open>
  C12. A minted token says only what was checked: it is the HMAC-signed encoding of claims whose subject is
  the caller (the signed-in account, or an anonymous visitor for half the time), which expire within a
  minute, and whose destination is exactly the requested host and a port from 1 to 65535, or an agent the
  account owns and has not revoked; and an account whose usage could be read was under its allowance.
\<close>

theorem relay_token_sound:
  assumes "relay_token_POST num hmac reachable hops forwarded session cookie uuid now (Some secret) (Some body) subs usage agents limits
      = (Minted token ttl anonymous, limits')"
  shows "\<exists>claims. token = sign_token num hmac secret claims
       \<and> cl_exp claims = now div 1000 + ttl \<and> ttl \<le> 60
       \<and> (case session of
            Some u \<Rightarrow> cl_sub claims = u \<and> \<not> anonymous \<and> allowanceCheck u now subs usage = None
          | None \<Rightarrow> isAnonymousSubject (cl_sub claims) \<and> anonymous \<and> ttl = 30)
       \<and> (case cl_dest claims of
            ToAgent a \<Rightarrow> json_field body ''agent'' = JStr a
              \<and> (case agents a of None \<Rightarrow> False | Some r \<Rightarrow> session = Some (ag_userId r) \<and> \<not> ag_revoked r)
          | ToHost h p \<Rightarrow> json_field body ''host'' = JStr h \<and> json_field body ''port'' = p
              \<and> js_isInteger p \<and> 1 \<le> json_int p \<and> json_int p \<le> 65535)"
proof -
  define who where "who = token_subjectFor session cookie uuid"
  have minted: "mint num hmac now secret subs usage agents who body = Minted token ttl anonymous"
    using assms by (auto simp: relay_token_POST_def who_def Let_def split: prod.splits option.splits if_splits)
  have subject: "case session of Some u \<Rightarrow> ts_sub who = u \<and> \<not> ts_anonymous who \<and> ts_ttl who = 60
      | None \<Rightarrow> isAnonymousSubject (ts_sub who) \<and> ts_anonymous who \<and> ts_ttl who = 30"
    by (auto simp: who_def token_subjectFor_def TTL_SECONDS_def ANON_TTL_SECONDS_def isAnonymousSubject_def split: option.splits)
  obtain dest where d: "token = sign_token num hmac secret \<lparr>cl_sub = ts_sub who, cl_dest = dest,
             cl_ref = token_ref (json_field body ''ref''), cl_exp = now div 1000 + ts_ttl who\<rparr>"
      "ttl = ts_ttl who" "anonymous = ts_anonymous who"
      "case dest of
            ToAgent a \<Rightarrow> json_field body ''agent'' = JStr a \<and> \<not> ts_anonymous who \<and> owned agents (ts_sub who) a
          | ToHost h p \<Rightarrow> json_field body ''host'' = JStr h \<and> h \<noteq> [] \<and> json_field body ''port'' = p \<and> js_isInteger p
              \<and> 1 \<le> json_int p \<and> json_int p \<le> MAX_PORT"
      "ts_anonymous who \<or> allowanceCheck (ts_sub who) now subs usage = None"
    using mint_Minted [OF minted] by blast
  show ?thesis
    by (rule exI, rule conjI [OF d(1)])
      (use d(2-5) subject in \<open>cases session; cases dest; auto simp: MAX_PORT_def owned_def split: option.splits\<close>)
qed

theorem relay_token_sound_witness:
  "let body = JObj [(''host'', JStr ''example.org''), (''port'', JNum (Num 22))];
       claims = \<lparr>cl_sub = ''u'', cl_dest = ToHost ''example.org'' (JNum (Num 22)), cl_ref = None, cl_exp = 60\<rparr>
   in fst (relay_token_POST show_whole (\<lambda>_ _. [1]) True 0 None (Some ''u'') None ''x'' 0 (Some ''k'') (Some body) (Some []) (Some Map.empty)
        (\<lambda>_. None) Map.empty) = Minted (sign_token show_whole (\<lambda>_ _. [1]) ''k'' claims) 60 False
      \<and> (\<exists>c. sign_token show_whole (\<lambda>_ _. [1]) ''k'' claims = sign_token show_whole (\<lambda>_ _. [1]) ''k'' c \<and> cl_sub c = ''u'')"
proof -
  define body where "body = JObj [(''host'', JStr ''example.org''), (''port'', JNum (Num 22))]"
  define claims where "claims = \<lparr>cl_sub = ''u'', cl_dest = ToHost ''example.org'' (JNum (Num 22)), cl_ref = None, cl_exp = 60\<rparr>"
  obtain answer limits where post: "relay_token_POST show_whole (\<lambda>_ _. [1]) True 0 None (Some ''u'') None ''x'' 0 (Some ''k'') (Some body)
      (Some []) (Some Map.empty) (\<lambda>_. None) Map.empty = (answer, limits)"
    by force
  have answer: "answer = Minted (sign_token show_whole (\<lambda>_ _. [1]) ''k'' claims) 60 False"
    using post
    by (auto simp: relay_token_POST_def token_subjectFor_def enforce_def consume_def upsert_def ALLOWED_def INT4_MAX_def MINT_LIMIT_def
        mint_def body_def claims_def wants_agent_def is_number_def bad_port_def MAX_PORT_def allowanceCheck_def relayAllowanceFor_def
        tierFor_def billingStateFor_def subscriptionFor_def tierForSubscription_def relayAllowanceForTier_def
        RELAY_ALLOWANCE_BYTES_def token_ref_def TTL_SECONDS_def Let_def)
  from relay_token_sound [OF post [unfolded answer]] show ?thesis
    unfolding body_def [symmetric] claims_def [symmetric] Let_def post answer fst_conv by auto
qed

text \<open>
  The meter and the refusal agree: the meter reads \<open>over\<close> exactly when the mint refuses the account's
  next token, shows no bytes remaining exactly then, and both name the same reset.
\<close>

theorem meter_agrees_with_mint:
  assumes "usage_GET reporting (Some u) now subs t = Some usage"
  shows "(usageState usage = Over \<longleftrightarrow> allowanceCheck u now subs (Some t) \<noteq> None)
       \<and> (bytesRemaining usage = 0 \<longleftrightarrow> allowanceCheck u now subs (Some t) \<noteq> None)
       \<and> (case allowanceCheck u now subs (Some t) of None \<Rightarrow> True
          | Some over \<Rightarrow> ex_usedBytes over = ru_bytesTotal usage \<and> ex_allowanceBytes over = ru_allowanceBytes usage
              \<and> ex_resetsAt over = ru_resetsAt usage)"
proof -
  have positive: "0 < relayAllowanceFor u now subs"
    by (auto simp: relayAllowanceFor_def relayAllowanceForTier_def RELAY_ALLOWANCE_BYTES_def split: Tier.split)
  have usage: "ru_bytesTotal usage = (case t (u, periodFor now) of None \<Rightarrow> 0 | Some r \<Rightarrow> us_bytesUp r + us_bytesDown r)"
      "ru_allowanceBytes usage = relayAllowanceFor u now subs" "ru_resetsAt usage = toISOString (periodResetsAt now)"
    using assms by (auto simp: usage_GET_def Let_def split: option.splits)
  have ratio: "(1 :: rat) \<le> of_int n / of_int m \<longleftrightarrow> m \<le> n" if "0 < m" for n m :: int
    using that by (simp add: le_divide_eq)
  show ?thesis
    using positive
    by (simp add: usageState_def bytesRemaining_def allowanceCheck_def Let_def usage(2) usage(3) usage(1) [symmetric] ratio
        not_le [symmetric] del: not_le)
qed

theorem meter_agrees_with_mint_witness:
  "let t = [(''u'', periodFor 0) \<mapsto> \<lparr>us_bytesUp = 600000000, us_bytesDown = 400000000, us_updatedAt = 0\<rparr>]
   in (case usage_GET True (Some ''u'') 0 (Some []) t of None \<Rightarrow> False | Some usage \<Rightarrow> usageState usage = Over)"
proof -
  define t where "t = [(''u'', periodFor 0) \<mapsto> \<lparr>us_bytesUp = 600000000, us_bytesDown = 400000000, us_updatedAt = 0\<rparr>]"
  obtain usage where usage: "usage_GET True (Some ''u'') 0 (Some []) t = Some usage"
    by (simp add: usage_GET_def Let_def)
  have "allowanceCheck ''u'' 0 (Some []) (Some t) \<noteq> None"
    by (simp add: allowanceCheck_def t_def relayAllowanceFor_def tierFor_def billingStateFor_def subscriptionFor_def
        tierForSubscription_def relayAllowanceForTier_def RELAY_ALLOWANCE_BYTES_def Let_def)
  with meter_agrees_with_mint [OF usage] usage show ?thesis
    unfolding t_def [symmetric] Let_def by simp
qed

end
