(* ===== verification/Cast_Format.thy ===== *)
theory Cast_Format
  imports Js_Text Base64
begin

text \<open>
  The recording format (\<open>lib/recording/format.ts\<close>): a header line and one line per event, each a JSON value,
  with output bytes in base64. \<open>JSON.parse\<close> and the number printer of \<open>JSON.stringify\<close> are arguments; the
  rest of the JSON text is \<^const>\<open>json_text\<close>.
\<close>

section \<open>Casts\<close>

definition CAST_VERSION :: int where
  "CAST_VERSION = 1"

record CastHeader =
  h_v :: int
  h_cols :: int
  h_rows :: int
  h_startedAt :: rat
  h_durationMs :: rat
  h_label :: "string option"
  h_host :: "string option"

datatype CastEvent = Output (ev_at: rat) (ev_bytes: "byte list") | Resize (ev_at: rat) (ev_cols: int) (ev_rows: int)

record Cast =
  header :: CastHeader
  events :: "CastEvent list"

datatype CastFormatError =
    EmptyRecording
  | NotHeader nat
  | WrongVersion
  | NotANumber string
  | NotPositive string
  | NotJsonEvent nat
  | NotTriple nat
  | PayloadNotString nat
  | PayloadNotBase64 nat
  | BadResize nat
  | UnknownKind nat

section \<open>Encoding\<close>

definition int_json :: "int \<Rightarrow> json" where
  "int_json i = JNum (Num (of_int i))"

definition optional :: "string \<Rightarrow> string option \<Rightarrow> (string \<times> json) list" where
  "optional key v = (case v of None \<Rightarrow> [] | Some s \<Rightarrow> [(key, JStr s)])"

definition header_json :: "CastHeader \<Rightarrow> json" where
  "header_json h =
     JObj ([(''v'', int_json (h_v h)), (''cols'', int_json (h_cols h)), (''rows'', int_json (h_rows h)),
            (''startedAt'', JNum (Num (h_startedAt h))), (''durationMs'', JNum (Num (h_durationMs h)))]
           @ optional ''label'' (h_label h) @ optional ''host'' (h_host h))"

fun event_json :: "(rat \<Rightarrow> string) \<Rightarrow> CastEvent \<Rightarrow> json" where
  "event_json num (Output at' bytes) = JArr [JNum (Num at'), JStr ''o'', JStr (toB64 bytes)]"
| "event_json num (Resize at' cols rows) =
     JArr [JNum (Num at'), JStr ''r'', JStr (num (of_int cols) @ ''x'' @ num (of_int rows))]"

definition encodeCast :: "(rat \<Rightarrow> string) \<Rightarrow> Cast \<Rightarrow> string" where
  "encodeCast num cast =
     join_with [newline] (map (json_text num) (header_json (header cast) # map (event_json num) (events cast))) @ [newline]"

section \<open>Decoding\<close>

definition finite_number :: "json \<Rightarrow> string \<Rightarrow> CastFormatError + rat" where
  "finite_number v what = (case v of JNum (Num q) \<Rightarrow> Inr q | _ \<Rightarrow> Inl (NotANumber what))"

definition positiveInt :: "json \<Rightarrow> string \<Rightarrow> CastFormatError + int" where
  "positiveInt v what =
     (case finite_number v what of
        Inl e \<Rightarrow> Inl e
      | Inr q \<Rightarrow> if of_int \<lfloor>q\<rfloor> \<noteq> q \<or> q \<le> 0 then Inl (NotPositive what) else Inr \<lfloor>q\<rfloor>)"

definition string_field :: "json \<Rightarrow> string \<Rightarrow> string option" where
  "string_field h key = (case json_field h key of JStr s \<Rightarrow> Some s | _ \<Rightarrow> None)"

definition parseHeader :: "(string \<Rightarrow> json option) \<Rightarrow> string \<Rightarrow> nat \<Rightarrow> CastFormatError + CastHeader" where
  "parseHeader parse line lineNumber =
     (case parse line of
        Some (JObj fs) \<Rightarrow>
          let h = JObj fs in
          if json_field h ''v'' \<noteq> int_json CAST_VERSION then Inl WrongVersion
          else
            (case (positiveInt (json_field h ''cols'') ''cols'', positiveInt (json_field h ''rows'') ''rows'',
                   finite_number (json_field h ''startedAt'') ''startedAt'',
                   finite_number (json_field h ''durationMs'') ''durationMs'') of
               (Inl e, _, _, _) \<Rightarrow> Inl e
             | (_, Inl e, _, _) \<Rightarrow> Inl e
             | (_, _, Inl e, _) \<Rightarrow> Inl e
             | (_, _, _, Inl e) \<Rightarrow> Inl e
             | (Inr cols, Inr rows, Inr startedAt, Inr durationMs) \<Rightarrow>
                 Inr \<lparr>h_v = CAST_VERSION, h_cols = cols, h_rows = rows, h_startedAt = startedAt,
                      h_durationMs = durationMs, h_label = string_field h ''label'', h_host = string_field h ''host''\<rparr>)
      | _ \<Rightarrow> Inl (NotHeader lineNumber))"

text \<open>The pattern is two runs of digits around one \<open>x\<close>; \<open>Number\<close> of such a run is exact below \<open>2^53\<close>.\<close>

definition parse_resize :: "string \<Rightarrow> (int \<times> int) option" where
  "parse_resize data =
     (case split_on (CHR ''x'') data of
        [a, b] \<Rightarrow>
          if a \<noteq> [] \<and> list_all is_digit a \<and> b \<noteq> [] \<and> list_all is_digit b
          then Some (int (digits_value a), int (digits_value b)) else None
      | _ \<Rightarrow> None)"

definition parseEvent :: "(string \<Rightarrow> json option) \<Rightarrow> string \<Rightarrow> nat \<Rightarrow> CastFormatError + CastEvent" where
  "parseEvent parse line lineNumber =
     (case parse line of
        None \<Rightarrow> Inl (NotJsonEvent lineNumber)
      | Some (JArr [at', kind, data]) \<Rightarrow>
          (case finite_number at' ''timestamp'' of
             Inl e \<Rightarrow> Inl e
           | Inr stamp \<Rightarrow>
               if kind = JStr ''o'' then
                 (case data of
                    JStr s \<Rightarrow> (case fromB64 s of None \<Rightarrow> Inl (PayloadNotBase64 lineNumber) | Some bytes \<Rightarrow> Inr (Output stamp bytes))
                  | _ \<Rightarrow> Inl (PayloadNotString lineNumber))
               else if kind = JStr ''r'' then
                 (case (case data of JStr s \<Rightarrow> parse_resize s | _ \<Rightarrow> None) of
                    None \<Rightarrow> Inl (BadResize lineNumber)
                  | Some (cols, rows) \<Rightarrow> Inr (Resize stamp cols rows))
               else Inl (UnknownKind lineNumber))
      | Some _ \<Rightarrow> Inl (NotTriple lineNumber))"

definition blank :: "string \<Rightarrow> bool" where
  "blank line \<longleftrightarrow> js_trim line = []"

fun parse_events :: "(string \<Rightarrow> json option) \<Rightarrow> nat \<Rightarrow> string list \<Rightarrow> CastFormatError + CastEvent list" where
  "parse_events parse n [] = Inr []"
| "parse_events parse n (line # lines) =
     (if blank line then parse_events parse (n + 1) lines
      else
        (case parseEvent parse line n of
           Inl e \<Rightarrow> Inl e
         | Inr ev \<Rightarrow> (case parse_events parse (n + 1) lines of Inl e \<Rightarrow> Inl e | Inr evs \<Rightarrow> Inr (ev # evs))))"

definition decodeCast :: "(string \<Rightarrow> json option) \<Rightarrow> string \<Rightarrow> CastFormatError + Cast" where
  "decodeCast parse text =
     (let lines = split_on newline text;
          cursor = length (takeWhile blank lines)
      in case drop cursor lines of
           [] \<Rightarrow> Inl EmptyRecording
         | line # rest \<Rightarrow>
             (case parseHeader parse line (cursor + 1) of
                Inl e \<Rightarrow> Inl e
              | Inr h \<Rightarrow>
                  (case parse_events parse (cursor + 2) rest of
                     Inl e \<Rightarrow> Inl e
                   | Inr evs \<Rightarrow> Inr \<lparr>header = h, events = evs\<rparr>)))"

section \<open>The timing model\<close>

record CastFrame =
  f_cols :: int
  f_rows :: int
  f_data :: "byte list"
  f_next :: nat

text \<open>The first loop: geometry, total and the index of the first event after the time.\<close>

fun frame_scan :: "rat \<Rightarrow> nat \<Rightarrow> int \<Rightarrow> int \<Rightarrow> nat \<Rightarrow> CastEvent list \<Rightarrow> int \<times> int \<times> nat \<times> nat" where
  "frame_scan atMs i cols rows tot [] = (cols, rows, tot, i)"
| "frame_scan atMs i cols rows tot (e # es) =
     (if atMs < ev_at e then (cols, rows, tot, i)
      else
        (case e of
           Output _ bytes \<Rightarrow> frame_scan atMs (i + 1) cols rows (tot + length bytes) es
         | Resize _ c r \<Rightarrow> frame_scan atMs (i + 1) c r tot es))"

text \<open>The second loop writes each output at its offset into the array of zeroes.\<close>

definition array_set :: "byte list \<Rightarrow> nat \<Rightarrow> byte list \<Rightarrow> byte list" where
  "array_set buf offset bytes = take offset buf @ bytes @ drop (offset + length bytes) buf"

fun frame_copy :: "byte list \<Rightarrow> nat \<Rightarrow> CastEvent list \<Rightarrow> byte list" where
  "frame_copy buf offset [] = buf"
| "frame_copy buf offset (e # es) =
     (case e of
        Output _ bytes \<Rightarrow> frame_copy (array_set buf offset bytes) (offset + length bytes) es
      | Resize _ _ _ \<Rightarrow> frame_copy buf offset es)"

definition frameAt :: "Cast \<Rightarrow> rat \<Rightarrow> CastFrame" where
  "frameAt cast atMs =
     (case frame_scan atMs 0 (h_cols (header cast)) (h_rows (header cast)) 0 (events cast) of
        (cols, rows, tot, k) \<Rightarrow>
          \<lparr>f_cols = cols, f_rows = rows, f_data = frame_copy (replicate tot 0) 0 (take k (events cast)), f_next = k\<rparr>)"

definition eventsUpTo :: "Cast \<Rightarrow> nat \<Rightarrow> rat \<Rightarrow> CastEvent list \<times> nat" where
  "eventsUpTo cast from atMs =
     (let k = from + length (takeWhile (\<lambda>e. ev_at e \<le> atMs) (drop from (events cast)))
      in (take (k - from) (drop from (events cast)), k))"

definition castEnd :: "Cast \<Rightarrow> rat" where
  "castEnd cast = max (h_durationMs (header cast)) (if events cast = [] then 0 else ev_at (last (events cast)))"

section \<open>Facts about text\<close>

lemma set_join_with: "set (join_with sep ps) \<subseteq> set sep \<union> \<Union> (set ` set ps)"
  by (induction sep ps rule: join_with.induct) auto

lemma hex_digit_newline: "n < 16 \<Longrightarrow> hex_digit n \<noteq> newline"
proof
  assume n: "n < 16" and "hex_digit n = newline"
  then have "of_char (hex_digit n) = (10 :: nat)"
    by (simp add: newline_def)
  with n show False
    by (auto simp: hex_digit_def take_bit_nat_eq_self split: if_splits)
qed

lemma newline_json_char: "newline \<notin> set (json_char c)"
proof -
  have "code c < 32 \<Longrightarrow> code c div 16 < 16" "code c mod 16 < 16"
    by simp_all
  then have "code c < 32 \<Longrightarrow> hex_digit (code c div 16) \<noteq> newline \<and> hex_digit (code c mod 16) \<noteq> newline"
    by (simp add: hex_digit_newline)
  then show ?thesis
    by (auto simp: json_char_def Let_def newline_def)
qed

lemma newline_json_string: "newline \<notin> set (json_string s)"
  using newline_json_char by (auto simp: json_string_def newline_def)

lemma newline_json_text:
  "(\<And>q. newline \<notin> set (num q)) \<Longrightarrow> newline \<notin> set (json_text num v)"
proof (induction num v rule: json_text.induct)
  case (7 num vs)
  then show ?case
    using set_join_with [of "'',''" "map (json_text num) vs"] by (auto simp: newline_def)
next
  case (8 num fs)
  have "newline \<notin> set (json_string k @ '':'' @ json_text num v)" if "(k, v) \<in> set fs" for k v
    using newline_json_string [of k] 8 that by (force simp: newline_def)
  then have "newline \<notin> set (join_with '','' (map (\<lambda>(k, v). json_string k @ '':'' @ json_text num v) fs))"
    using set_join_with [of "'',''" "map (\<lambda>(k, v). json_string k @ '':'' @ json_text num v) fs"]
    by (auto simp: newline_def)
  then show ?case by (simp add: newline_def)
qed (use newline_json_string in \<open>auto simp: newline_def\<close>)

lemma not_blank: "c \<in> set s \<Longrightarrow> \<not> is_space c \<Longrightarrow> \<not> blank s"
proof
  assume c: "c \<in> set s" "\<not> is_space c" and "blank s"
  then have "dropWhile is_space (rev (dropWhile is_space s)) = []"
    by (simp add: blank_def js_trim_def)
  then have "\<forall>x\<in>set (dropWhile is_space s). is_space x"
    by (simp add: dropWhile_eq_Nil_conv)
  with c(2) have "c \<notin> set (dropWhile is_space s)"
    by blast
  moreover have "c \<in> set (takeWhile is_space s) \<or> c \<in> set (dropWhile is_space s)"
    using c(1) by (metis Un_iff set_append takeWhile_dropWhile_id)
  ultimately show False
    using c(2) set_takeWhileD by fast
qed

lemma not_blank_object: "\<not> blank (json_text num (JObj fs))"
  by (rule not_blank [of "CHR ''{''"]) (simp_all add: is_space_def)

lemma not_blank_array: "\<not> blank (json_text num (JArr vs))"
  by (rule not_blank [of "CHR ''[''"]) (simp_all add: is_space_def)

lemma digits_value_show_nat: "digits_value (show_nat n) = n"
  using read_radix_show [of 10 n] by (simp add: digits_value_def read_radix_def show_nat_def mult.commute)

lemma show_nat_digits: "list_all is_digit (show_nat n)"
  using show_radix_digits [of 10 n] by (auto simp: show_nat_def list_all_iff is_digit_def)

lemma parse_resize_show: "parse_resize (show_nat m @ ''x'' @ show_nat n) = Some (int m, int n)"
proof -
  have no_x: "CHR ''x'' \<notin> set (show_nat k)" for k
    using show_nat_digits [of k] by (auto simp: list_all_iff is_digit_def)
  have "split_on (CHR ''x'') (show_nat m @ ''x'' @ show_nat n) = [show_nat m, show_nat n]"
    using split_on_append [of "CHR ''x''" "show_nat m" "show_nat n"] no_x by (simp add: split_on_no_sep)
  moreover have "show_nat k \<noteq> []" for k
    by (simp add: show_nat_def)
  ultimately show ?thesis
    by (simp add: parse_resize_def show_nat_digits digits_value_show_nat)
qed

section \<open>Facts about encoding and decoding\<close>

text \<open>A cast that can be written: the header's version and sizes, and sizes that print as plain digits.\<close>

definition small_size :: "int \<Rightarrow> bool" where
  "small_size n \<longleftrightarrow> 0 \<le> n \<and> n < 10 ^ 21"

fun event_ok :: "CastEvent \<Rightarrow> bool" where
  "event_ok (Output _ _) = True"
| "event_ok (Resize _ cols rows) = (small_size cols \<and> small_size rows)"

definition cast_ok :: "Cast \<Rightarrow> bool" where
  "cast_ok cast \<longleftrightarrow> h_v (header cast) = CAST_VERSION \<and> 0 < h_cols (header cast) \<and> 0 < h_rows (header cast)
     \<and> list_all event_ok (events cast)"

text \<open>What \<open>JSON.stringify\<close> promises of numbers: small whole ones are their digits, and no line breaks.\<close>

definition number_text :: "(rat \<Rightarrow> string) \<Rightarrow> bool" where
  "number_text num \<longleftrightarrow> (\<forall>q. newline \<notin> set (num q)) \<and> (\<forall>n :: nat. n < 10 ^ 21 \<longrightarrow> num (of_nat n) = show_nat n)"

lemma number_text_show_whole: "number_text show_whole"
proof -
  have "newline \<notin> set (show_nat n)" for n
    using show_nat_digits [of n] by (auto simp: list_all_iff is_digit_def newline_def)
  then show ?thesis
    by (auto simp: number_text_def show_whole_def show_int_def newline_def)
qed

definition parses :: "(string \<Rightarrow> json option) \<Rightarrow> (rat \<Rightarrow> string) \<Rightarrow> json list \<Rightarrow> bool" where
  "parses parse num vs \<longleftrightarrow> list_all (\<lambda>v. parse (json_text num v) = Some v) vs"

lemma parseEvent_inverse:
  assumes "number_text num" "event_ok e" "parse (json_text num (event_json num e)) = Some (event_json num e)"
  shows "parseEvent parse (json_text num (event_json num e)) n = Inr e"
proof (cases e)
  case (Output stamp bytes)
  with assms(3) show ?thesis
    by (simp add: parseEvent_def finite_number_def fromB64_toB64 del: json_text.simps)
next
  case (Resize stamp cols rows)
  then obtain c r where cr: "cols = int c" "rows = int r" "c < 10 ^ 21" "r < 10 ^ 21"
    using assms(2) by (auto simp: small_size_def dest!: zero_le_imp_eq_int)
  then have "num (of_int cols) = show_nat c" "num (of_int rows) = show_nat r"
    using assms(1) by (auto simp: number_text_def)
  with assms(3) Resize cr show ?thesis
    by (simp add: parseEvent_def finite_number_def parse_resize_show [simplified] del: json_text.simps)
qed

lemma parse_events_inverse:
  assumes "number_text num" "list_all event_ok es" "parses parse num (map (event_json num) es)"
  shows "parse_events parse n (map (\<lambda>e. json_text num (event_json num e)) es @ [[]]) = Inr es"
  using assms(2,3)
proof (induction es arbitrary: n)
  case (Cons e es)
  have "\<not> blank (json_text num (event_json num e))"
    by (cases e) (simp_all add: not_blank_array del: json_text.simps)
  then show ?case
    using Cons parseEvent_inverse [OF assms(1), of e parse n] by (simp add: parses_def)
qed (simp add: blank_def js_trim_def)

lemma parseHeader_inverse:
  assumes "h_v h = CAST_VERSION" "0 < h_cols h" "0 < h_rows h" "parse (json_text num (header_json h)) = Some (header_json h)"
  shows "parseHeader parse (json_text num (header_json h)) n = Inr h"
proof -
  have "positiveInt (int_json i) what = Inr i" if "0 < i" for i what
    using that by (simp add: positiveInt_def finite_number_def int_json_def)
  then show ?thesis
    using assms unfolding header_json_def parseHeader_def Let_def
    by (cases "h_label h"; cases "h_host h")
      (simp_all add: optional_def finite_number_def string_field_def int_json_def CAST_VERSION_def del: json_text.simps)
qed

lemma decodeCast_encodeCast:
  assumes "cast_ok cast" "number_text num"
    and "parses parse num (header_json (header cast) # map (event_json num) (events cast))"
  shows "decodeCast parse (encodeCast num cast) = Inr cast"
proof -
  let ?first = "json_text num (header_json (header cast))"
  let ?lines = "map (\<lambda>e. json_text num (event_json num e)) (events cast)"
  have no_newline: "newline \<notin> set (json_text num v)" for v
    using newline_json_text [of num] assms(2) by (auto simp: number_text_def)
  have "split_on newline (join_with [newline] (?first # ?lines)) = ?first # ?lines"
    by (rule split_join) (auto simp: no_newline)
  then have lines: "split_on newline (encodeCast num cast) = ?first # ?lines @ [[]]"
    using split_on_append [of newline "join_with [newline] (?first # ?lines)" "[]"]
    by (simp add: encodeCast_def o_def del: join_with.simps)
  have nonblank: "\<not> blank ?first"
    unfolding header_json_def by (rule not_blank_object)
  have "parseHeader parse ?first n = Inr (header cast)" for n
    by (rule parseHeader_inverse) (use assms(1,3) in \<open>simp_all add: cast_ok_def parses_def del: json_text.simps\<close>)
  moreover have "parse_events parse n (?lines @ [[]]) = Inr (events cast)" for n
    by (rule parse_events_inverse [OF assms(2)]) (use assms(1,3) in \<open>simp_all add: cast_ok_def parses_def del: json_text.simps\<close>)
  ultimately show ?thesis
    using nonblank unfolding decodeCast_def lines by (simp add: Let_def del: json_text.simps)
qed

section \<open>Facts about playback\<close>

fun output_of :: "CastEvent \<Rightarrow> byte list" where
  "output_of (Output _ bytes) = bytes"
| "output_of (Resize _ _ _) = []"

definition outputs :: "CastEvent list \<Rightarrow> byte list" where
  "outputs es = concat (map output_of es)"

fun resized :: "int \<times> int \<Rightarrow> CastEvent \<Rightarrow> int \<times> int" where
  "resized g (Output _ _) = g"
| "resized g (Resize _ cols rows) = (cols, rows)"

abbreviation until :: "rat \<Rightarrow> CastEvent list \<Rightarrow> CastEvent list" where
  "until t \<equiv> takeWhile (\<lambda>e. ev_at e \<le> t)"

lemma frame_scan_eq:
  "frame_scan t i cols rows n es =
     (case foldl resized (cols, rows) (until t es) of (c, r) \<Rightarrow> (c, r, n + length (outputs (until t es)), i + length (until t es)))"
  by (induction t i cols rows n es rule: frame_scan.induct) (auto simp: outputs_def not_less add.assoc split: CastEvent.split)

lemma frame_copy_eq:
  "length rest = length (outputs es) \<Longrightarrow> frame_copy (pre @ rest) (length pre) es = pre @ outputs es"
proof (induction es arbitrary: pre rest)
  case (Cons e es)
  show ?case
  proof (cases e)
    case (Output stamp bytes)
    have "array_set (pre @ rest) (length pre) bytes = (pre @ bytes) @ drop (length bytes) rest"
      by (simp add: array_set_def)
    moreover have "length (drop (length bytes) rest) = length (outputs es)"
      using Cons.prems Output by (simp add: outputs_def)
    ultimately show ?thesis
      using Cons.IH [of "drop (length bytes) rest" "pre @ bytes"] Output by (simp add: outputs_def)
  next
    case (Resize stamp c r)
    with Cons show ?thesis by (simp add: outputs_def)
  qed
qed (simp add: outputs_def)

lemma frameAt_eq:
  "frameAt cast t =
     (case foldl resized (h_cols (header cast), h_rows (header cast)) (until t (events cast)) of (c, r) \<Rightarrow>
        \<lparr>f_cols = c, f_rows = r, f_data = outputs (until t (events cast)), f_next = length (until t (events cast))\<rparr>)"
proof -
  have "frame_copy (replicate n 0) 0 es = outputs es" if "n = length (outputs es)" for n es
    using frame_copy_eq [of "replicate n 0" es "[]"] that by simp
  then show ?thesis
    unfolding frameAt_def frame_scan_eq by (simp add: takeWhile_eq_take [symmetric] split: prod.split)
qed

lemma until_split: "s \<le> t \<Longrightarrow> until t es = until s es @ until t (drop (length (until s es)) es)"
  by (induction es) auto

section \<open>Properties\<close>

text \<open>
  A recording survives its file: decoding what \<open>encodeCast\<close> wrote gives back every event, byte and
  stamp, in order, and the header.
\<close>

theorem cast_round_trip:
  assumes "cast_ok cast" "number_text num"
    and "parses parse num (header_json (header cast) # map (event_json num) (events cast))"
  shows "decodeCast parse (encodeCast num cast) = Inr cast"
  using assms by (rule decodeCast_encodeCast)

theorem cast_round_trip_witness:
  "let cast = \<lparr>header = \<lparr>h_v = 1, h_cols = 80, h_rows = 24, h_startedAt = 0, h_durationMs = 9, h_label = Some ''a'', h_host = None\<rparr>,
                events = [Output 1 [27, 200], Resize 2 132 43]\<rparr>;
       values = header_json (header cast) # map (event_json show_whole) (events cast);
       parse = map_of (map (\<lambda>v. (json_text show_whole v, v)) values)
   in decodeCast parse (encodeCast show_whole cast) = Inr cast"
proof -
  define cast where "cast = \<lparr>header = \<lparr>h_v = 1, h_cols = 80, h_rows = 24, h_startedAt = 0, h_durationMs = 9,
    h_label = Some ''a'', h_host = None\<rparr>, events = [Output 1 [27, 200], Resize 2 132 43]\<rparr>"
  define vals where "vals = header_json (header cast) # map (event_json show_whole) (events cast)"
  note num = number_text_show_whole
  have "cast_ok cast"
    by (simp add: cast_ok_def cast_def CAST_VERSION_def small_size_def)
  moreover have "parses (map_of (map (\<lambda>v. (json_text show_whole v, v)) vals)) show_whole vals"
  proof -
    have "distinct (map (json_text show_whole) vals)"
      unfolding vals_def cast_def by code_simp
    then have "map_of (map (\<lambda>v. (json_text show_whole v, v)) vals) (json_text show_whole v) = Some v" if "v \<in> set vals" for v
      using that by (intro map_of_is_SomeI) (auto simp: o_def)
    then show ?thesis
      by (simp add: parses_def list_all_iff)
  qed
  ultimately have "decodeCast (map_of (map (\<lambda>v. (json_text show_whole v, v)) vals)) (encodeCast show_whole cast) = Inr cast"
    using cast_round_trip [OF _ num, of cast "map_of (map (\<lambda>v. (json_text show_whole v, v)) vals)"] unfolding vals_def by blast
  then show ?thesis
    unfolding Let_def cast_def vals_def by simp
qed

text \<open>
  C20. Playing from a seek shows what seeking further would: the frame at a later time is the frame at an
  earlier one followed by exactly the events playback then emits, none twice and none missed.
\<close>

theorem cast_seek_equals_play:
  assumes "s \<le> t"
  shows "case eventsUpTo cast (f_next (frameAt cast s)) t of (emitted, k) \<Rightarrow>
      frameAt cast t = \<lparr>f_cols = fst (foldl resized (f_cols (frameAt cast s), f_rows (frameAt cast s)) emitted),
                        f_rows = snd (foldl resized (f_cols (frameAt cast s), f_rows (frameAt cast s)) emitted),
                        f_data = f_data (frameAt cast s) @ outputs emitted, f_next = k\<rparr>"
  using until_split [OF assms, of "events cast"]
  by (auto simp: eventsUpTo_def Let_def frameAt_eq takeWhile_eq_take [symmetric] outputs_def split: prod.splits)

theorem cast_seek_equals_play_witness:
  "let cast = \<lparr>header = \<lparr>h_v = 1, h_cols = 80, h_rows = 24, h_startedAt = 0, h_durationMs = 9, h_label = None, h_host = None\<rparr>,
                events = [Output 1 [65], Resize 2 132 43, Output 3 [66]]\<rparr>
   in f_data (frameAt cast 3) = f_data (frameAt cast 1) @ outputs (fst (eventsUpTo cast 1 3))"
  using cast_seek_equals_play [of 1 3 "\<lparr>header = \<lparr>h_v = 1, h_cols = 80, h_rows = 24, h_startedAt = 0, h_durationMs = 9,
      h_label = None, h_host = None\<rparr>, events = [Output 1 [65], Resize 2 132 43, Output 3 [66]]\<rparr>"]
  by (simp add: frameAt_eq eventsUpTo_def outputs_def)

end
