(* ===== verification/Recorder.thy ===== *)
theory Recorder
  imports Cast_Format
begin

text \<open>
  Capturing a session (\<open>lib/recording/capture.ts\<close>): the bounded buffer a recording grows in, and the registry of
  recorders with its asynchronous saves. A recorder is an object that closures keep hold of after the registry
  has let go of it, so recorders live in a store of objects and the registry maps session ids to them.
\<close>

section \<open>The buffer\<close>

definition MAX_CAPTURE_BYTES :: nat where
  "MAX_CAPTURE_BYTES = 4 * 1024 * 1024"

definition js_round :: "rat \<Rightarrow> int" where
  "js_round q = \<lfloor>q + 1 / 2\<rfloor>"

record CastBuffer =
  b_startedAt :: millis
  b_initialCols :: int
  b_initialRows :: int
  b_events :: "CastEvent list"
  b_cols :: int
  b_rows :: int
  b_captured :: nat
  b_full :: bool
  b_lastAt :: int

definition new_CastBuffer :: "int \<Rightarrow> int \<Rightarrow> millis \<Rightarrow> CastBuffer" where
  "new_CastBuffer cols rows startedAt =
     \<lparr>b_startedAt = startedAt, b_initialCols = cols, b_initialRows = rows, b_events = [], b_cols = cols, b_rows = rows,
      b_captured = 0, b_full = False, b_lastAt = 0\<rparr>"

definition stamp :: "rat \<Rightarrow> CastBuffer \<Rightarrow> int" where
  "stamp at' b = max (max 0 (js_round at')) (b_lastAt b)"

definition buffer_output :: "rat \<Rightarrow> byte list \<Rightarrow> CastBuffer \<Rightarrow> bool \<times> CastBuffer" where
  "buffer_output at' bytes b =
     (if b_full b \<or> bytes = [] then (False, b)
      else if MAX_CAPTURE_BYTES < b_captured b + length bytes then (False, b\<lparr>b_full := True\<rparr>)
      else (True, b\<lparr>b_captured := b_captured b + length bytes, b_lastAt := stamp at' b,
                    b_events := b_events b @ [Output (of_int (stamp at' b)) bytes]\<rparr>))"

definition buffer_resize :: "rat \<Rightarrow> int \<Rightarrow> int \<Rightarrow> CastBuffer \<Rightarrow> CastBuffer" where
  "buffer_resize at' cols rows b =
     (if b_full b then b
      else if cols = b_cols b \<and> rows = b_rows b then b
      else b\<lparr>b_cols := cols, b_rows := rows, b_lastAt := stamp at' b,
             b_events := b_events b @ [Resize (of_int (stamp at' b)) cols rows]\<rparr>)"

definition nonempty :: "string option \<Rightarrow> string option" where
  "nonempty s = (if s = Some [] then None else s)"

definition toCast :: "rat \<Rightarrow> string option \<Rightarrow> string option \<Rightarrow> CastBuffer \<Rightarrow> Cast" where
  "toCast durationMs label host b =
     \<lparr>header = \<lparr>h_v = 1, h_cols = b_initialCols b, h_rows = b_initialRows b, h_startedAt = of_int (b_startedAt b),
         h_durationMs = of_int (max (max 0 (js_round durationMs)) (b_lastAt b)),
         h_label = nonempty label, h_host = nonempty host\<rparr>,
      events = b_events b\<rparr>"

section \<open>Recorders\<close>

datatype EndReason = EndUser | EndCap | EndSessionClosed

record RecorderState =
  rs_sessionId :: string
  rs_label :: string
  rs_startedAt :: millis
  rs_bytes :: nat
  rs_capturing :: bool
  rs_ended :: "EndReason option"
  rs_saving :: bool
  rs_error :: bool
  rs_retryable :: bool

text \<open>\<open>r_tapped\<close> says whether the session still calls this recorder's tap; \<open>untap\<close> ends that.\<close>

record ActiveRecorder =
  r_sessionId :: string
  r_label :: string
  r_host :: string
  r_buffer :: CastBuffer
  r_clockBase :: rat
  r_endedAt :: "rat option"
  r_tapped :: bool
  r_ended :: "EndReason option"
  r_saving :: bool
  r_error :: bool
  r_retryable :: bool

text \<open>\<open>inflight\<close> are the recorders whose save waits for the server.\<close>

record Registry =
  objects :: "ActiveRecorder list"
  recorders :: "(string \<times> nat) list"
  inflight :: "nat list"

definition rec_at :: "Registry \<Rightarrow> nat \<Rightarrow> ActiveRecorder" where
  "rec_at g i = objects g ! i"

definition modify :: "nat \<Rightarrow> (ActiveRecorder \<Rightarrow> ActiveRecorder) \<Rightarrow> Registry \<Rightarrow> Registry" where
  "modify i f g = g\<lparr>objects := (objects g)[i := f (objects g ! i)]\<rparr>"

definition state_of :: "ActiveRecorder \<Rightarrow> RecorderState" where
  "state_of r =
     \<lparr>rs_sessionId = r_sessionId r, rs_label = r_label r, rs_startedAt = b_startedAt (r_buffer r),
      rs_bytes = b_captured (r_buffer r), rs_capturing = (r_ended r = None), rs_ended = r_ended r,
      rs_saving = r_saving r, rs_error = r_error r, rs_retryable = r_retryable r\<rparr>"

definition rebuild :: "Registry \<Rightarrow> RecorderState list" where
  "rebuild g = map (state_of \<circ> rec_at g) (js_values (recorders g))"

definition isRecording :: "string \<Rightarrow> Registry \<Rightarrow> bool" where
  "isRecording sid g = (case map_of (recorders g) sid of None \<Rightarrow> False | Some i \<Rightarrow> r_ended (rec_at g i) = None)"

datatype StartError = AlreadyRecording | VaultLocked | RequiresPro

definition startRecording ::
  "bool \<Rightarrow> bool \<Rightarrow> string \<Rightarrow> string \<Rightarrow> string \<Rightarrow> int \<Rightarrow> int \<Rightarrow> millis \<Rightarrow> rat \<Rightarrow> Registry \<Rightarrow> StartError + Registry" where
  "startRecording unlocked canRecord sid label host cols rows now clock g =
     (if map_of (recorders g) sid \<noteq> None then Inl AlreadyRecording
      else if \<not> unlocked then Inl VaultLocked
      else if \<not> canRecord then Inl RequiresPro
      else Inr (g\<lparr>objects := objects g @
             [\<lparr>r_sessionId = sid, r_label = label, r_host = host, r_buffer = new_CastBuffer cols rows now,
               r_clockBase = clock, r_endedAt = None, r_tapped = True, r_ended = None, r_saving = False, r_error = False,
               r_retryable = True\<rparr>],
           recorders := AList.update sid (length (objects g)) (recorders g)\<rparr>))"

text \<open>
  A save up to the point where it waits for the server; what comes after is \<open>persist_ok\<close> or
  \<open>persist_failed\<close>, whenever the answer arrives.
\<close>

definition persist :: "bool \<Rightarrow> nat \<Rightarrow> Registry \<Rightarrow> Registry" where
  "persist unlocked i g =
     (if r_saving (rec_at g i) then g
      else if \<not> unlocked then modify i (\<lambda>r. r\<lparr>r_error := True, r_retryable := True\<rparr>) g
      else (modify i (\<lambda>r. r\<lparr>r_saving := True, r_error := False, r_retryable := True\<rparr>) g)\<lparr>inflight := i # inflight g\<rparr>)"

definition persist_ok :: "nat \<Rightarrow> Registry \<Rightarrow> Registry" where
  "persist_ok i g =
     g\<lparr>recorders := AList.delete (r_sessionId (rec_at g i)) (recorders g), inflight := remove1 i (inflight g)\<rparr>"

definition persist_failed :: "bool \<Rightarrow> nat \<Rightarrow> Registry \<Rightarrow> Registry" where
  "persist_failed plan i g =
     (modify i (\<lambda>r. r\<lparr>r_saving := False, r_error := True, r_retryable := \<not> plan\<rparr>) g)\<lparr>inflight := remove1 i (inflight g)\<rparr>"

definition end_recorder :: "bool \<Rightarrow> rat \<Rightarrow> nat \<Rightarrow> EndReason \<Rightarrow> Registry \<Rightarrow> Registry" where
  "end_recorder unlocked clock i reason g =
     (if r_ended (rec_at g i) \<noteq> None then g
      else
        let g' = modify i (\<lambda>r. r\<lparr>r_ended := Some reason, r_endedAt := Some clock, r_tapped := False\<rparr>) g
        in if reason \<noteq> EndUser then persist unlocked i g' else g')"

datatype TapEvent = TapOutput "byte list" | TapResize int int | TapClosed

text \<open>What the closure handed to \<open>tap\<close> does with an event of the session.\<close>

definition tap_event :: "bool \<Rightarrow> rat \<Rightarrow> nat \<Rightarrow> TapEvent \<Rightarrow> Registry \<Rightarrow> Registry" where
  "tap_event unlocked clock i ev g =
     (if r_ended (rec_at g i) \<noteq> None then g
      else
        let at' = clock - r_clockBase (rec_at g i) in
        (case ev of
           TapOutput bytes \<Rightarrow>
             (case buffer_output at' bytes (r_buffer (rec_at g i)) of
                (kept, b) \<Rightarrow>
                  let g' = modify i (\<lambda>r. r\<lparr>r_buffer := b\<rparr>) g
                  in if \<not> kept \<and> b_full b then end_recorder unlocked clock i EndCap g' else g')
         | TapResize cols rows \<Rightarrow> modify i (\<lambda>r. r\<lparr>r_buffer := buffer_resize at' cols rows (r_buffer r)\<rparr>) g
         | TapClosed \<Rightarrow> end_recorder unlocked clock i EndSessionClosed g))"

definition stopRecording :: "bool \<Rightarrow> rat \<Rightarrow> string \<Rightarrow> Registry \<Rightarrow> Registry" where
  "stopRecording unlocked clock sid g =
     (case map_of (recorders g) sid of
        None \<Rightarrow> g
      | Some i \<Rightarrow>
          persist unlocked i (if r_ended (rec_at g i) = None then end_recorder unlocked clock i EndUser g else g))"

definition retrySave :: "bool \<Rightarrow> string \<Rightarrow> Registry \<Rightarrow> Registry" where
  "retrySave unlocked sid g =
     (case map_of (recorders g) sid of
        None \<Rightarrow> g
      | Some i \<Rightarrow> if r_ended (rec_at g i) = None \<or> r_saving (rec_at g i) then g else persist unlocked i g)"

definition castFor :: "string \<Rightarrow> Registry \<Rightarrow> Cast option" where
  "castFor sid g =
     (case map_of (recorders g) sid of
        None \<Rightarrow> None
      | Some i \<Rightarrow>
          let r = rec_at g i in
          (case (r_ended r, r_endedAt r) of
             (Some _, Some e) \<Rightarrow> Some (toCast (e - r_clockBase r) (Some (r_label r)) (Some (r_host r)) (r_buffer r))
           | _ \<Rightarrow> None))"

definition discardRecording :: "string \<Rightarrow> Registry \<Rightarrow> Registry" where
  "discardRecording sid g =
     (case map_of (recorders g) sid of
        None \<Rightarrow> g
      | Some i \<Rightarrow> (modify i (\<lambda>r. r\<lparr>r_tapped := False\<rparr>) g)\<lparr>recorders := AList.delete sid (recorders g)\<rparr>)"

section \<open>Everything that can happen to the registry\<close>

definition empty_registry :: Registry where
  "empty_registry = \<lparr>objects = [], recorders = [], inflight = []\<rparr>"

inductive rec_step :: "Registry \<Rightarrow> Registry \<Rightarrow> bool" where
  started: "startRecording unlocked canRecord sid label host cols rows now clock g = Inr g' \<Longrightarrow> 0 < cols \<Longrightarrow> 0 < rows \<Longrightarrow> rec_step g g'"
| tapped: "i < length (objects g) \<Longrightarrow> r_tapped (rec_at g i) \<Longrightarrow>
    (case ev of TapResize c r \<Rightarrow> small_size c \<and> small_size r | _ \<Rightarrow> True) \<Longrightarrow> rec_step g (tap_event unlocked clock i ev g)"
| stopped: "rec_step g (stopRecording unlocked clock sid g)"
| retried: "rec_step g (retrySave unlocked sid g)"
| discarded: "rec_step g (discardRecording sid g)"
| saved: "i \<in> set (inflight g) \<Longrightarrow> rec_step g (persist_ok i g)"
| refused: "i \<in> set (inflight g) \<Longrightarrow> rec_step g (persist_failed plan i g)"

inductive reachable_registry :: "Registry \<Rightarrow> bool" where
  initial: "reachable_registry empty_registry"
| step: "reachable_registry g \<Longrightarrow> rec_step g g' \<Longrightarrow> reachable_registry g'"

inductive_cases rec_stepE: "rec_step g g'"

section \<open>Facts about the buffer\<close>

definition buffer_ok :: "CastBuffer \<Rightarrow> bool" where
  "buffer_ok b \<longleftrightarrow> sorted (map ev_at (b_events b)) \<and> list_all (\<lambda>e. 0 \<le> ev_at e \<and> ev_at e \<le> of_int (b_lastAt b)) (b_events b)
     \<and> 0 \<le> b_lastAt b \<and> b_captured b = length (outputs (b_events b)) \<and> b_captured b \<le> MAX_CAPTURE_BYTES
     \<and> list_all event_ok (b_events b) \<and> 0 < b_initialCols b \<and> 0 < b_initialRows b"

lemma buffer_ok_new: "0 < cols \<Longrightarrow> 0 < rows \<Longrightarrow> buffer_ok (new_CastBuffer cols rows now)"
  by (simp add: buffer_ok_def new_CastBuffer_def outputs_def)

lemma stamp_ge: "b_lastAt b \<le> stamp at' b" "0 \<le> stamp at' b"
  by (simp_all add: stamp_def)

lemma event_appended:
  assumes "sorted (map ev_at es)" "list_all (\<lambda>e. 0 \<le> ev_at e \<and> ev_at e \<le> of_int l) es" "l \<le> s" "0 \<le> s" "ev_at e = of_int s"
  shows "sorted (map ev_at (es @ [e])) \<and> list_all (\<lambda>e. 0 \<le> ev_at e \<and> ev_at e \<le> of_int s) (es @ [e])"
proof -
  have "(of_int l :: rat) \<le> of_int s" "(0 :: rat) \<le> of_int s"
    using assms(3,4) by simp_all
  then show ?thesis
    using assms(1,2,5) by (auto simp: sorted_append list_all_iff intro: order_trans)
qed

lemma buffer_ok_output: "buffer_ok b \<Longrightarrow> buffer_ok (snd (buffer_output at' bytes b))"
  using event_appended [of "b_events b" "b_lastAt b" "stamp at' b" "Output (of_int (stamp at' b)) bytes"] stamp_ge(1) [of b at'] stamp_ge(2) [of at' b]
  by (auto simp: buffer_output_def buffer_ok_def outputs_def)

lemma buffer_ok_resize: "buffer_ok b \<Longrightarrow> small_size cols \<Longrightarrow> small_size rows \<Longrightarrow> buffer_ok (buffer_resize at' cols rows b)"
  using event_appended [of "b_events b" "b_lastAt b" "stamp at' b" "Resize (of_int (stamp at' b)) cols rows"] stamp_ge(1) [of b at'] stamp_ge(2) [of at' b]
  by (auto simp: buffer_resize_def buffer_ok_def outputs_def)

lemma buffer_full: "b_full (snd (buffer_output at' bytes b)) \<Longrightarrow> \<not> b_full b \<Longrightarrow> \<not> fst (buffer_output at' bytes b)"
  "b_full (buffer_resize at' cols rows b) = b_full b"
  by (auto simp: buffer_output_def buffer_resize_def split: if_splits)

section \<open>The invariant\<close>

definition rec_ok :: "ActiveRecorder \<Rightarrow> bool" where
  "rec_ok r \<longleftrightarrow> buffer_ok (r_buffer r) \<and> (b_full (r_buffer r) \<longrightarrow> r_ended r \<noteq> None)
     \<and> (r_ended r = None \<longleftrightarrow> r_endedAt r = None) \<and> (r_saving r \<longrightarrow> r_ended r \<noteq> None) \<and> (r_tapped r \<longrightarrow> r_ended r = None)"

definition entry_ok :: "Registry \<Rightarrow> string \<times> nat \<Rightarrow> bool" where
  "entry_ok g e \<longleftrightarrow> snd e < length (objects g) \<and> r_sessionId (rec_at g (snd e)) = fst e
     \<and> (r_ended (rec_at g (snd e)) = None \<longrightarrow> r_tapped (rec_at g (snd e)))"

definition reg_ok :: "Registry \<Rightarrow> bool" where
  "reg_ok g \<longleftrightarrow> list_all rec_ok (objects g) \<and> js_well_formed (recorders g) \<and> list_all (entry_ok g) (recorders g)
     \<and> list_all (\<lambda>i. i < length (objects g)) (inflight g)"

lemma rec_at_modify: "i < length (objects g) \<Longrightarrow> rec_at (modify i f g) j = (if j = i then f (rec_at g i) else rec_at g j)"
  by (simp add: rec_at_def modify_def)

lemma modify_fields [simp]:
  "recorders (modify i f g) = recorders g" "inflight (modify i f g) = inflight g" "length (objects (modify i f g)) = length (objects g)"
  by (simp_all add: modify_def)

lemma reg_ok_rec: "reg_ok g \<Longrightarrow> i < length (objects g) \<Longrightarrow> rec_ok (rec_at g i)"
  by (simp add: reg_ok_def rec_at_def list_all_length)

lemma rec_ok_objects: "i < length (objects g) \<Longrightarrow> list_all rec_ok (objects g) \<Longrightarrow> rec_ok (f (rec_at g i)) \<Longrightarrow>
    list_all rec_ok (objects (modify i f g))"
  by (auto simp: modify_def rec_at_def list_all_length nth_list_update)

lemma reg_ok_modify:
  assumes "reg_ok g" "i < length (objects g)" "rec_ok (f (rec_at g i))"
    and "r_sessionId (f (rec_at g i)) = r_sessionId (rec_at g i)"
    and "r_ended (f (rec_at g i)) = None \<Longrightarrow> r_ended (rec_at g i) = None \<and> r_tapped (f (rec_at g i)) = r_tapped (rec_at g i)"
  shows "reg_ok (modify i f g)"
proof -
  have "entry_ok (modify i f g) e" if "entry_ok g e" for e
    using that assms(2,4,5) by (auto simp: entry_ok_def rec_at_modify)
  with assms(1) show ?thesis
    using rec_ok_objects [of i g f] assms(2,3) by (auto simp: reg_ok_def list_all_iff)
qed

lemma inflight_irrelevant: "list_all (\<lambda>i. i < length (objects g)) is \<Longrightarrow> reg_ok g \<Longrightarrow> reg_ok (g\<lparr>inflight := is\<rparr>)"
  by (auto simp: reg_ok_def entry_ok_def rec_at_def list_all_iff)

lemma reg_ok_fewer:
  assumes "reg_ok g" "set es \<subseteq> set (recorders g)" "js_well_formed es"
  shows "reg_ok (g\<lparr>recorders := es\<rparr>)"
  using assms by (auto simp: reg_ok_def entry_ok_def rec_at_def list_all_iff)

lemma set_delete_subset: "set (AList.delete k es) \<subseteq> set es"
  by (simp add: AList.delete_eq)

lemma reg_ok_persist:
  assumes "reg_ok g" "i < length (objects g)" "r_ended (rec_at g i) \<noteq> None"
  shows "reg_ok (persist unlocked i g)"
proof -
  have ok: "rec_ok (rec_at g i)"
    using assms reg_ok_rec by blast
  have "reg_ok (modify i (\<lambda>r. r\<lparr>r_error := True, r_retryable := True\<rparr>) g)"
    by (rule reg_ok_modify) (use assms ok in \<open>auto simp: rec_ok_def\<close>)
  moreover have "reg_ok (modify i (\<lambda>r. r\<lparr>r_saving := True, r_error := False, r_retryable := True\<rparr>) g)"
    by (rule reg_ok_modify) (use assms ok in \<open>auto simp: rec_ok_def\<close>)
  moreover have "list_all (\<lambda>j. j < length (objects g)) (i # inflight g)"
    using assms(1,2) by (simp add: reg_ok_def)
  ultimately show ?thesis
    using assms(1) by (auto simp: persist_def intro!: inflight_irrelevant)
qed

lemma reg_ok_end:
  assumes "reg_ok g" "i < length (objects g)"
  shows "reg_ok (end_recorder unlocked clock i reason g)"
    and "r_ended (rec_at (end_recorder unlocked clock i EndUser g) i) \<noteq> None"
    and "length (objects (end_recorder unlocked clock i EndUser g)) = length (objects g)"
proof -
  let ?g = "modify i (\<lambda>r. r\<lparr>r_ended := Some reason, r_endedAt := Some clock, r_tapped := False\<rparr>) g"
  have "reg_ok ?g" if "r_ended (rec_at g i) = None"
    by (rule reg_ok_modify) (use assms reg_ok_rec [OF assms] that in \<open>auto simp: rec_ok_def\<close>)
  moreover have "r_ended (rec_at ?g i) \<noteq> None"
    using assms(2) by (simp add: rec_at_modify)
  ultimately show "reg_ok (end_recorder unlocked clock i reason g)"
    using assms reg_ok_persist [of ?g i] by (auto simp: end_recorder_def Let_def)
  show "r_ended (rec_at (end_recorder unlocked clock i EndUser g) i) \<noteq> None"
      "length (objects (end_recorder unlocked clock i EndUser g)) = length (objects g)"
    using assms(2) by (auto simp: end_recorder_def rec_at_modify)
qed

lemma modify_modify: "i < length (objects g) \<Longrightarrow> modify i f (modify i h g) = modify i (f \<circ> h) g"
  by (simp add: modify_def)

text \<open>The cap: the buffer turns full and the recorder ends in the same event.\<close>

lemma reg_ok_cap:
  assumes "reg_ok g" "i < length (objects g)" "buffer_ok b" "r_ended (rec_at g i) = None"
  shows "reg_ok (end_recorder unlocked clock i EndCap (modify i (\<lambda>r. r\<lparr>r_buffer := b\<rparr>) g))"
proof -
  let ?f = "\<lambda>r. r\<lparr>r_buffer := b, r_ended := Some EndCap, r_endedAt := Some clock, r_tapped := False\<rparr>"
  have "reg_ok (modify i ?f g)"
    by (rule reg_ok_modify) (use assms reg_ok_rec [OF assms(1,2)] in \<open>auto simp: rec_ok_def\<close>)
  moreover have "r_ended (rec_at (modify i ?f g) i) \<noteq> None"
    using assms(2) by (simp add: rec_at_modify)
  ultimately have "reg_ok (persist unlocked i (modify i ?f g))"
    by (intro reg_ok_persist) (simp_all add: assms(2))
  then show ?thesis
    using assms(2,4) by (simp add: end_recorder_def rec_at_modify modify_modify o_def)
qed

lemma reg_ok_tap:
  assumes "reg_ok g" "i < length (objects g)" "case ev of TapResize c r \<Rightarrow> small_size c \<and> small_size r | _ \<Rightarrow> True"
  shows "reg_ok (tap_event unlocked clock i ev g)"
proof (cases "r_ended (rec_at g i) = None")
  case True
  note ok = reg_ok_rec [OF assms(1,2)]
  show ?thesis
  proof (cases ev)
    case (TapOutput bytes)
    obtain kept b where out: "buffer_output (clock - r_clockBase (rec_at g i)) bytes (r_buffer (rec_at g i)) = (kept, b)"
      by force
    have b: "buffer_ok b"
      using buffer_ok_output [of "r_buffer (rec_at g i)"] ok out by (metis rec_ok_def snd_conv)
    show ?thesis
    proof (cases "\<not> kept \<and> b_full b")
      case True
      then show ?thesis
        using reg_ok_cap [OF assms(1,2) b] \<open>r_ended (rec_at g i) = None\<close> TapOutput out
        by (simp add: tap_event_def)
    next
      case False
      have "\<not> b_full b"
        using False buffer_full(1) [of "clock - r_clockBase (rec_at g i)" bytes "r_buffer (rec_at g i)"] out ok True
        by (auto simp: rec_ok_def)
      have "reg_ok (modify i (\<lambda>r. r\<lparr>r_buffer := b\<rparr>) g)"
        by (rule reg_ok_modify) (use assms(1,2) ok b \<open>\<not> b_full b\<close> in \<open>auto simp: rec_ok_def\<close>)
      with False True TapOutput out show ?thesis
        by (auto simp: tap_event_def)
    qed
  next
    case (TapResize cols rows)
    have "reg_ok (modify i (\<lambda>r. r\<lparr>r_buffer := buffer_resize at' cols rows (r_buffer r)\<rparr>) g)" for at'
      by (rule reg_ok_modify)
        (use assms ok buffer_ok_resize TapResize in \<open>auto simp: rec_ok_def buffer_full\<close>)
    with True TapResize show ?thesis
      by (simp add: tap_event_def)
  next
    case TapClosed
    with True show ?thesis
      using reg_ok_end(1) [OF assms(1,2)] by (simp add: tap_event_def)
  qed
qed (simp add: tap_event_def assms)

lemma reg_ok_lookup:
  assumes "reg_ok g" "map_of (recorders g) sid = Some i"
  shows "i < length (objects g)" "r_sessionId (rec_at g i) = sid"
  using assms by (auto simp: reg_ok_def entry_ok_def list_all_iff dest!: map_of_SomeD)

lemma reg_ok_start:
  assumes "reg_ok g" "startRecording unlocked canRecord sid label host cols rows now clock g = Inr g'" "0 < cols" "0 < rows"
  shows "reg_ok g'"
proof -
  have old: "entry_ok g e \<Longrightarrow> entry_ok g' e" for e
    using assms(2) by (auto simp: startRecording_def entry_ok_def rec_at_def nth_append split: if_splits)
  have new: "entry_ok g' (sid, length (objects g))" "list_all rec_ok (objects g')"
      "inflight g' = inflight g" "length (objects g) \<le> length (objects g')"
      "recorders g' = AList.update sid (length (objects g)) (recorders g)"
    using assms buffer_ok_new [OF assms(3,4), of now]
    by (auto simp: startRecording_def entry_ok_def rec_at_def rec_ok_def reg_ok_def new_CastBuffer_def split: if_splits)
  have "set (recorders g') \<subseteq> insert (sid, length (objects g)) (set (recorders g))"
    unfolding new(5) by (rule set_update_subset)
  then have "list_all (entry_ok g') (recorders g')"
    using old new(1) assms(1) by (auto simp: reg_ok_def list_all_iff)
  with new assms(1) show ?thesis
    by (auto simp: reg_ok_def list_all_iff)
qed

lemma reg_ok_discard: "reg_ok g \<Longrightarrow> reg_ok (discardRecording sid g)"
proof (cases "map_of (recorders g) sid")
  case (Some i)
  assume ok: "reg_ok g"
  note i = reg_ok_lookup [OF ok Some]
  let ?g = "discardRecording sid g"
  have g: "objects ?g = objects (modify i (\<lambda>r. r\<lparr>r_tapped := False\<rparr>) g)" "recorders ?g = AList.delete sid (recorders g)"
      "inflight ?g = inflight g"
    using Some by (simp_all add: discardRecording_def)
  have rec: "rec_at ?g j = (if j = i then (rec_at g i)\<lparr>r_tapped := False\<rparr> else rec_at g j)" for j
    using rec_at_modify [OF i(1), of "\<lambda>r. r\<lparr>r_tapped := False\<rparr>" j] by (simp add: rec_at_def g(1))
  have "list_all rec_ok (objects ?g)"
    unfolding g(1) by (rule rec_ok_objects) (use ok i(1) reg_ok_rec [OF ok i(1)] in \<open>auto simp: reg_ok_def rec_ok_def\<close>)
  moreover have "entry_ok ?g e" if "e \<in> set (AList.delete sid (recorders g))" for e
  proof -
    have e: "entry_ok g e" "fst e \<noteq> sid"
      using that ok by (auto simp: AList.delete_eq reg_ok_def list_all_iff)
    then have "snd e \<noteq> i"
      using i(2) by (auto simp: entry_ok_def)
    with e(1) show ?thesis
      by (simp add: entry_ok_def rec g(1))
  qed
  ultimately show ?thesis
    using ok by (auto simp: reg_ok_def g list_all_iff)
qed (simp add: discardRecording_def)

lemma reg_ok_step: "rec_step g g' \<Longrightarrow> reg_ok g \<Longrightarrow> reg_ok g'"
proof (induction rule: rec_step.induct)
  case (stopped g unlocked clock sid)
  then show ?case
    using reg_ok_end(1) [of g _ unlocked clock EndUser] reg_ok_end(2,3) [of g _ unlocked clock] reg_ok_persist reg_ok_lookup(1) [of g sid]
    by (auto simp: stopRecording_def split: option.splits)
next
  case (retried g unlocked sid)
  then show ?case
    using reg_ok_persist reg_ok_lookup(1) [of g sid] by (auto simp: retrySave_def split: option.splits)
next
  case (saved i g)
  have "reg_ok (g\<lparr>recorders := AList.delete (r_sessionId (rec_at g i)) (recorders g)\<rparr>)"
    by (rule reg_ok_fewer [OF saved(2) set_delete_subset]) (use saved(2) in \<open>simp add: reg_ok_def\<close>)
  then have "reg_ok (g\<lparr>recorders := AList.delete (r_sessionId (rec_at g i)) (recorders g)\<rparr>\<lparr>inflight := remove1 i (inflight g)\<rparr>)"
    by (rule inflight_irrelevant [rotated]) (use saved(2) in \<open>auto simp: reg_ok_def list_all_iff dest: notin_set_remove1 [rotated]\<close>)
  then show ?case by (simp add: persist_ok_def)
next
  case (refused i g plan)
  have i: "i < length (objects g)"
    using refused by (auto simp: reg_ok_def list_all_iff)
  have "reg_ok (modify i (\<lambda>r. r\<lparr>r_saving := False, r_error := True, r_retryable := \<not> plan\<rparr>) g)"
    by (rule reg_ok_modify) (use refused(2) i reg_ok_rec [OF refused(2) i] in \<open>auto simp: rec_ok_def\<close>)
  then have "reg_ok ((modify i (\<lambda>r. r\<lparr>r_saving := False, r_error := True, r_retryable := \<not> plan\<rparr>) g)\<lparr>inflight := remove1 i (inflight g)\<rparr>)"
    by (rule inflight_irrelevant [rotated]) (use refused(2) in \<open>auto simp: reg_ok_def list_all_iff dest: notin_set_remove1 [rotated]\<close>)
  then show ?case by (simp add: persist_failed_def)
qed (use reg_ok_start reg_ok_tap reg_ok_discard in blast)+

lemma reachable_reg_ok: "reachable_registry g \<Longrightarrow> reg_ok g"
proof (induction rule: reachable_registry.induct)
  case initial
  show ?case by (simp add: reg_ok_def empty_registry_def)
next
  case (step g g')
  then show ?case using reg_ok_step by blast
qed

section \<open>Properties\<close>

text \<open>
  The recording indicator is honest: in every state the recorder module can reach, a listed recorder says
  it is capturing exactly when its tap still runs and its buffer still takes bytes, never while it is being
  saved, and it holds at most the cap.
\<close>

theorem recorder_indicator_honest:
  assumes "reachable_registry g" "(sid, i) \<in> set (recorders g)"
  shows "(rs_capturing (state_of (rec_at g i)) \<longleftrightarrow> r_tapped (rec_at g i))
       \<and> (rs_capturing (state_of (rec_at g i)) \<longrightarrow> \<not> b_full (r_buffer (rec_at g i)) \<and> \<not> rs_saving (state_of (rec_at g i)))
       \<and> rs_bytes (state_of (rec_at g i)) \<le> MAX_CAPTURE_BYTES"
proof -
  have ok: "reg_ok g"
    using reachable_reg_ok assms(1) by blast
  then have e: "entry_ok g (sid, i)"
    using assms(2) by (auto simp: reg_ok_def list_all_iff)
  then have "rec_ok (rec_at g i)"
    using ok reg_ok_rec by (auto simp: entry_ok_def)
  with e show ?thesis
    by (auto simp: entry_ok_def rec_ok_def state_of_def buffer_ok_def)
qed

definition example_registry :: Registry where
  "example_registry =
     (case startRecording True True ''s'' ''label'' ''u@h:22'' 80 24 0 0 empty_registry of Inr g \<Rightarrow> g | Inl _ \<Rightarrow> empty_registry)"

lemma example_registry_reachable: "reachable_registry example_registry"
proof -
  have "startRecording True True ''s'' ''label'' ''u@h:22'' 80 24 0 0 empty_registry = Inr example_registry"
    by (simp add: example_registry_def startRecording_def empty_registry_def)
  then have "rec_step empty_registry example_registry"
    by (rule started) simp_all
  with initial show ?thesis by (rule step)
qed

theorem recorder_indicator_honest_witness:
  "rs_capturing (state_of (rec_at example_registry 0)) \<and> r_tapped (rec_at example_registry 0)"
  using recorder_indicator_honest [OF example_registry_reachable, of "''s''" 0]
  by (simp add: example_registry_def startRecording_def empty_registry_def rec_at_def state_of_def)

text \<open>
  What a recorder hands over is a recording the format can hold: for every recorder that has stopped, the
  cast has its stamps in order, ends no earlier than its last event, keeps every byte it counted, and comes
  back from its file unchanged.
\<close>

theorem recorded_cast_round_trips:
  assumes "reachable_registry g" "castFor sid g = Some cast" "number_text num"
    and "parses parse num (header_json (header cast) # map (event_json num) (events cast))"
  shows "sorted (map ev_at (events cast)) \<and> castEnd cast = h_durationMs (header cast)
       \<and> length (outputs (events cast)) \<le> MAX_CAPTURE_BYTES
       \<and> decodeCast parse (encodeCast num cast) = Inr cast"
proof -
  obtain i e where i: "map_of (recorders g) sid = Some i"
      "cast = toCast (e - r_clockBase (rec_at g i)) (Some (r_label (rec_at g i))) (Some (r_host (rec_at g i))) (r_buffer (rec_at g i))"
    using assms(2) by (auto simp: castFor_def Let_def split: option.splits)
  have "reg_ok g"
    using reachable_reg_ok assms(1) by blast
  then have b: "buffer_ok (r_buffer (rec_at g i))"
    using reg_ok_rec reg_ok_lookup(1) [OF _ i(1)] by (auto simp: rec_ok_def)
  define b where "b = r_buffer (rec_at g i)"
  have cast: "events cast = b_events b" "cast_ok cast" "of_int (b_lastAt b) \<le> h_durationMs (header cast)" "0 \<le> h_durationMs (header cast)"
    using b by (simp_all add: i(2) toCast_def cast_ok_def buffer_ok_def CAST_VERSION_def b_def)
  have "ev_at (last (events cast)) \<le> h_durationMs (header cast)" if "events cast \<noteq> []"
  proof -
    have "ev_at (last (events cast)) \<le> of_int (b_lastAt b)"
      using b last_in_set [OF that] unfolding cast(1) by (simp add: buffer_ok_def list_all_iff b_def)
    then show ?thesis using cast(3) by (rule order_trans)
  qed
  then have "castEnd cast = h_durationMs (header cast)"
    using cast(4) by (auto simp: castEnd_def max_def)
  then show ?thesis
    using b cast(1) decodeCast_encodeCast [OF cast(2) assms(3,4)] by (auto simp: buffer_ok_def b_def)
qed

theorem recorded_cast_round_trips_witness:
  "let g = stopRecording True 5 ''s'' example_registry;
       cast = toCast 5 (Some ''label'') (Some ''u@h:22'') (new_CastBuffer 80 24 0);
       parse = (\<lambda>_. Some (header_json (header cast)))
   in castFor ''s'' g = Some cast \<and> decodeCast parse (encodeCast show_whole cast) = Inr cast"
proof -
  define g where "g = stopRecording True 5 ''s'' example_registry"
  define cast where "cast = toCast 5 (Some ''label'') (Some ''u@h:22'') (new_CastBuffer 80 24 0)"
  have "reachable_registry g"
    unfolding g_def by (rule step [OF example_registry_reachable stopped])
  moreover have c: "castFor ''s'' g = Some cast"
    by (simp add: g_def cast_def example_registry_def startRecording_def empty_registry_def stopRecording_def end_recorder_def
        persist_def modify_def rec_at_def castFor_def)
  moreover note number_text_show_whole
  moreover have "parses (\<lambda>_. Some (header_json (header cast))) show_whole (header_json (header cast) # map (event_json show_whole) (events cast))"
    by (simp add: parses_def cast_def toCast_def new_CastBuffer_def)
  ultimately have "decodeCast (\<lambda>_. Some (header_json (header cast))) (encodeCast show_whole cast) = Inr cast"
    using recorded_cast_round_trips [of g "''s''" cast show_whole] by blast
  with c show ?thesis
    unfolding g_def cast_def Let_def by simp
qed

text \<open>
  A finished save can silence a running recorder: when a recording is discarded while its save is under
  way and the same session is recorded again, the answer to the old save removes the new recorder from the
  registry. It is still tapped and still capturing, but nothing lists it, stops it or will ever save it.
\<close>

theorem late_save_orphans_recorder:
  "\<exists>g i. reachable_registry g \<and> i < length (objects g) \<and> r_tapped (rec_at g i) \<and> r_ended (rec_at g i) = None
      \<and> rebuild g = [] \<and> stopRecording True 9 (r_sessionId (rec_at g i)) g = g"
proof -
  define g1 where "g1 = stopRecording True 5 ''s'' example_registry"
  define g2 where "g2 = discardRecording ''s'' g1"
  define g3 where "g3 = (case startRecording True True ''s'' ''again'' ''u@h:22'' 80 24 6 6 g2 of Inr g \<Rightarrow> g | Inl _ \<Rightarrow> g2)"
  define g4 where "g4 = persist_ok 0 g3"
  note defs = g1_def g2_def g3_def g4_def example_registry_def startRecording_def empty_registry_def stopRecording_def
    end_recorder_def persist_def modify_def rec_at_def discardRecording_def persist_ok_def
  have "rec_step example_registry g1" "rec_step g1 g2"
    unfolding g1_def g2_def by (rule stopped, rule discarded)
  moreover have "rec_step g2 g3"
    by (rule started [of True True "''s''" "''again''" "''u@h:22''" 80 24 6 6]) (simp_all add: defs)
  moreover have "rec_step g3 g4"
    unfolding g4_def by (rule saved) (simp add: defs)
  ultimately have "reachable_registry g4"
    using example_registry_reachable by (meson step)
  moreover have "1 < length (objects g4)" "r_tapped (rec_at g4 1)" "r_ended (rec_at g4 1) = None" "rebuild g4 = []"
      "stopRecording True 9 (r_sessionId (rec_at g4 1)) g4 = g4"
    by (simp_all add: defs rebuild_def js_values_def)
  ultimately show ?thesis by blast
qed

end
