(* ===== verification/Recording_Store.thy ===== *)
theory Recording_Store
  imports Relay_Token Recorder
begin

text \<open>
  Stored recordings and their share links: the two places bytes can be in (\<open>lib/recording/blobs.ts\<close>), the account's
  total (\<open>lib/recording/stored-bytes.ts\<close>), the routes \<open>app/api/recordings\<close>, \<open>app/api/recordings/[id]\<close>,
  \<open>app/api/recordings/[id]/shares\<close> and \<open>app/api/shares/[token]\<close>, and the sweep and purge of the bucket
  (\<open>lib/maintenance/objects.ts\<close>, \<open>lib/storage/purge.ts\<close>). The bucket is a map; whether a request to it succeeds,
  and whether a failed one took effect, are arguments.
\<close>

section \<open>Tables and bucket\<close>

record StoredBody =
  sb_ciphertext :: "byte list option"
  sb_storageKey :: "string option"

record RecordingRow =
  rr_userId :: ident
  rr_deviceId :: "ident option"
  rr_targetRef :: "string option"
  rr_body :: StoredBody
  rr_sizeBytes :: nat
  rr_durationMs :: int
  rr_startedAt :: millis
  rr_createdAt :: millis

record ShareRow =
  sh_recordingId :: ident
  sh_userId :: ident
  sh_token :: string
  sh_body :: StoredBody
  sh_sizeBytes :: nat
  sh_expiresAt :: millis
  sh_maxViews :: "int option"
  sh_views :: int
  sh_revokedAt :: "millis option"
  sh_createdAt :: millis

text \<open>An object is its bytes and when it was last modified.\<close>

type_synonym bucket = "(string \<times> byte list \<times> millis) list"

record RecordingDb =
  bucket :: bucket
  recordings :: "(ident \<times> RecordingRow) list"
  shares :: "(ident \<times> ShareRow) list"

section \<open>Bytes in two places\<close>

datatype BodyFailure = Missing | Unreached | Unconfigured

fun statusForBodyError :: "BodyFailure \<Rightarrow> nat" where
  "statusForBodyError Missing = 410"
| "statusForBodyError Unconfigured = 503"
| "statusForBodyError Unreached = 502"

text \<open>How a request to the bucket went; a failed one may have taken effect before its answer was lost.\<close>

datatype bucket_attempt = Done | FailedAfter | FailedBefore

definition takes_effect :: "bucket_attempt \<Rightarrow> bool" where
  "takes_effect a \<longleftrightarrow> a \<noteq> FailedBefore"

definition readBody :: "bool \<Rightarrow> bool \<Rightarrow> StoredBody \<Rightarrow> bucket \<Rightarrow> BodyFailure + byte list option" where
  "readBody configured get_ok row b =
     (case sb_storageKey row of
        None \<Rightarrow> Inr (sb_ciphertext row)
      | Some key \<Rightarrow>
          if \<not> configured then Inl Unconfigured
          else if \<not> get_ok then Inl Unreached
          else (case map_of b key of None \<Rightarrow> Inl Missing | Some obj \<Rightarrow> Inr (Some (fst obj))))"

definition writeBody :: "bool \<Rightarrow> bucket_attempt \<Rightarrow> string \<Rightarrow> byte list \<Rightarrow> millis \<Rightarrow> bucket \<Rightarrow> (BodyFailure + StoredBody) \<times> bucket" where
  "writeBody configured put key blob now b =
     (if \<not> configured then (Inr \<lparr>sb_ciphertext = Some blob, sb_storageKey = None\<rparr>, b)
      else
        (if put = Done then Inr \<lparr>sb_ciphertext = None, sb_storageKey = Some key\<rparr> else Inl Unreached,
         if takes_effect put then AList.update key (blob, now) b else b))"

definition discardBody :: "bool \<Rightarrow> (string \<Rightarrow> bucket_attempt) \<Rightarrow> StoredBody \<Rightarrow> bucket \<Rightarrow> bucket" where
  "discardBody configured del body b =
     (case sb_storageKey body of
        None \<Rightarrow> b
      | Some key \<Rightarrow> if key = [] \<or> \<not> configured then b else if takes_effect (del key) then AList.delete key b else b)"

definition destroyBody :: "bool \<Rightarrow> (string \<Rightarrow> bucket_attempt) \<Rightarrow> StoredBody \<Rightarrow> bucket \<Rightarrow> BodyFailure option \<times> bucket" where
  "destroyBody configured del row b =
     (case sb_storageKey row of
        None \<Rightarrow> (None, b)
      | Some key \<Rightarrow>
          if key = [] then (None, b)
          else if \<not> configured then (Some Unconfigured, b)
          else (if del key = Done then None else Some Unreached, if takes_effect (del key) then AList.delete key b else b))"

fun destroy_all :: "bool \<Rightarrow> (string \<Rightarrow> bucket_attempt) \<Rightarrow> StoredBody list \<Rightarrow> bucket \<Rightarrow> BodyFailure option \<times> bucket" where
  "destroy_all configured del [] b = (None, b)"
| "destroy_all configured del (row # rows) b =
     (case destroyBody configured del row b of
        (Some e, b') \<Rightarrow> (Some e, b')
      | (None, b') \<Rightarrow> destroy_all configured del rows b')"

section \<open>Keys, limits and totals\<close>

definition recordingKey :: "ident \<Rightarrow> ident \<Rightarrow> string" where
  "recordingKey userId recordingId = ''rec/'' @ userId @ ''/'' @ recordingId"

definition shareKey :: "ident \<Rightarrow> ident \<Rightarrow> string" where
  "shareKey userId shareId = ''share/'' @ userId @ ''/'' @ shareId"

definition accountPrefixes :: "ident \<Rightarrow> string list" where
  "accountPrefixes userId = [''rec/'' @ userId @ ''/'', ''share/'' @ userId @ ''/'']"

definition MAX_RECORDING_BLOB_BYTES :: nat where "MAX_RECORDING_BLOB_BYTES = 12 * 1024 * 1024"
definition MAX_ACCOUNT_RECORDING_BYTES :: nat where "MAX_ACCOUNT_RECORDING_BYTES = 1000000000"
definition MAX_DURATION_MS :: rat where "MAX_DURATION_MS = 2147483647"
definition SAVE_LIMIT :: Rule where "SAVE_LIMIT = \<lparr>max_requests = 20, windowSeconds = 3600\<rparr>"

definition storedRecordingBytes :: "ident \<Rightarrow> RecordingDb \<Rightarrow> nat" where
  "storedRecordingBytes u db =
     sum_list (map (rr_sizeBytes \<circ> snd) (filter (\<lambda>(_, r). rr_userId r = u) (recordings db)))
     + sum_list (map (sh_sizeBytes \<circ> snd) (filter (\<lambda>(_, s). sh_userId s = u) (shares db)))"

section \<open>Recordings\<close>

record RecordingPage =
  rp_recordings :: "(ident \<times> RecordingRow) list"
  rp_total :: nat
  rp_storedBytes :: nat
  rp_storageLimitBytes :: nat

definition recording_pageSize :: "jsnum \<Rightarrow> int" where
  "recording_pageSize raw =
     (case raw of Num q \<Rightarrow> if js_trunc q < 1 then 100 else min (js_trunc q) 200 | _ \<Rightarrow> 100)"

definition recordings_GET :: "ident option \<Rightarrow> jsnum \<Rightarrow> RecordingDb \<Rightarrow> RecordingPage option" where
  "recordings_GET user limit_raw db =
     (case user of
        None \<Rightarrow> None
      | Some u \<Rightarrow>
          let mine = filter (\<lambda>(_, r). rr_userId r = u) (recordings db) in
          Some \<lparr>rp_recordings = take (nat (recording_pageSize limit_raw)) (sort_key (\<lambda>(_, r). - rr_createdAt r) mine),
                rp_total = length mine, rp_storedBytes = storedRecordingBytes u db,
                rp_storageLimitBytes = MAX_ACCOUNT_RECORDING_BYTES\<rparr>)"

datatype SaveAnswer = SaveLimited Refusal | SaveStatus nat

definition duration_ok :: "json \<Rightarrow> bool" where
  "duration_ok v = (case v of JNum (Num q) \<Rightarrow> 0 \<le> q \<and> q \<le> MAX_DURATION_MS | _ \<Rightarrow> False)"

definition parsed_date :: "(string \<Rightarrow> millis option) \<Rightarrow> json \<Rightarrow> millis option" where
  "parsed_date date v = (case v of JStr s \<Rightarrow> date s | _ \<Rightarrow> None)"

definition duration_of :: "json \<Rightarrow> int" where
  "duration_of v = (case v of JNum (Num q) \<Rightarrow> js_round q | _ \<Rightarrow> 0)"

text \<open>From the validated body on: the ceiling, the object, then the row.\<close>

definition save_recording ::
  "bool \<Rightarrow> bucket_attempt \<Rightarrow> (string \<Rightarrow> bucket_attempt) \<Rightarrow> bool \<Rightarrow> (ident \<Rightarrow> ident option) \<Rightarrow> ident \<Rightarrow> millis \<Rightarrow> ident \<Rightarrow> json \<Rightarrow> millis
     \<Rightarrow> RecordingDb \<Rightarrow> nat \<times> RecordingDb" where
  "save_recording configured put del insert_ok devices uuid now u body started db =
     (let blob = utf8 (json_str (json_field body ''blob'')) in
      if MAX_ACCOUNT_RECORDING_BYTES < storedRecordingBytes u db + length blob then (413, db)
      else
        (case writeBody configured put (recordingKey u uuid) blob now (bucket db) of
           (Inl e, b) \<Rightarrow> (statusForBodyError e, db\<lparr>bucket := b\<rparr>)
         | (Inr stored, b) \<Rightarrow>
             if insert_ok \<and> map_of (recordings db) uuid = None
             then (201, db\<lparr>bucket := b, recordings := recordings db @
                    [(uuid, \<lparr>rr_userId = u, rr_deviceId = ownedDeviceId devices u (json_field body ''deviceId''),
                       rr_targetRef = (case json_field body ''targetRef'' of JStr r \<Rightarrow> Some r | _ \<Rightarrow> None),
                       rr_body = stored, rr_sizeBytes = length blob, rr_durationMs = duration_of (json_field body ''durationMs''),
                       rr_startedAt = started, rr_createdAt = now\<rparr>)]\<rparr>)
             else (500, db\<lparr>bucket := discardBody configured del stored b\<rparr>)))"

definition recordings_POST ::
  "bool \<Rightarrow> nat \<Rightarrow> string option \<Rightarrow> (string \<Rightarrow> millis option) \<Rightarrow> bool \<Rightarrow> bucket_attempt \<Rightarrow> (string \<Rightarrow> bucket_attempt) \<Rightarrow> bool \<Rightarrow> (ident \<Rightarrow> ident option)
     \<Rightarrow> ident \<Rightarrow> millis \<Rightarrow> sub_table option \<Rightarrow> ident option \<Rightarrow> json option \<Rightarrow> limit_table \<times> RecordingDb \<Rightarrow> SaveAnswer \<times> limit_table \<times> RecordingDb" where
  "recordings_POST reachable hops forwarded date configured put del insert_ok devices uuid now subs user body st =
     (case st of (limits, db) \<Rightarrow>
        (case user of
           None \<Rightarrow> (SaveStatus 401, limits, db)
         | Some u \<Rightarrow>
             (case enforce reachable hops forwarded ''recording'' SAVE_LIMIT (Some u)
                 (Some ''That is more recordings than this account can save in an hour. Nothing was stored and the transcript is still in the tab that made it - wait, then save again.'')
                 now limits of
                (Some r, limits') \<Rightarrow> (SaveLimited r, limits', db)
              | (None, limits') \<Rightarrow>
                  if \<not> canRecordOnTier (tierFor u now subs) then (SaveStatus 402, limits', db)
                  else
                    (case body of
                       None \<Rightarrow> (SaveStatus 400, limits', db)
                     | Some b \<Rightarrow>
                         if b = JNull then (SaveStatus 500, limits', db)
                         else if json_str (json_field b ''blob'') = [] then (SaveStatus 400, limits', db)
                         else if MAX_RECORDING_BLOB_BYTES < length (utf8 (json_str (json_field b ''blob''))) then (SaveStatus 413, limits', db)
                         else if \<not> duration_ok (json_field b ''durationMs'') then (SaveStatus 400, limits', db)
                         else
                           (case parsed_date date (json_field b ''startedAt'') of
                              None \<Rightarrow> (SaveStatus 400, limits', db)
                            | Some started \<Rightarrow>
                                if \<not> target_ref_ok (json_field b ''targetRef'') then (SaveStatus 400, limits', db)
                                else
                                  (case save_recording configured put del insert_ok devices uuid now u b started db of
                                     (status, db') \<Rightarrow> (SaveStatus status, limits', db')))))))"

text \<open>One recording. The owner is part of the lookup, so another account's row is not found.\<close>

definition find_recording :: "ident \<Rightarrow> ident \<Rightarrow> RecordingDb \<Rightarrow> RecordingRow option" where
  "find_recording u i db = (case map_of (recordings db) i of None \<Rightarrow> None | Some r \<Rightarrow> if rr_userId r = u then Some r else None)"

definition recording_GET :: "bool \<Rightarrow> bool \<Rightarrow> ident option \<Rightarrow> ident \<Rightarrow> RecordingDb \<Rightarrow> nat \<times> byte list option" where
  "recording_GET configured get_ok user i db =
     (case user of
        None \<Rightarrow> (401, None)
      | Some u \<Rightarrow>
          (case find_recording u i db of
             None \<Rightarrow> (404, None)
           | Some r \<Rightarrow>
               (case readBody configured get_ok (rr_body r) (bucket db) of
                  Inl e \<Rightarrow> (statusForBodyError e, None)
                | Inr None \<Rightarrow> (410, None)
                | Inr (Some blob) \<Rightarrow> (200, Some blob))))"

text \<open>Deleting the row takes its shares with it (the foreign key cascades).\<close>

definition recording_DELETE ::
  "bool \<Rightarrow> (string \<Rightarrow> bucket_attempt) \<Rightarrow> ident option \<Rightarrow> ident \<Rightarrow> RecordingDb \<Rightarrow> nat \<times> RecordingDb" where
  "recording_DELETE configured del user i db =
     (case user of
        None \<Rightarrow> (401, db)
      | Some u \<Rightarrow>
          (case find_recording u i db of
             None \<Rightarrow> (404, db)
           | Some r \<Rightarrow>
               let copies = map (sh_body \<circ> snd) (filter (\<lambda>(_, s). sh_recordingId s = i \<and> sh_userId s = u) (shares db)) in
               (case destroy_all configured del (rr_body r # copies) (bucket db) of
                  (Some e, b) \<Rightarrow> (statusForBodyError e, db\<lparr>bucket := b\<rparr>)
                | (None, b) \<Rightarrow>
                    (200, db\<lparr>bucket := b, recordings := AList.delete i (recordings db),
                             shares := filter (\<lambda>(_, s). sh_recordingId s \<noteq> i) (shares db)\<rparr>))))"

section \<open>Shares\<close>

definition CLOCK_SKEW_MS :: int where "CLOCK_SKEW_MS = 5 * 60 * 1000"
definition MAX_SHARE_TTL_MS :: int where "MAX_SHARE_TTL_MS = 30 * 24 * 60 * 60 * 1000"
definition MAX_SHARE_VIEWS :: int where "MAX_SHARE_VIEWS = 1000"
definition SHARE_LIMIT :: Rule where "SHARE_LIMIT = \<lparr>max_requests = 20, windowSeconds = 3600\<rparr>"
definition VIEW_LIMIT :: Rule where "VIEW_LIMIT = \<lparr>max_requests = 30, windowSeconds = 60\<rparr>"

definition ownsRecording :: "ident \<Rightarrow> ident \<Rightarrow> RecordingDb \<Rightarrow> bool" where
  "ownsRecording u i db \<longleftrightarrow> find_recording u i db \<noteq> None"

definition shares_GET :: "ident option \<Rightarrow> ident \<Rightarrow> RecordingDb \<Rightarrow> nat \<times> (ident \<times> ShareRow) list" where
  "shares_GET user i db =
     (case user of
        None \<Rightarrow> (401, [])
      | Some u \<Rightarrow>
          if \<not> ownsRecording u i db then (404, [])
          else (200, sort_key (\<lambda>(_, s). - sh_createdAt s) (filter (\<lambda>(_, s). sh_recordingId s = i \<and> sh_userId s = u) (shares db))))"

definition views_ok :: "json \<Rightarrow> bool" where
  "views_ok v =
     (case v of
        JUndef \<Rightarrow> True
      | JNull \<Rightarrow> True
      | JNum (Num q) \<Rightarrow> of_int \<lfloor>q\<rfloor> = q \<and> 1 \<le> q \<and> q \<le> of_int MAX_SHARE_VIEWS
      | _ \<Rightarrow> False)"

definition views_of :: "json \<Rightarrow> int option" where
  "views_of v = (case v of JNum (Num q) \<Rightarrow> Some \<lfloor>q\<rfloor> | _ \<Rightarrow> None)"

definition create_share ::
  "bool \<Rightarrow> bucket_attempt \<Rightarrow> (string \<Rightarrow> bucket_attempt) \<Rightarrow> bool \<Rightarrow> ident \<Rightarrow> string \<Rightarrow> millis \<Rightarrow> ident \<Rightarrow> ident \<Rightarrow> json \<Rightarrow> millis
     \<Rightarrow> RecordingDb \<Rightarrow> nat \<times> RecordingDb" where
  "create_share configured put del insert_ok uuid token now u i body expires db =
     (let blob = utf8 (json_str (json_field body ''blob'')) in
      if MAX_ACCOUNT_RECORDING_BYTES < storedRecordingBytes u db + length blob then (413, db)
      else
        (case writeBody configured put (shareKey u uuid) blob now (bucket db) of
           (Inl e, b) \<Rightarrow> (statusForBodyError e, db\<lparr>bucket := b\<rparr>)
         | (Inr stored, b) \<Rightarrow>
             if insert_ok \<and> map_of (shares db) uuid = None
             then (201, db\<lparr>bucket := b, shares := shares db @
                    [(uuid, \<lparr>sh_recordingId = i, sh_userId = u, sh_token = token, sh_body = stored, sh_sizeBytes = length blob,
                       sh_expiresAt = expires, sh_maxViews = views_of (json_field body ''maxViews''), sh_views = 0,
                       sh_revokedAt = None, sh_createdAt = now\<rparr>)]\<rparr>)
             else (500, db\<lparr>bucket := discardBody configured del stored b\<rparr>)))"

definition shares_POST ::
  "bool \<Rightarrow> nat \<Rightarrow> string option \<Rightarrow> (string \<Rightarrow> millis option) \<Rightarrow> bool \<Rightarrow> bucket_attempt \<Rightarrow> (string \<Rightarrow> bucket_attempt) \<Rightarrow> bool
     \<Rightarrow> ident \<Rightarrow> string \<Rightarrow> millis \<Rightarrow> sub_table option \<Rightarrow> ident option \<Rightarrow> ident \<Rightarrow> json option
     \<Rightarrow> limit_table \<times> RecordingDb \<Rightarrow> SaveAnswer \<times> limit_table \<times> RecordingDb" where
  "shares_POST reachable hops forwarded date configured put del insert_ok uuid token now subs user i body st =
     (case st of (limits, db) \<Rightarrow>
        (case user of
           None \<Rightarrow> (SaveStatus 401, limits, db)
         | Some u \<Rightarrow>
             (case enforce reachable hops forwarded ''share-create'' SHARE_LIMIT (Some u)
                 (Some ''That is more share links than this account can create in an hour. No link was made and the recording is untouched.'')
                 now limits of
                (Some r, limits') \<Rightarrow> (SaveLimited r, limits', db)
              | (None, limits') \<Rightarrow>
                  if \<not> canRecordOnTier (tierFor u now subs) then (SaveStatus 402, limits', db)
                  else
                    (case body of
                       None \<Rightarrow> (SaveStatus 400, limits', db)
                     | Some b \<Rightarrow>
                         if b = JNull then (SaveStatus 500, limits', db)
                         else if json_str (json_field b ''blob'') = [] then (SaveStatus 400, limits', db)
                         else if MAX_RECORDING_BLOB_BYTES < length (utf8 (json_str (json_field b ''blob''))) then (SaveStatus 413, limits', db)
                         else
                           (case parsed_date date (json_field b ''expiresAt'') of
                              None \<Rightarrow> (SaveStatus 400, limits', db)
                            | Some expires \<Rightarrow>
                                if expires - now \<le> 0 \<or> MAX_SHARE_TTL_MS + CLOCK_SKEW_MS < expires - now then (SaveStatus 400, limits', db)
                                else if \<not> views_ok (json_field b ''maxViews'') then (SaveStatus 400, limits', db)
                                else if \<not> ownsRecording u i db then (SaveStatus 404, limits', db)
                                else
                                  (case create_share configured put del insert_ok uuid token now u i b expires db of
                                     (status, db') \<Rightarrow> (SaveStatus status, limits', db')))))))"

definition find_share :: "ident \<Rightarrow> ident \<Rightarrow> ident \<Rightarrow> RecordingDb \<Rightarrow> ShareRow option" where
  "find_share u i shareId db =
     (case map_of (shares db) shareId of
        None \<Rightarrow> None
      | Some s \<Rightarrow> if sh_recordingId s = i \<and> sh_userId s = u then Some s else None)"

definition shares_DELETE ::
  "bool \<Rightarrow> (string \<Rightarrow> bucket_attempt) \<Rightarrow> millis \<Rightarrow> ident option \<Rightarrow> ident \<Rightarrow> string option \<Rightarrow> RecordingDb \<Rightarrow> nat \<times> RecordingDb" where
  "shares_DELETE configured del now user i shareId db =
     (case (user, shareId) of
        (None, _) \<Rightarrow> (401, db)
      | (Some u, None) \<Rightarrow> (400, db)
      | (Some u, Some sid) \<Rightarrow>
          if sid = [] then (400, db)
          else
            (case find_share u i sid db of
               None \<Rightarrow> (404, db)
             | Some s \<Rightarrow>
                 (case destroyBody configured del (sh_body s) (bucket db) of
                    (Some e, b) \<Rightarrow> (statusForBodyError e, db\<lparr>bucket := b\<rparr>)
                  | (None, b) \<Rightarrow>
                      (200, db\<lparr>bucket := b, shares := AList.update sid
                         (s\<lparr>sh_revokedAt := Some (case sh_revokedAt s of Some t \<Rightarrow> t | None \<Rightarrow> now),
                            sh_body := \<lparr>sb_ciphertext = None, sb_storageKey = None\<rparr>, sh_sizeBytes := 0\<rparr>) (shares db)\<rparr>))))"

section \<open>The public end of a share\<close>

definition live_share :: "millis \<Rightarrow> ShareRow \<Rightarrow> bool" where
  "live_share now s \<longleftrightarrow> sh_revokedAt s = None \<and> now < sh_expiresAt s
     \<and> (case sh_maxViews s of None \<Rightarrow> True | Some m \<Rightarrow> sh_views s < m)"

text \<open>The conditional update: it tests and counts in one statement. Tokens are unique.\<close>

definition share_claim :: "millis \<Rightarrow> string \<Rightarrow> RecordingDb \<Rightarrow> (ident \<times> ShareRow) option \<times> RecordingDb" where
  "share_claim now token db =
     (case find (\<lambda>(_, s). sh_token s = token \<and> live_share now s) (shares db) of
        None \<Rightarrow> (None, db)
      | Some (sid, s) \<Rightarrow>
          let s' = s\<lparr>sh_views := sh_views s + 1\<rparr> in (Some (sid, s'), db\<lparr>shares := AList.update sid s' (shares db)\<rparr>))"

definition share_refund :: "ident \<Rightarrow> RecordingDb \<Rightarrow> RecordingDb" where
  "share_refund sid db =
     (case map_of (shares db) sid of
        None \<Rightarrow> db
      | Some s \<Rightarrow> db\<lparr>shares := AList.update sid (s\<lparr>sh_views := max (sh_views s - 1) 0\<rparr>) (shares db)\<rparr>)"

definition share_serve :: "bool \<Rightarrow> bool \<Rightarrow> ident \<times> ShareRow \<Rightarrow> RecordingDb \<Rightarrow> (nat \<times> byte list option) \<times> RecordingDb" where
  "share_serve configured get_ok claimed db =
     (case readBody configured get_ok (sh_body (snd claimed)) (bucket db) of
        Inl e \<Rightarrow> ((statusForBodyError e, None), share_refund (fst claimed) db)
      | Inr None \<Rightarrow> ((404, None), db)
      | Inr (Some blob) \<Rightarrow> ((200, Some blob), db))"

datatype ShareAnswer = ShareLimited Refusal | ShareAnswered nat "byte list option"

definition share_GET ::
  "bool \<Rightarrow> nat \<Rightarrow> string option \<Rightarrow> bool \<Rightarrow> bool \<Rightarrow> millis \<Rightarrow> string \<Rightarrow> limit_table \<times> RecordingDb \<Rightarrow> ShareAnswer \<times> limit_table \<times> RecordingDb" where
  "share_GET reachable hops forwarded configured get_ok now token st =
     (case st of (limits, db) \<Rightarrow>
        (case enforce reachable hops forwarded ''share'' VIEW_LIMIT None
            (Some ''Too many requests for shared recordings from this network. This is a rate limit rather than anything about the link you have - wait a moment and try it again.'')
            now limits of
           (Some r, limits') \<Rightarrow> (ShareLimited r, limits', db)
         | (None, limits') \<Rightarrow>
             (case share_claim now token db of
                (None, db') \<Rightarrow> (ShareAnswered 404 None, limits', db')
              | (Some claimed, db') \<Rightarrow>
                  (case share_serve configured get_ok claimed db' of
                     ((status, blob), db'') \<Rightarrow> (ShareAnswered status blob, limits', db'')))))"

section \<open>Sweep and purge\<close>

definition GRACE_MS :: int where "GRACE_MS = 60 * 60 * 1000"
definition MAX_DELETES :: nat where "MAX_DELETES = 500"

record SweepResult =
  sw_deleted :: nat
  sw_failed :: nat
  sw_tooRecent :: nat
  sw_truncated :: bool

definition claimed_keys :: "RecordingDb \<Rightarrow> string set" where
  "claimed_keys db =
     {k. \<exists>(_, r)\<in>set (recordings db). sb_storageKey (rr_body r) = Some k} \<union> {k. \<exists>(_, s)\<in>set (shares db). sb_storageKey (sh_body s) = Some k}"

fun sweep_objects ::
  "bool \<Rightarrow> (string \<Rightarrow> bucket_attempt) \<Rightarrow> (string \<Rightarrow> bool) \<Rightarrow> millis \<Rightarrow> (string \<times> millis) list \<Rightarrow> SweepResult \<times> bucket \<Rightarrow> SweepResult \<times> bucket" where
  "sweep_objects dryRun del claimed cutoff [] st = st"
| "sweep_objects dryRun del claimed cutoff ((key, modified) # objs) (r, b) =
     (if claimed key then sweep_objects dryRun del claimed cutoff objs (r, b)
      else if cutoff < modified then sweep_objects dryRun del claimed cutoff objs (r\<lparr>sw_tooRecent := sw_tooRecent r + 1\<rparr>, b)
      else if MAX_DELETES \<le> sw_deleted r + sw_failed r then (r\<lparr>sw_truncated := True\<rparr>, b)
      else if dryRun then sweep_objects dryRun del claimed cutoff objs (r\<lparr>sw_deleted := sw_deleted r + 1\<rparr>, b)
      else sweep_objects dryRun del claimed cutoff objs
             (if del key = Done then r\<lparr>sw_deleted := sw_deleted r + 1\<rparr> else r\<lparr>sw_failed := sw_failed r + 1\<rparr>,
              if takes_effect (del key) then AList.delete key b else b))"

definition listObjects :: "bucket \<Rightarrow> string \<Rightarrow> (string \<times> millis) list" where
  "listObjects b pre = map (\<lambda>(k, _, t). (k, t)) (filter (\<lambda>(k, _). starts_with pre k) b)"

text \<open>
  \<open>claimed\<close> is what the two queries returned, before the listings: other requests may have changed the
  tables since.
\<close>

definition sweepOrphanedObjects ::
  "bool \<Rightarrow> bool \<Rightarrow> (string \<Rightarrow> bucket_attempt) \<Rightarrow> (string \<Rightarrow> bool) \<Rightarrow> millis \<Rightarrow> bucket \<Rightarrow> (SweepResult \<times> bucket) option" where
  "sweepOrphanedObjects dryRun configured del claimed now b =
     (if \<not> configured then None
      else
        let start = \<lparr>sw_deleted = 0, sw_failed = 0, sw_tooRecent = 0, sw_truncated = False\<rparr>;
            (r1, b1) = sweep_objects dryRun del claimed (now - GRACE_MS) (listObjects b ''rec/'') (start, b)
        in Some (if sw_truncated r1 then (r1, b1)
                 else sweep_objects dryRun del claimed (now - GRACE_MS) (listObjects b1 ''share/'') (r1, b1)))"

definition deletePrefix :: "(string \<Rightarrow> bucket_attempt) \<Rightarrow> string \<Rightarrow> bucket \<Rightarrow> (nat \<times> nat) \<times> bucket" where
  "deletePrefix del pre b =
     (let keys = map fst (listObjects b pre)
      in ((length (filter (\<lambda>k. del k = Done) keys), length (filter (\<lambda>k. del k \<noteq> Done) keys)),
          foldl (\<lambda>b k. if takes_effect (del k) then AList.delete k b else b) b keys))"

text \<open>\<open>list_ok\<close> says for which prefixes the listing succeeds.\<close>

fun purge_prefixes :: "(string \<Rightarrow> bool) \<Rightarrow> (string \<Rightarrow> bucket_attempt) \<Rightarrow> string list \<Rightarrow> nat \<times> nat \<Rightarrow> bucket \<Rightarrow> (nat \<times> nat) \<times> bucket" where
  "purge_prefixes list_ok del [] counts b = (counts, b)"
| "purge_prefixes list_ok del (pre # pres) (d, f) b =
     (if list_ok pre
      then (case deletePrefix del pre b of ((d', f'), b') \<Rightarrow> purge_prefixes list_ok del pres (d + d', f + f') b')
      else purge_prefixes list_ok del pres (d, f + 1) b)"

definition purgeAccountObjects :: "bool \<Rightarrow> (string \<Rightarrow> bool) \<Rightarrow> (string \<Rightarrow> bucket_attempt) \<Rightarrow> ident \<Rightarrow> bucket \<Rightarrow> ((nat \<times> nat) \<times> bool) \<times> bucket" where
  "purgeAccountObjects configured list_ok del u b =
     (if \<not> configured then (((0, 0), False), b)
      else (case purge_prefixes list_ok del (accountPrefixes u) (0, 0) b of (counts, b') \<Rightarrow> ((counts, True), b')))"

end
