(* ===== verification/Recording_Safety.thy ===== *)
theory Recording_Safety
  imports Recording_Store
begin

text \<open>
  What the stored recordings promise: every row's object is in the bucket whatever a save or a share runs into, a
  delete that succeeds leaves no copy behind, the sweep takes only old objects nothing claims, and a share is served
  at most as often as it was made for.
\<close>

section \<open>Keys\<close>

definition slash_free :: "ident \<Rightarrow> bool" where
  "slash_free i \<longleftrightarrow> CHR ''/'' \<notin> set i"

lemma append_slash_inject:
  assumes "slash_free i" "slash_free j" "u @ ''/'' @ i = v @ ''/'' @ j"
  shows "i = j \<and> u = v"
proof -
  have upto: "takeWhile (\<lambda>c. c \<noteq> CHR ''/'') (rev (u @ ''/'' @ i)) = rev i" if "slash_free i" for u i :: string
  proof -
    have "c \<noteq> CHR ''/''" if "c \<in> set (rev i)" for c
      using that \<open>slash_free i\<close> by (auto simp: slash_free_def)
    from takeWhile_append2 [of "rev i" "\<lambda>c. c \<noteq> CHR ''/''" "CHR ''/'' # rev u", OF this] show ?thesis
      by simp
  qed
  then have "rev i = rev j"
    using upto [OF assms(1), of u] upto [OF assms(2), of v] unfolding assms(3) by simp
  then show ?thesis
    using assms(3) by simp
qed

lemma recordingKey_inject:
  "slash_free i \<Longrightarrow> slash_free j \<Longrightarrow> recordingKey u i = recordingKey v j \<longleftrightarrow> u = v \<and> i = j"
  using append_slash_inject [of i j "''rec/'' @ u" "''rec/'' @ v"] by (auto simp: recordingKey_def)

lemma shareKey_inject:
  "slash_free i \<Longrightarrow> slash_free j \<Longrightarrow> shareKey u i = shareKey v j \<longleftrightarrow> u = v \<and> i = j"
  using append_slash_inject [of i j "''share/'' @ u" "''share/'' @ v"] by (auto simp: shareKey_def)

lemma recordingKey_neq_shareKey [simp]: "recordingKey u i \<noteq> shareKey v j" "shareKey v j \<noteq> recordingKey u i"
  by (simp_all add: recordingKey_def shareKey_def)

lemma keys_nonempty [simp]: "recordingKey u i \<noteq> []" "shareKey u i \<noteq> []"
  by (simp_all add: recordingKey_def shareKey_def)

section \<open>Well-formed rows, and rows whose object is there\<close>

definition recording_ok :: "ident \<Rightarrow> RecordingRow \<Rightarrow> bool" where
  "recording_ok i r \<longleftrightarrow> slash_free i \<and> sb_storageKey (rr_body r) \<in> {None, Some (recordingKey (rr_userId r) i)}
     \<and> (sb_ciphertext (rr_body r) = None) = (sb_storageKey (rr_body r) \<noteq> None)"

definition share_ok :: "RecordingDb \<Rightarrow> ident \<Rightarrow> ShareRow \<Rightarrow> bool" where
  "share_ok db sid s \<longleftrightarrow> slash_free sid \<and> sb_storageKey (sh_body s) \<in> {None, Some (shareKey (sh_userId s) sid)}
     \<and> ownsRecording (sh_userId s) (sh_recordingId s) db"

definition rows_ok :: "RecordingDb \<Rightarrow> bool" where
  "rows_ok db \<longleftrightarrow> distinct (map fst (recordings db)) \<and> distinct (map fst (shares db)) \<and> distinct (map fst (bucket db))
     \<and> (\<forall>i r. map_of (recordings db) i = Some r \<longrightarrow> recording_ok i r)
     \<and> (\<forall>sid s. map_of (shares db) sid = Some s \<longrightarrow> share_ok db sid s)"

lemma rows_okD:
  assumes "rows_ok db"
  shows "map_of (recordings db) i = Some r \<Longrightarrow> recording_ok i r" "map_of (shares db) sid = Some s \<Longrightarrow> share_ok db sid s"
    and "distinct (map fst (recordings db))" "distinct (map fst (shares db))" "distinct (map fst (bucket db))"
  using assms unfolding rows_ok_def by blast+

definition no_dangling :: "RecordingDb \<Rightarrow> bool" where
  "no_dangling db \<longleftrightarrow> claimed_keys db \<subseteq> fst ` set (bucket db)"

lemma claimed_keys_bucket [simp]: "claimed_keys (db\<lparr>bucket := b\<rparr>) = claimed_keys db"
  by (simp add: claimed_keys_def)

lemma share_ok_bucket [simp]: "share_ok (db\<lparr>bucket := b\<rparr>) = share_ok db"
  by (simp add: fun_eq_iff share_ok_def ownsRecording_def find_recording_def)

lemma rows_ok_bucket: "rows_ok db \<Longrightarrow> distinct (map fst b) \<Longrightarrow> rows_ok (db\<lparr>bucket := b\<rparr>)"
  by (simp add: rows_ok_def)

lemma keys_update [simp]: "fst ` set (AList.update k v al) = insert k (fst ` set al)"
  by (simp add: dom_update)

lemma keys_delete [simp]: "fst ` set (AList.delete k al) = fst ` set al - {k}"
  by (metis delete_keys set_map set_removeAll)

lemma claimed_keys_map_of:
  assumes "rows_ok db"
  shows "k \<in> claimed_keys db \<longleftrightarrow>
    (\<exists>i r. map_of (recordings db) i = Some r \<and> sb_storageKey (rr_body r) = Some k)
    \<or> (\<exists>sid s. map_of (shares db) sid = Some s \<and> sb_storageKey (sh_body s) = Some k)"
  using assms by (force simp: claimed_keys_def rows_ok_def)

lemma ownsRecording_alt:
  "ownsRecording u i db \<longleftrightarrow> (\<exists>r. map_of (recordings db) i = Some r \<and> rr_userId r = u)"
  by (auto simp: ownsRecording_def find_recording_def split: option.splits)

lemma writeBody_cases:
  assumes "writeBody configured put key blob now b = (res, b')"
  obtains "res = Inr \<lparr>sb_ciphertext = Some blob, sb_storageKey = None\<rparr>" "b' = b"
  | "res = Inr \<lparr>sb_ciphertext = None, sb_storageKey = Some key\<rparr>" "b' = AList.update key (blob, now) b"
  | e where "res = Inl e" "b' = b \<or> b' = AList.update key (blob, now) b"
  using assms by (auto simp: writeBody_def takes_effect_def split: if_splits)

lemma discardBody_cases:
  "discardBody configured del body b = b \<or> (\<exists>k. sb_storageKey body = Some k \<and> discardBody configured del body b = AList.delete k b)"
  by (auto simp: discardBody_def split: option.splits)

lemma distinct_bucket_discard: "distinct (map fst b) \<Longrightarrow> distinct (map fst (discardBody configured del body b))"
  using discardBody_cases [of configured del body b] by (auto simp: distinct_delete)

lemma map_of_snoc: "map_of (xs @ [(k, v)]) i = (case map_of xs i of None \<Rightarrow> (if i = k then Some v else None) | Some w \<Rightarrow> Some w)"
  by (simp add: map_add_def split: option.splits)

section \<open>Saving keeps every row's object\<close>

definition fresh_id :: "ident \<Rightarrow> RecordingDb \<Rightarrow> bool" where
  "fresh_id uuid db \<longleftrightarrow> slash_free uuid \<and> map_of (recordings db) uuid = None \<and> map_of (shares db) uuid = None"

text \<open>What a save or a share that stores no row can leave: nothing, its object, or neither after taking it back out.\<close>

inductive leaves :: "string \<Rightarrow> RecordingDb \<Rightarrow> RecordingDb \<Rightarrow> bool" for key db where
  leaves_same: "leaves key db db"
| leaves_object: "leaves key db (db\<lparr>bucket := AList.update key obj (bucket db)\<rparr>)"
| leaves_discarded: "leaves key db (db\<lparr>bucket := AList.delete key (AList.update key obj (bucket db))\<rparr>)"

lemma leaves_bucket: "leaves key db db' \<Longrightarrow> db' = db\<lparr>bucket := bucket db'\<rparr> \<and> fst ` set (bucket db) - {key} \<subseteq> fst ` set (bucket db')"
  by (erule leaves.cases) auto

lemma leaves_distinct: "leaves key db db' \<Longrightarrow> distinct (map fst (bucket db)) \<Longrightarrow> distinct (map fst (bucket db'))"
  by (erule leaves.cases) (simp_all add: distinct_update distinct_delete)

lemma leaves_map_of: "leaves key db db' \<Longrightarrow> k \<noteq> key \<Longrightarrow> map_of (bucket db') k = map_of (bucket db) k"
  by (erule leaves.cases) (simp_all add: update_conv' delete_conv')

lemma leaves_keeps:
  assumes "leaves key db db'" "rows_ok db" "no_dangling db" "key \<notin> claimed_keys db"
  shows "rows_ok db' \<and> no_dangling db'"
proof -
  have bucket: "db' = db\<lparr>bucket := bucket db'\<rparr>" "fst ` set (bucket db) - {key} \<subseteq> fst ` set (bucket db')"
    using leaves_bucket [OF assms(1)] by simp_all
  have "rows_ok (db\<lparr>bucket := bucket db'\<rparr>)"
    using leaves_distinct [OF assms(1)] assms(2) by (simp add: rows_ok_bucket rows_ok_def)
  moreover have "claimed_keys db \<subseteq> fst ` set (bucket db')"
    using assms(3,4) bucket(2) by (auto simp: no_dangling_def)
  then have "no_dangling (db\<lparr>bucket := bucket db'\<rparr>)"
    by (simp add: no_dangling_def)
  ultimately show ?thesis
    using bucket(1) by simp
qed

lemma written_cases:
  assumes "writeBody configured put key blob now (bucket db) = (res, b)"
  shows "(\<exists>e. res = Inl e) \<Longrightarrow> leaves key db (db\<lparr>bucket := b\<rparr>)"
    and "res = Inr stored \<Longrightarrow> leaves key db (db\<lparr>bucket := discardBody configured del stored b\<rparr>)"
proof -
  have same: "db\<lparr>bucket := bucket db\<rparr> = db"
    by simp
  show "(\<exists>e. res = Inl e) \<Longrightarrow> leaves key db (db\<lparr>bucket := b\<rparr>)"
    using assms by (elim writeBody_cases) (auto simp: leaves_object leaves_same)
  show "leaves key db (db\<lparr>bucket := discardBody configured del stored b\<rparr>)" if "res = Inr stored"
    using assms
  proof (cases rule: writeBody_cases)
    case 1
    then show ?thesis
      using that leaves_same by (simp add: discardBody_def)
  next
    case 2
    then show ?thesis
      using that discardBody_cases [of configured del stored b] by (auto intro: leaves_object leaves_discarded)
  next
    case (3 e)
    then show ?thesis using that by simp
  qed
qed

lemma stored_body_cases:
  assumes "writeBody configured put key blob now (bucket db) = (Inr stored, b)"
  shows "sb_storageKey stored \<in> {None, Some key}"
    and "set_option (sb_storageKey stored) \<union> fst ` set (bucket db) \<subseteq> fst ` set b"
    and "distinct (map fst (bucket db)) \<Longrightarrow> distinct (map fst b)"
    and "(sb_ciphertext stored = None) = (sb_storageKey stored \<noteq> None)"
    and "k \<noteq> key \<Longrightarrow> map_of b k = map_of (bucket db) k"
  using assms by (elim writeBody_cases; simp add: distinct_update subset_insertI update_conv')+

lemma claimed_keys_add_recording:
  "claimed_keys (db\<lparr>bucket := b, recordings := recordings db @ [(i, r)]\<rparr>) = claimed_keys db \<union> set_option (sb_storageKey (rr_body r))"
  by (cases "sb_storageKey (rr_body r)") (auto simp: claimed_keys_def)

lemma claimed_keys_add_share:
  "claimed_keys (db\<lparr>bucket := b, shares := shares db @ [(sid, s)]\<rparr>) = claimed_keys db \<union> set_option (sb_storageKey (sh_body s))"
  by (cases "sb_storageKey (sh_body s)") (auto simp: claimed_keys_def)

lemma fresh_key:
  assumes "rows_ok db" "fresh_id uuid db"
  shows "recordingKey u uuid \<notin> claimed_keys db" "shareKey u uuid \<notin> claimed_keys db"
proof -
  have rec: "slash_free i \<and> k = recordingKey (rr_userId r) i"
    if "map_of (recordings db) i = Some r" "sb_storageKey (rr_body r) = Some k" for i r k
    using rows_okD(1) [OF assms(1) that(1)] that(2) by (auto simp: recording_ok_def)
  have share: "slash_free sid \<and> k = shareKey (sh_userId s) sid"
    if "map_of (shares db) sid = Some s" "sb_storageKey (sh_body s) = Some k" for sid s k
    using rows_okD(2) [OF assms(1) that(1)] that(2) by (auto simp: share_ok_def)
  have fresh: "slash_free uuid" "map_of (recordings db) uuid = None" "map_of (shares db) uuid = None"
    using assms(2) by (simp_all add: fresh_id_def)
  show "recordingKey u uuid \<notin> claimed_keys db"
    unfolding claimed_keys_map_of [OF assms(1)]
    using rec share fresh(2) recordingKey_inject [OF fresh(1)] recordingKey_neq_shareKey by (metis option.distinct(1))
  show "shareKey u uuid \<notin> claimed_keys db"
    unfolding claimed_keys_map_of [OF assms(1)]
    using rec share fresh(3) shareKey_inject [OF fresh(1)] recordingKey_neq_shareKey by (metis option.distinct(1))
qed

lemma rows_ok_add_recording:
  assumes "rows_ok db" "fresh_id uuid db" "distinct (map fst b)" "recording_ok uuid r"
  shows "rows_ok (db\<lparr>bucket := b, recordings := recordings db @ [(uuid, r)]\<rparr>)"
proof -
  have "uuid \<notin> fst ` set (recordings db)"
    using assms(2) by (simp add: fresh_id_def map_of_eq_None_iff)
  then have "distinct (map fst (recordings db @ [(uuid, r)]))"
    using assms(1) by (simp add: rows_ok_def)
  moreover have "share_ok (db\<lparr>bucket := b, recordings := recordings db @ [(uuid, r)]\<rparr>) sid s" if "share_ok db sid s" for sid s
    using that by (auto simp: share_ok_def ownsRecording_alt map_of_snoc)
  ultimately show ?thesis
    using assms(1,3,4) unfolding rows_ok_def by (auto simp add: map_of_snoc simp del: map_of_append split: option.splits if_splits)
qed

lemma rows_ok_add_share:
  assumes "rows_ok db" "fresh_id uuid db" "distinct (map fst b)" "share_ok db uuid s"
  shows "rows_ok (db\<lparr>bucket := b, shares := shares db @ [(uuid, s)]\<rparr>)"
proof -
  have "uuid \<notin> fst ` set (shares db)"
    using assms(2) by (simp add: fresh_id_def map_of_eq_None_iff)
  then have "distinct (map fst (shares db @ [(uuid, s)]))"
    using assms(1) by (simp add: rows_ok_def)
  moreover have "share_ok (db\<lparr>bucket := b, shares := shares db @ [(uuid, s)]\<rparr>) sid s' = share_ok db sid s'" for sid s'
    by (simp add: share_ok_def ownsRecording_alt)
  ultimately show ?thesis
    using assms(1,3,4) unfolding rows_ok_def by (auto simp add: map_of_snoc simp del: map_of_append split: option.splits if_splits)
qed

lemma save_recording_keeps:
  assumes "rows_ok db" "no_dangling db" "fresh_id uuid db"
  shows "rows_ok (snd (save_recording configured put del insert_ok devices uuid now u body started db))
    \<and> no_dangling (snd (save_recording configured put del insert_ok devices uuid now u body started db))"
proof -
  let ?blob = "utf8 (json_str (json_field body ''blob''))"
  let ?key = "recordingKey u uuid"
  obtain res b where written: "writeBody configured put ?key ?blob now (bucket db) = (res, b)"
    by (cases "writeBody configured put ?key ?blob now (bucket db)")
  show ?thesis
  proof (cases res)
    case (Inl e)
    then show ?thesis
      using leaves_keeps [OF written_cases(1) [OF written] assms(1,2) fresh_key(1) [OF assms(1,3)]] written assms
      by (simp add: save_recording_def Let_def)
  next
    case (Inr stored)
    note body = stored_body_cases [OF written [unfolded Inr]]
    have "distinct (map fst b)"
      using body(3) assms(1) by (simp add: rows_ok_def)
    from rows_ok_add_recording [OF assms(1,3) this] show ?thesis
      using leaves_keeps [OF written_cases(2) [OF written Inr] assms(1,2) fresh_key(1) [OF assms(1,3)]] written assms body Inr
      by (auto simp add: save_recording_def Let_def no_dangling_def claimed_keys_add_recording recording_ok_def fresh_id_def)
  qed
qed

lemma create_share_keeps:
  assumes "rows_ok db" "no_dangling db" "fresh_id uuid db" "ownsRecording u i db"
  shows "rows_ok (snd (create_share configured put del insert_ok uuid token now u i body expires db))
    \<and> no_dangling (snd (create_share configured put del insert_ok uuid token now u i body expires db))"
proof -
  let ?blob = "utf8 (json_str (json_field body ''blob''))"
  let ?key = "shareKey u uuid"
  obtain res b where written: "writeBody configured put ?key ?blob now (bucket db) = (res, b)"
    by (cases "writeBody configured put ?key ?blob now (bucket db)")
  show ?thesis
  proof (cases res)
    case (Inl e)
    then show ?thesis
      using leaves_keeps [OF written_cases(1) [OF written] assms(1,2) fresh_key(2) [OF assms(1,3)]] written assms
      by (simp add: create_share_def Let_def)
  next
    case (Inr stored)
    note body = stored_body_cases [OF written [unfolded Inr]]
    have "distinct (map fst b)"
      using body(3) assms(1) by (simp add: rows_ok_def)
    from rows_ok_add_share [OF assms(1,3) this] show ?thesis
      using leaves_keeps [OF written_cases(2) [OF written Inr] assms(1,2) fresh_key(2) [OF assms(1,3)]] written assms body Inr
      by (auto simp add: create_share_def Let_def no_dangling_def claimed_keys_add_share share_ok_def fresh_id_def)
  qed
qed

section \<open>Destroying bytes\<close>

definition keys_of :: "StoredBody list \<Rightarrow> string set" where
  "keys_of rows = {k. k \<noteq> [] \<and> (\<exists>row\<in>set rows. sb_storageKey row = Some k)}"

lemma keys_of_simps [simp]:
  "keys_of [] = {}"
  "keys_of (row # rows) = {k. k \<noteq> [] \<and> sb_storageKey row = Some k} \<union> keys_of rows"
  by (auto simp: keys_of_def)

lemma destroyBody_None:
  assumes "destroyBody configured del row b = (None, b')"
  shows "b' = b \<and> keys_of [row] = {} \<or> (\<exists>k. keys_of [row] = {k} \<and> b' = AList.delete k b)"
  using assms by (auto simp: destroyBody_def takes_effect_def split: option.splits if_splits)

lemma destroyBody_effect:
  assumes "destroyBody configured del row b = (None, b')"
  shows "fst ` set b' = fst ` set b - keys_of [row]" "k \<notin> keys_of [row] \<Longrightarrow> map_of b' k = map_of b k"
    and "distinct (map fst b) \<Longrightarrow> distinct (map fst b')"
  using destroyBody_None [OF assms] by (elim disjE exE conjE; simp del: keys_of_simps add: delete_conv' distinct_delete)+

lemma keys_of_Cons: "keys_of (row # rows) = keys_of [row] \<union> keys_of rows"
  by simp

lemma destroy_all_None:
  assumes "destroy_all configured del rows b = (None, b')"
  shows "fst ` set b' = fst ` set b - keys_of rows"
    and "k \<notin> keys_of rows \<Longrightarrow> map_of b' k = map_of b k"
    and "distinct (map fst b) \<Longrightarrow> distinct (map fst b')"
proof -
  have "fst ` set b' = fst ` set b - keys_of rows \<and> (k \<notin> keys_of rows \<longrightarrow> map_of b' k = map_of b k)
    \<and> (distinct (map fst b) \<longrightarrow> distinct (map fst b'))"
    using assms
  proof (induction rows arbitrary: b)
    case (Cons row rows)
    then obtain b1 where one: "destroyBody configured del row b = (None, b1)" and rest: "destroy_all configured del rows b1 = (None, b')"
      by (auto split: prod.splits option.splits)
    show ?case
      unfolding keys_of_Cons [of row rows]
      using destroyBody_effect(1,3) [OF one] destroyBody_effect(2) [OF one, of k] Cons.IH [OF rest] by (simp del: keys_of_simps add: set_diff_eq conj_assoc)
  qed simp
  then show "fst ` set b' = fst ` set b - keys_of rows"
    and "k \<notin> keys_of rows \<Longrightarrow> map_of b' k = map_of b k"
    and "distinct (map fst b) \<Longrightarrow> distinct (map fst b')"
    by simp_all
qed

definition copies_of :: "ident \<Rightarrow> ident \<Rightarrow> RecordingDb \<Rightarrow> StoredBody list" where
  "copies_of u i db = map (sh_body \<circ> snd) (filter (\<lambda>(_, s). sh_recordingId s = i \<and> sh_userId s = u) (shares db))"

lemma recording_DELETE_200:
  assumes "recording_DELETE configured del user i db = (200, db')"
  obtains u r b where "user = Some u" "find_recording u i db = Some r"
    "destroy_all configured del (rr_body r # copies_of u i db) (bucket db) = (None, b)"
    "db' = db\<lparr>bucket := b, recordings := AList.delete i (recordings db), shares := filter (\<lambda>(_, s). sh_recordingId s \<noteq> i) (shares db)\<rparr>"
proof -
  have "statusForBodyError e \<noteq> 200" for e
    by (cases e) simp_all
  then have "\<exists>u r b. user = Some u \<and> find_recording u i db = Some r \<and>
      destroy_all configured del (rr_body r # copies_of u i db) (bucket db) = (None, b) \<and>
      db' = db\<lparr>bucket := b, recordings := AList.delete i (recordings db), shares := filter (\<lambda>(_, s). sh_recordingId s \<noteq> i) (shares db)\<rparr>"
    using assms unfolding recording_DELETE_def copies_of_def Let_def by (auto split: option.splits prod.splits)
  with that show ?thesis
    by blast
qed

lemma shares_DELETE_200:
  assumes "shares_DELETE configured del now user i shareId db = (200, db')"
  obtains u sid s b t where "user = Some u" "shareId = Some sid" "find_share u i sid db = Some s"
    "destroyBody configured del (sh_body s) (bucket db) = (None, b)"
    "db' = db\<lparr>bucket := b, shares := AList.update sid
       (s\<lparr>sh_revokedAt := Some t, sh_body := \<lparr>sb_ciphertext = None, sb_storageKey = None\<rparr>, sh_sizeBytes := 0\<rparr>) (shares db)\<rparr>"
proof -
  have "statusForBodyError e \<noteq> 200" for e
    by (cases e) simp_all
  then have "\<exists>u sid s b. user = Some u \<and> shareId = Some sid \<and> find_share u i sid db = Some s \<and>
      destroyBody configured del (sh_body s) (bucket db) = (None, b) \<and>
      (\<exists>t. db' = db\<lparr>bucket := b, shares := AList.update sid
         (s\<lparr>sh_revokedAt := Some t, sh_body := \<lparr>sb_ciphertext = None, sb_storageKey = None\<rparr>, sh_sizeBytes := 0\<rparr>) (shares db)\<rparr>)"
    using assms unfolding shares_DELETE_def by (auto split: option.splits prod.splits if_splits)
  with that show ?thesis
    by blast
qed

lemma find_recording_Some: "find_recording u i db = Some r \<longleftrightarrow> map_of (recordings db) i = Some r \<and> rr_userId r = u"
  by (auto simp: find_recording_def split: option.splits)

lemma find_share_Some: "find_share u i sid db = Some s \<longleftrightarrow> map_of (shares db) sid = Some s \<and> sh_recordingId s = i \<and> sh_userId s = u"
  by (auto simp: find_share_def split: option.splits)

lemma recordings_key:
  assumes "rows_ok db" "map_of (recordings db) i = Some r" "sb_storageKey (rr_body r) = Some k"
  shows "k = recordingKey (rr_userId r) i" "slash_free i"
  using rows_okD(1) [OF assms(1,2)] assms(3) by (auto simp: recording_ok_def)

lemma shares_key:
  assumes "rows_ok db" "map_of (shares db) sid = Some s" "sb_storageKey (sh_body s) = Some k"
  shows "k = shareKey (sh_userId s) sid" "slash_free sid"
  using rows_okD(2) [OF assms(1,2)] assms(3) by (auto simp: share_ok_def)

lemma copies_of_keys:
  assumes "rows_ok db" "k \<in> keys_of (copies_of u i db)"
  obtains sid s where "map_of (shares db) sid = Some s" "sh_recordingId s = i" "sb_storageKey (sh_body s) = Some k"
    "k = shareKey (sh_userId s) sid" "slash_free sid"
proof -
  obtain sid s where s: "(sid, s) \<in> set (shares db)" "sh_recordingId s = i" "sb_storageKey (sh_body s) = Some k"
    using assms(2) by (auto simp: keys_of_def copies_of_def)
  then have "map_of (shares db) sid = Some s"
    using rows_okD(4) [OF assms(1)] by simp
  then show ?thesis
    using that s shares_key [OF assms(1)] by blast
qed

lemma deleted_keys:
  assumes ok: "rows_ok db" and r: "map_of (recordings db) i = Some r"
    and k: "k \<in> keys_of (rr_body r # copies_of u i db)"
  shows "map_of (recordings db) j = Some r' \<Longrightarrow> j \<noteq> i \<Longrightarrow> sb_storageKey (rr_body r') \<noteq> Some k"
    and "map_of (shares db) sid = Some s \<Longrightarrow> sh_recordingId s \<noteq> i \<Longrightarrow> sb_storageKey (sh_body s) \<noteq> Some k"
proof -
  have cases: "(k = recordingKey (rr_userId r) i \<and> slash_free i)
      \<or> (\<exists>sid s. map_of (shares db) sid = Some s \<and> sh_recordingId s = i \<and> k = shareKey (sh_userId s) sid \<and> slash_free sid)"
  proof (cases "sb_storageKey (rr_body r) = Some k")
    case True
    then show ?thesis using recordings_key [OF ok r] by blast
  next
    case False
    then have "k \<in> keys_of (copies_of u i db)"
      using k by simp
    then show ?thesis
      using copies_of_keys [OF ok] by metis
  qed
  show "sb_storageKey (rr_body r') \<noteq> Some k" if "map_of (recordings db) j = Some r'" "j \<noteq> i"
    using cases that recordings_key [OF ok that(1)] recordingKey_inject by (metis recordingKey_neq_shareKey(1))
  show "sb_storageKey (sh_body s) \<noteq> Some k" if "map_of (shares db) sid = Some s" "sh_recordingId s \<noteq> i"
    using cases that shares_key [OF ok that(1)] shareKey_inject by (metis option.inject recordingKey_neq_shareKey(1))
qed

lemma recording_DELETE_rows:
  assumes "recording_DELETE configured del user i db = (200, db')" "rows_ok db"
  shows "map_of (recordings db') j = (if j = i then None else map_of (recordings db) j)"
    and "map_of (shares db') sid = Option.bind (map_of (shares db) sid) (\<lambda>s. if sh_recordingId s \<noteq> i then Some s else None)"
    and "distinct (map fst (recordings db'))" "distinct (map fst (shares db'))" "distinct (map fst (bucket db'))"
  using assms(1) rows_okD(3-5) [OF assms(2)]
  by (auto elim!: recording_DELETE_200 dest: destroy_all_None(3) simp del: destroy_all.simps
      simp: delete_conv' kept_total distinct_delete)

lemma recording_DELETE_keeps:
  assumes delete: "recording_DELETE configured del user i db = (200, db')" and ok: "rows_ok db"
  shows "rows_ok db'" "claimed_keys db' \<subseteq> claimed_keys db"
    and "k \<in> claimed_keys db' \<Longrightarrow> map_of (bucket db') k = map_of (bucket db) k"
proof -
  note rows = recording_DELETE_rows [OF delete ok]
  have "recording_ok j r" if "map_of (recordings db') j = Some r" for j r
    using that rows_okD(1) [OF ok] by (simp add: rows(1) split: if_splits)
  moreover have "share_ok db' sid s" if "map_of (shares db') sid = Some s" for sid s
    using that rows_okD(2) [OF ok, of sid s] unfolding share_ok_def ownsRecording_alt rows
    by (auto simp: bind_eq_Some_conv split: if_splits)
  ultimately show ok': "rows_ok db'"
    using rows(3-5) unfolding rows_ok_def by blast
  show sub: "claimed_keys db' \<subseteq> claimed_keys db"
    using rows(1,2) claimed_keys_map_of [OF ok] claimed_keys_map_of [OF ok']
    by (fastforce simp: bind_eq_Some_conv split: if_splits)
  show "map_of (bucket db') k = map_of (bucket db) k" if "k \<in> claimed_keys db'"
    using delete
  proof (rule recording_DELETE_200)
    fix u r b
    assume found: "find_recording u i db = Some r"
      and gone: "destroy_all configured del (rr_body r # copies_of u i db) (bucket db) = (None, b)"
      and db': "db' = db\<lparr>bucket := b, recordings := AList.delete i (recordings db), shares := filter (\<lambda>(_, s). sh_recordingId s \<noteq> i) (shares db)\<rparr>"
    have "k \<notin> keys_of (rr_body r # copies_of u i db)"
    proof
      assume in_keys: "k \<in> keys_of (rr_body r # copies_of u i db)"
      have "map_of (recordings db) i = Some r"
        using found by (simp add: find_recording_Some)
      note other = deleted_keys [OF ok this in_keys]
      show False
        using that other rows(1,2) unfolding claimed_keys_map_of [OF ok'] by (auto simp: bind_eq_Some_conv split: if_splits)
    qed
    then show ?thesis
      using destroy_all_None(2) [OF gone] db' by simp
  qed
qed

lemma share_update_keeps:
  assumes ok: "rows_ok db" and s: "map_of (shares db) sid = Some s"
    and same: "sh_userId s' = sh_userId s" "sh_recordingId s' = sh_recordingId s" "sb_storageKey (sh_body s') \<in> {None, sb_storageKey (sh_body s)}"
    and b: "distinct (map fst b)"
  shows "rows_ok (db\<lparr>bucket := b, shares := AList.update sid s' (shares db)\<rparr>)"
    "claimed_keys (db\<lparr>bucket := b, shares := AList.update sid s' (shares db)\<rparr>) \<subseteq> claimed_keys db"
proof -
  let ?db' = "db\<lparr>bucket := b, shares := AList.update sid s' (shares db)\<rparr>"
  have shares: "map_of (shares ?db') = (map_of (shares db))(sid \<mapsto> s')"
    by (simp add: update_conv')
  have share_ok': "share_ok ?db' = share_ok db"
    by (simp add: fun_eq_iff share_ok_def ownsRecording_alt)
  have "share_ok db sid s'"
    using rows_okD(2) [OF ok s] same by (auto simp: share_ok_def)
  then have "share_ok ?db' j t" if "map_of (shares ?db') j = Some t" for j t
    using that rows_okD(2) [OF ok] unfolding shares share_ok' by (auto split: if_splits)
  moreover have "distinct (map fst (shares ?db'))"
    using rows_okD(4) [OF ok] by (simp add: distinct_update)
  ultimately show ok': "rows_ok ?db'"
    using rows_okD(1,3) [OF ok] b unfolding rows_ok_def by simp
  show "claimed_keys ?db' \<subseteq> claimed_keys db"
  proof
    fix k
    assume "k \<in> claimed_keys ?db'"
    then consider i r where "map_of (recordings db) i = Some r" "sb_storageKey (rr_body r) = Some k"
      | j t where "((map_of (shares db))(sid \<mapsto> s')) j = Some t" "sb_storageKey (sh_body t) = Some k"
      unfolding claimed_keys_map_of [OF ok'] shares by auto
    then show "k \<in> claimed_keys db"
      unfolding claimed_keys_map_of [OF ok] using s same(3) by cases (auto split: if_splits)
  qed
qed

lemma shares_DELETE_keeps:
  assumes revoke: "shares_DELETE configured del now user i shareId db = (200, db')" and ok: "rows_ok db"
  shows "rows_ok db'" "claimed_keys db' \<subseteq> claimed_keys db"
    and "k \<in> claimed_keys db' \<Longrightarrow> map_of (bucket db') k = map_of (bucket db) k"
proof -
  obtain u sid s b t where found: "find_share u i sid db = Some s"
    and gone: "destroyBody configured del (sh_body s) (bucket db) = (None, b)"
    and db': "db' = db\<lparr>bucket := b, shares := AList.update sid
       (s\<lparr>sh_revokedAt := Some t, sh_body := \<lparr>sb_ciphertext = None, sb_storageKey = None\<rparr>, sh_sizeBytes := 0\<rparr>) (shares db)\<rparr>"
    using revoke by (rule shares_DELETE_200)
  let ?s' = "s\<lparr>sh_revokedAt := Some t, sh_body := \<lparr>sb_ciphertext = None, sb_storageKey = None\<rparr>, sh_sizeBytes := 0\<rparr>"
  have s: "map_of (shares db) sid = Some s"
    using found by (simp add: find_share_Some)
  have b: "distinct (map fst b)"
    using destroyBody_effect(3) [OF gone] rows_okD(5) [OF ok] .
  note kept = share_update_keeps [OF ok s _ _ _ b, of ?s']
  show ok': "rows_ok db'" and sub: "claimed_keys db' \<subseteq> claimed_keys db"
    using kept db' by simp_all
  show "map_of (bucket db') k = map_of (bucket db) k" if k: "k \<in> claimed_keys db'"
  proof -
    have "sb_storageKey (sh_body s) \<noteq> Some k"
    proof
      assume key: "sb_storageKey (sh_body s) = Some k"
      note own = shares_key [OF ok s key]
      from k consider j r where "map_of (recordings db) j = Some r" "sb_storageKey (rr_body r) = Some k"
        | j t' where "((map_of (shares db))(sid \<mapsto> ?s')) j = Some t'" "sb_storageKey (sh_body t') = Some k"
        unfolding claimed_keys_map_of [OF ok'] unfolding db' by (auto simp: update_conv')
      then show False
      proof cases
        case 1
        then show False using recordings_key [OF ok 1] own by simp
      next
        case (2 j t')
        then have j: "j \<noteq> sid" "map_of (shares db) j = Some t'"
          by (auto split: if_splits)
        show False
          using shares_key [OF ok j(2) 2(2)] own shareKey_inject j(1) by metis
      qed
    qed
    then have "k \<notin> keys_of [sh_body s]"
      by simp
    then show ?thesis
      using destroyBody_effect(2) [OF gone] by (simp add: db')
  qed
qed

section \<open>Views\<close>

lemma share_claim_cases:
  assumes "rows_ok db" "share_claim now token db = (res, db')"
  obtains "res = None" "db' = db" "\<forall>(_, s)\<in>set (shares db). sh_token s = token \<longrightarrow> \<not> live_share now s"
  | sid s where "map_of (shares db) sid = Some s" "sh_token s = token" "live_share now s"
      "res = Some (sid, s\<lparr>sh_views := sh_views s + 1\<rparr>)"
      "db' = db\<lparr>shares := AList.update sid (s\<lparr>sh_views := sh_views s + 1\<rparr>) (shares db)\<rparr>"
proof (cases "find (\<lambda>(_, s). sh_token s = token \<and> live_share now s) (shares db)")
  case None
  then have "res = None" "db' = db"
    using assms(2) by (simp_all add: share_claim_def)
  moreover have "\<forall>(_, s)\<in>set (shares db). sh_token s = token \<longrightarrow> \<not> live_share now s"
    using None unfolding find_None_iff by auto
  ultimately show ?thesis
    by (rule that(1))
next
  case (Some x)
  then have "x \<in> set (shares db)" "case x of (_, s) \<Rightarrow> sh_token s = token \<and> live_share now s"
    unfolding find_Some_iff using nth_mem by (metis (no_types, lifting))+
  then obtain sid s where x: "x = (sid, s)" "(sid, s) \<in> set (shares db)" "sh_token s = token" "live_share now s"
    by (cases x) auto
  then have "map_of (shares db) sid = Some s"
    using rows_okD(4) [OF assms(1)] by simp
  then show ?thesis
    using assms(2) that(2) x Some by (simp add: share_claim_def Let_def)
qed

lemma same_bucket [simp]: "db\<lparr>bucket := bucket db, shares := t\<rparr> = db\<lparr>shares := t\<rparr>"
  by simp

lemma share_claim_keeps:
  assumes "rows_ok db" "share_claim now token db = (res, db')"
  shows "rows_ok db' \<and> claimed_keys db' \<subseteq> claimed_keys db \<and> bucket db' = bucket db \<and> recordings db' = recordings db"
  using assms(2)
proof (rule share_claim_cases [OF assms(1)])
  fix sid s
  assume s: "map_of (shares db) sid = Some s"
    and db': "db' = db\<lparr>shares := AList.update sid (s\<lparr>sh_views := sh_views s + 1\<rparr>) (shares db)\<rparr>"
  show ?thesis
    using share_update_keeps [OF assms(1) s _ _ _ rows_okD(5) [OF assms(1)], of "s\<lparr>sh_views := sh_views s + 1\<rparr>"]
    unfolding db' by simp
qed (simp add: assms(1))

lemma share_refund_keeps:
  assumes "rows_ok db"
  shows "rows_ok (share_refund sid db) \<and> claimed_keys (share_refund sid db) \<subseteq> claimed_keys db
    \<and> bucket (share_refund sid db) = bucket db \<and> recordings (share_refund sid db) = recordings db"
proof (cases "map_of (shares db) sid")
  case (Some s)
  show ?thesis
    using share_update_keeps [OF assms Some _ _ _ rows_okD(5) [OF assms], of "s\<lparr>sh_views := max (sh_views s - 1) 0\<rparr>"] Some
    unfolding share_refund_def by simp
qed (simp add: share_refund_def assms)

section \<open>The sweep\<close>

lemma listObjects_entry:
  "(k, t) \<in> set (listObjects b pre) \<longleftrightarrow> (\<exists>bytes. (k, bytes, t) \<in> set b) \<and> starts_with pre k"
  by (force simp: listObjects_def)

lemma sweep_objects_step:
  assumes "sweep_objects dryRun del claimed cutoff ((key, t) # objs) (r, b) = res"
  obtains "snd res = b"
  | r2 where "sweep_objects dryRun del claimed cutoff objs (r2, b) = res"
  | r2 where "\<not> claimed key" "t \<le> cutoff" "sweep_objects dryRun del claimed cutoff objs (r2, AList.delete key b) = res"
  using assms by (auto simp: not_less split: if_splits)

lemma sweep_objects_spares:
  assumes "sweep_objects dryRun del claimed cutoff objs (r, b) = res"
    and "\<forall>t. (k, t) \<in> set objs \<longrightarrow> claimed k \<or> cutoff < t"
  shows "map_of (snd res) k = map_of b k"
  using assms
proof (induction objs arbitrary: r b)
  case (Cons obj objs)
  obtain key t where obj: "obj = (key, t)"
    by (cases obj)
  show ?case
    using Cons.prems(1) unfolding obj
  proof (rule sweep_objects_step)
    fix r2
    assume "\<not> claimed key" "t \<le> cutoff" and rest: "sweep_objects dryRun del claimed cutoff objs (r2, AList.delete key b) = res"
    then have "k \<noteq> key"
      using Cons.prems(2) obj by force
    then show ?thesis
      using Cons.IH [OF rest] Cons.prems(2) by (simp add: delete_conv')
  next
    fix r2
    assume "sweep_objects dryRun del claimed cutoff objs (r2, b) = res"
    from Cons.IH [OF this] show ?thesis
      using Cons.prems(2) by simp
  qed simp
qed auto

lemma sweep_objects_distinct:
  "sweep_objects dryRun del claimed cutoff objs (r, b) = res \<Longrightarrow> distinct (map fst b) \<Longrightarrow>
    distinct (map fst (snd res)) \<and> set (snd res) \<subseteq> set b"
proof (induction objs arbitrary: r b)
  case (Cons obj objs)
  obtain key t where obj: "obj = (key, t)"
    by (cases obj)
  show ?case
    using Cons.prems(1) unfolding obj
  proof (rule sweep_objects_step)
    fix r2
    assume "sweep_objects dryRun del claimed cutoff objs (r2, AList.delete key b) = res"
    from Cons.IH [OF this distinct_delete [OF Cons.prems(2)]] show ?thesis
      using set_delete_subset by (meson order_trans)
  next
    fix r2
    assume "sweep_objects dryRun del claimed cutoff objs (r2, b) = res"
    from Cons.IH [OF this Cons.prems(2)] show ?thesis .
  qed (use Cons.prems(2) in simp)
qed auto

lemma sweep_stages:
  assumes "sweepOrphanedObjects dryRun configured del claimed now b = Some (r, b')"
  obtains r0 r1 b1 where "sweep_objects dryRun del claimed (now - GRACE_MS) (listObjects b ''rec/'') (r0, b) = (r1, b1)"
    "(r = r1 \<and> b' = b1 \<and> sw_truncated r1) \<or>
     (\<not> sw_truncated r1 \<and> sweep_objects dryRun del claimed (now - GRACE_MS) (listObjects b1 ''share/'') (r1, b1) = (r, b'))"
  using assms unfolding sweepOrphanedObjects_def Let_def by (auto split: if_splits prod.splits)

lemma sweep_spares:
  assumes sweep: "sweepOrphanedObjects dryRun configured del claimed now b = Some (r, b')"
    and dist: "distinct (map fst b)" and kept: "claimed k \<or> (\<exists>obj. map_of b k = Some obj \<and> now - GRACE_MS < snd obj)"
  shows "map_of b' k = map_of b k"
proof -
  obtain r0 r1 b1 where one: "sweep_objects dryRun del claimed (now - GRACE_MS) (listObjects b ''rec/'') (r0, b) = (r1, b1)"
    and two: "(r = r1 \<and> b' = b1 \<and> sw_truncated r1) \<or>
     (\<not> sw_truncated r1 \<and> sweep_objects dryRun del claimed (now - GRACE_MS) (listObjects b1 ''share/'') (r1, b1) = (r, b'))"
    using sweep by (rule sweep_stages)
  have young: "\<forall>t. (k, t) \<in> set (listObjects c pre) \<longrightarrow> claimed k \<or> now - GRACE_MS < t" if sub: "set c \<subseteq> set b" for c pre
  proof (intro allI impI)
    fix t
    assume "(k, t) \<in> set (listObjects c pre)"
    then obtain bytes where "(k, bytes, t) \<in> set b"
      using sub unfolding listObjects_entry by blast
    then have "map_of b k = Some (bytes, t)"
      using dist by simp
    then show "claimed k \<or> now - GRACE_MS < t"
      using kept by auto
  qed
  have b1: "map_of b1 k = map_of b k" "distinct (map fst b1)" "set b1 \<subseteq> set b"
    using sweep_objects_spares [OF one young [OF order_refl]] sweep_objects_distinct [OF one dist] by simp_all
  have "map_of b' k = map_of b1 k" if "sweep_objects dryRun del claimed (now - GRACE_MS) (listObjects b1 ''share/'') (r1, b1) = (r, b')"
    using sweep_objects_spares [OF that young [OF b1(3)]] by simp
  then show ?thesis
    using two b1 by auto
qed

lemma sweep_distinct:
  assumes sweep: "sweepOrphanedObjects dryRun configured del claimed now b = Some (r, b')" and dist: "distinct (map fst b)"
  shows "distinct (map fst b')"
  using sweep
proof (rule sweep_stages)
  fix r0 r1 b1
  assume one: "sweep_objects dryRun del claimed (now - GRACE_MS) (listObjects b ''rec/'') (r0, b) = (r1, b1)"
    and two: "(r = r1 \<and> b' = b1 \<and> sw_truncated r1) \<or>
     (\<not> sw_truncated r1 \<and> sweep_objects dryRun del claimed (now - GRACE_MS) (listObjects b1 ''share/'') (r1, b1) = (r, b'))"
  have "distinct (map fst b1)"
    using sweep_objects_distinct [OF one dist] by simp
  then show ?thesis
    using two sweep_objects_distinct [of dryRun del claimed "now - GRACE_MS" "listObjects b1 ''share/''" r1 b1 "(r, b')"] by auto
qed

section \<open>Everything that happens to the tables and the bucket\<close>

text \<open>
  A delete or a revocation is a step when it reports success. The sweep may run on an old set of claimed keys, as long
  as every object claimed since is younger than the grace window.
\<close>

inductive store_step :: "RecordingDb \<Rightarrow> RecordingDb \<Rightarrow> bool" where
  save: "fresh_id uuid db \<Longrightarrow> store_step db (snd (save_recording configured put del insert_ok devices uuid now u body started db))"
| share: "fresh_id uuid db \<Longrightarrow> ownsRecording u i db \<Longrightarrow>
    store_step db (snd (create_share configured put del insert_ok uuid token now u i body expires db))"
| delete: "recording_DELETE configured del user i db = (200, db') \<Longrightarrow> store_step db db'"
| revoke: "shares_DELETE configured del now user i shareId db = (200, db') \<Longrightarrow> store_step db db'"
| claim: "store_step db (snd (share_claim now token db))"
| serve: "store_step db (snd (share_serve configured get_ok claimed db))"
| sweep: "sweepOrphanedObjects dryRun configured del claimed now (bucket db) = Some (r, b') \<Longrightarrow>
    (\<forall>k\<in>claimed_keys db. claimed k \<or> (\<exists>obj. map_of (bucket db) k = Some obj \<and> now - GRACE_MS < snd obj)) \<Longrightarrow>
    store_step db (db\<lparr>bucket := b'\<rparr>)"

inductive reachable_store :: "RecordingDb \<Rightarrow> bool" where
  empty: "reachable_store \<lparr>bucket = [], recordings = [], shares = []\<rparr>"
| step: "reachable_store db \<Longrightarrow> store_step db db' \<Longrightarrow> reachable_store db'"

definition keeps_objects :: "RecordingDb \<Rightarrow> RecordingDb \<Rightarrow> bool" where
  "keeps_objects db db' \<longleftrightarrow> rows_ok db' \<and>
     (\<forall>k\<in>claimed_keys db \<inter> claimed_keys db'. map_of (bucket db') k = map_of (bucket db) k) \<and>
     (no_dangling db \<longrightarrow> no_dangling db')"

lemma keeps_objectsI:
  assumes "rows_ok db'" "claimed_keys db' \<subseteq> claimed_keys db"
    and "\<And>k. k \<in> claimed_keys db' \<Longrightarrow> map_of (bucket db') k = map_of (bucket db) k"
  shows "keeps_objects db db'"
proof -
  have "k \<in> fst ` set (bucket db')" if "no_dangling db" "k \<in> claimed_keys db'" for k
  proof -
    have "map_of (bucket db) k \<noteq> None"
      using that assms(2) unfolding no_dangling_def map_of_eq_None_iff by auto
    then show ?thesis
      using assms(3) [OF that(2)] by (metis map_of_eq_None_iff)
  qed
  then show ?thesis
    using assms by (auto simp: keeps_objects_def no_dangling_def)
qed

lemma written_map_of:
  assumes "writeBody configured put key blob now (bucket db) = (res, b)" "k \<noteq> key"
  shows "map_of b k = map_of (bucket db) k" "res = Inr stored \<Longrightarrow> map_of (discardBody configured del stored b) k = map_of (bucket db) k"
proof -
  show b: "map_of b k = map_of (bucket db) k"
    using assms by (elim writeBody_cases) (auto simp: update_conv')
  show "map_of (discardBody configured del stored b) k = map_of (bucket db) k" if "res = Inr stored"
    using stored_body_cases(1) [OF assms(1) [unfolded that]] assms(2) discardBody_cases [of configured del stored b] b
    by (auto simp: delete_conv')
qed

lemma save_recording_bucket:
  "k \<noteq> recordingKey u uuid \<Longrightarrow>
    map_of (bucket (snd (save_recording configured put del insert_ok devices uuid now u body started db))) k = map_of (bucket db) k"
  by (auto simp: save_recording_def Let_def written_map_of split: prod.splits sum.splits)

lemma create_share_bucket:
  "k \<noteq> shareKey u uuid \<Longrightarrow>
    map_of (bucket (snd (create_share configured put del insert_ok uuid token now u i body expires db))) k = map_of (bucket db) k"
  by (auto simp: create_share_def Let_def written_map_of split: prod.splits sum.splits)

lemma share_serve_cases: "snd (share_serve configured get_ok claimed db) \<in> {db, share_refund (fst claimed) db}"
  by (auto simp: share_serve_def split: sum.splits option.splits)

lemma keeps_objects_refl: "rows_ok db \<Longrightarrow> keeps_objects db db"
  by (simp add: keeps_objects_def)

lemma store_step_keeps:
  assumes "store_step db db'" "rows_ok db" "no_dangling db"
  shows "keeps_objects db db'"
  using assms(1)
proof (cases rule: store_step.cases)
  case (save uuid configured put del insert_ok devices now u body started)
  then show ?thesis
    using save_recording_keeps [OF assms(2,3) save(2)] fresh_key(1) [OF assms(2) save(2), of u]
    unfolding keeps_objects_def save(1) by (auto intro!: save_recording_bucket)
next
  case (share uuid u i configured put del insert_ok token now body expires)
  then show ?thesis
    using create_share_keeps [OF assms(2,3) share(2,3)] fresh_key(2) [OF assms(2) share(2), of u]
    unfolding keeps_objects_def share(1) by (auto intro!: create_share_bucket)
next
  case delete
  show ?thesis
    by (rule keeps_objectsI) (rule recording_DELETE_keeps [OF delete assms(2)], assumption?)+
next
  case revoke
  show ?thesis
    by (rule keeps_objectsI) (rule shares_DELETE_keeps [OF revoke assms(2)], assumption?)+
next
  case (claim now token)
  then show ?thesis
    using share_claim_keeps [OF assms(2), of now token "fst (share_claim now token db)" db'] by (intro keeps_objectsI) auto
next
  case (serve configured get_ok claimed)
  then have "db' = db \<or> db' = share_refund (fst claimed) db"
    using share_serve_cases by auto
  then show ?thesis
    using share_refund_keeps [OF assms(2), of "fst claimed"] keeps_objects_refl [OF assms(2)]
      keeps_objectsI [of "share_refund (fst claimed) db" db] by auto
next
  case (sweep dryRun configured del claimed now r b')
  note spares = sweep_spares [OF sweep(2) rows_okD(5) [OF assms(2)]]
  have kept: "map_of b' k = map_of (bucket db) k" if "k \<in> claimed_keys db" for k
    using spares that sweep(3) by blast
  have "distinct (map fst b')"
    by (rule sweep_distinct [OF sweep(2) rows_okD(5) [OF assms(2)]])
  then show ?thesis
    unfolding sweep(1) using kept rows_ok_bucket [OF assms(2)] by (intro keeps_objectsI) auto
qed

lemma reachable_store_ok: "reachable_store db \<Longrightarrow> rows_ok db \<and> no_dangling db"
proof (induction rule: reachable_store.induct)
  case empty
  show ?case by (simp add: rows_ok_def no_dangling_def claimed_keys_def)
next
  case (step db db')
  then show ?case
    using store_step_keeps [of db db'] by (simp add: keeps_objects_def)
qed

section \<open>A saved recording plays until it is deleted\<close>

lemma save_recording_rows:
  "snd (save_recording configured put del insert_ok devices uuid now u body started db) = db' \<Longrightarrow> i \<noteq> uuid \<Longrightarrow>
    map_of (recordings db') i = map_of (recordings db) i"
  by (auto simp: save_recording_def Let_def map_of_snoc simp del: map_of_append split: prod.splits sum.splits option.splits if_splits)

lemma create_share_rows: "recordings (snd (create_share configured put del insert_ok uuid token now u i body expires db)) = recordings db"
  by (auto simp: create_share_def Let_def split: prod.splits sum.splits)

lemma store_step_recordings:
  assumes "store_step db db'" "rows_ok db" "map_of (recordings db) i = Some r" "map_of (recordings db') i = Some r'"
  shows "r' = r"
  using assms(1)
proof (cases rule: store_step.cases)
  case (save uuid configured put del insert_ok devices now u body started)
  have "i \<noteq> uuid"
    using save(2) assms(3) by (auto simp: fresh_id_def)
  from save_recording_rows [OF save(1) [symmetric] this] show ?thesis
    using assms(3,4) by simp
next
  case (share uuid u i configured put del insert_ok token now body expires)
  then show ?thesis
    using assms(3,4) by (simp add: create_share_rows)
next
  case delete
  from recording_DELETE_rows(1) [OF delete assms(2), of i] show ?thesis
    using assms(3,4) by (simp split: if_splits)
next
  case revoke
  from revoke obtain b t where "db' = db\<lparr>bucket := b, shares := t\<rparr>"
    by (rule shares_DELETE_200) blast
  then show ?thesis
    using assms(3,4) by simp
next
  case (claim now token)
  then show ?thesis
    using assms share_claim_keeps [OF assms(2), of now token "fst (share_claim now token db)" db'] by simp
next
  case (serve configured get_ok claimed)
  then show ?thesis
    using assms(3,4) share_serve_cases [of configured get_ok claimed db] share_refund_keeps [OF assms(2), of "fst claimed"] by auto
next
  case sweep
  then show ?thesis
    using assms(3,4) by simp
qed

definition stored_as :: "ident \<Rightarrow> ident \<Rightarrow> byte list \<Rightarrow> RecordingDb \<Rightarrow> bool" where
  "stored_as u i blob db \<longleftrightarrow> (\<exists>r. find_recording u i db = Some r \<and>
     (case sb_storageKey (rr_body r) of
        None \<Rightarrow> sb_ciphertext (rr_body r) = Some blob
      | Some k \<Rightarrow> \<exists>t. map_of (bucket db) k = Some (blob, t)))"

lemma stored_as_plays: "stored_as u i blob db \<Longrightarrow> recording_GET True True (Some u) i db = (200, Some blob)"
  by (auto simp: stored_as_def recording_GET_def readBody_def split: option.splits)

lemma stored_as_exists:
  assumes "rows_ok db" "no_dangling db" "find_recording u i db = Some r"
  shows "\<exists>blob. stored_as u i blob db"
proof (cases "sb_storageKey (rr_body r)")
  case None
  then show ?thesis
    using assms(3) rows_okD(1) [OF assms(1), of i r] by (auto simp: stored_as_def recording_ok_def find_recording_Some)
next
  case (Some k)
  have row: "map_of (recordings db) i = Some r"
    using assms(3) by (simp add: find_recording_Some)
  then have "k \<in> claimed_keys db"
    using claimed_keys_map_of [OF assms(1)] Some by blast
  then have "map_of (bucket db) k \<noteq> None"
    using assms(2) unfolding no_dangling_def map_of_eq_None_iff by auto
  then show ?thesis
    using assms(3) Some by (auto simp: stored_as_def)
qed

lemma stored_as_step:
  assumes "store_step db db'" "rows_ok db" "no_dangling db" "stored_as u i blob db" "find_recording u i db' \<noteq> None"
  shows "stored_as u i blob db'"
proof -
  obtain r where r: "find_recording u i db = Some r"
    using assms(4) by (auto simp: stored_as_def)
  obtain r' where r': "find_recording u i db' = Some r'"
    using assms(5) by auto
  have rows: "map_of (recordings db) i = Some r" "map_of (recordings db') i = Some r'"
    using r r' by (simp_all add: find_recording_Some)
  have same: "r' = r"
    by (rule store_step_recordings [OF assms(1,2) rows])
  note kept = store_step_keeps [OF assms(1,2,3), unfolded keeps_objects_def]
  have "map_of (bucket db') k = map_of (bucket db) k" if "sb_storageKey (rr_body r) = Some k" for k
  proof -
    have "k \<in> claimed_keys db" "k \<in> claimed_keys db'"
      using claimed_keys_map_of [OF assms(2)] claimed_keys_map_of [of db'] rows that kept same by blast+
    then show ?thesis using kept by blast
  qed
  then show ?thesis
    using assms(4) r r' same by (auto simp: stored_as_def split: option.splits)
qed

lemma save_recording_stored:
  assumes "save_recording configured put del insert_ok devices uuid now u body started db = (201, db')" "fresh_id uuid db"
  shows "stored_as u uuid (utf8 (json_str (json_field body ''blob''))) db'"
proof -
  have "statusForBodyError e \<noteq> 201" for e
    by (cases e) simp_all
  then have "\<exists>stored b r. writeBody configured put (recordingKey u uuid) (utf8 (json_str (json_field body ''blob''))) now (bucket db) = (Inr stored, b)
      \<and> db' = db\<lparr>bucket := b, recordings := recordings db @ [(uuid, r)]\<rparr> \<and> rr_userId r = u \<and> rr_body r = stored"
    using assms(1) unfolding save_recording_def Let_def by (auto split: prod.splits sum.splits if_splits)
  then obtain stored b r where
    written: "writeBody configured put (recordingKey u uuid) (utf8 (json_str (json_field body ''blob''))) now (bucket db) = (Inr stored, b)"
    and db': "db' = db\<lparr>bucket := b, recordings := recordings db @ [(uuid, r)]\<rparr>" and r: "rr_userId r = u" "rr_body r = stored"
    by blast
  have "find_recording u uuid db' = Some r"
    using assms(2) r unfolding db' by (simp add: find_recording_def fresh_id_def map_of_snoc del: map_of_append)
  then show ?thesis
    using written r unfolding stored_as_def db' by (auto elim!: writeBody_cases simp: update_conv')
qed


section \<open>An example\<close>

definition example_body :: "string \<Rightarrow> json" where
  "example_body blob = JObj [(''blob'', JStr blob), (''durationMs'', JNum (Num 5)), (''maxViews'', JNum (Num 1))]"

definition empty_store :: RecordingDb where
  "empty_store = \<lparr>bucket = [], recordings = [], shares = []\<rparr>"

definition example_saved :: RecordingDb where
  "example_saved = snd (save_recording True Done (\<lambda>_. Done) True (\<lambda>_. None) ''r1'' 10 ''u'' (example_body ''ab'') 7 empty_store)"

definition example_shared :: RecordingDb where
  "example_shared = snd (create_share True Done (\<lambda>_. Done) True ''s1'' ''tok'' 20 ''u'' ''r1'' (example_body ''cd'') 1000 example_saved)"

lemma utf8_example: "utf8 ''ab'' = [97, 98]" "utf8 ''cd'' = [99, 100]"
  by (simp_all add: utf8_def utf8_char_def)

lemma half_past_five: "\<lfloor>11 / 2 :: rat\<rfloor> = 5"
  by (rule floor_unique) simp_all

lemma example_saved_alt:
  "save_recording True Done (\<lambda>_. Done) True (\<lambda>_. None) ''r1'' 10 ''u'' (example_body ''ab'') 7 empty_store = (201, example_saved)"
  "example_saved = \<lparr>bucket = [(''rec/u/r1'', [97, 98], 10)],
     recordings = [(''r1'', \<lparr>rr_userId = ''u'', rr_deviceId = None, rr_targetRef = None,
        rr_body = \<lparr>sb_ciphertext = None, sb_storageKey = Some ''rec/u/r1''\<rparr>, rr_sizeBytes = 2, rr_durationMs = 5,
        rr_startedAt = 7, rr_createdAt = 10\<rparr>)], shares = []\<rparr>"
  unfolding example_saved_def
  by (simp_all add: save_recording_def example_body_def empty_store_def storedRecordingBytes_def MAX_ACCOUNT_RECORDING_BYTES_def utf8_example
      writeBody_def takes_effect_def recordingKey_def ownedDeviceId_def duration_of_def js_round_def half_past_five)

lemma example_shared_alt:
  "create_share True Done (\<lambda>_. Done) True ''s1'' ''tok'' 20 ''u'' ''r1'' (example_body ''cd'') 1000 example_saved = (201, example_shared)"
  "example_shared = example_saved\<lparr>bucket := [(''rec/u/r1'', [97, 98], 10), (''share/u/s1'', [99, 100], 20)],
     shares := [(''s1'', \<lparr>sh_recordingId = ''r1'', sh_userId = ''u'', sh_token = ''tok'',
        sh_body = \<lparr>sb_ciphertext = None, sb_storageKey = Some ''share/u/s1''\<rparr>, sh_sizeBytes = 2, sh_expiresAt = 1000,
        sh_maxViews = Some 1, sh_views = 0, sh_revokedAt = None, sh_createdAt = 20\<rparr>)]\<rparr>"
  unfolding example_shared_def
  by (simp_all add: create_share_def example_body_def example_saved_alt(2) storedRecordingBytes_def MAX_ACCOUNT_RECORDING_BYTES_def utf8_example
      writeBody_def takes_effect_def shareKey_def views_of_def)

lemma example_fresh: "fresh_id ''r1'' empty_store" "fresh_id ''s1'' example_saved" "ownsRecording ''u'' ''r1'' example_saved"
  by (simp_all add: fresh_id_def slash_free_def empty_store_def example_saved_alt(2) ownsRecording_def find_recording_def)

lemma example_steps: "store_step empty_store example_saved" "store_step example_saved example_shared"
  unfolding example_saved_def example_shared_def
  by (rule store_step.save, rule example_fresh, rule store_step.share [OF example_fresh(2,3), unfolded example_saved_def])

lemma example_reachable: "reachable_store empty_store" "reachable_store example_saved" "reachable_store example_shared"
proof -
  show e: "reachable_store empty_store"
    unfolding empty_store_def by (rule reachable_store.empty)
  show s: "reachable_store example_saved"
    by (rule reachable_store.step [OF e example_steps(1)])
  show "reachable_store example_shared"
    by (rule reachable_store.step [OF s example_steps(2)])
qed


section \<open>Deleting\<close>



text \<open>
  A delete the bucket refuses half way answers that the recording is exactly as it was, but the transcript was
  destroyed first: the owner's next fetch is answered 410.\<close>

theorem refused_delete_destroys_transcript:
  "\<exists>del db'. recording_DELETE True del (Some ''u'') ''r1'' example_shared = (502, db')
    \<and> fst (recording_GET True True (Some ''u'') ''r1'' example_shared) = 200
    \<and> recording_GET True True (Some ''u'') ''r1'' db' = (410, None)"
  by (rule exI [of _ "\<lambda>k. if k = ''rec/u/r1'' then Done else FailedBefore"])
    (simp add: recording_DELETE_def recording_GET_def readBody_def find_recording_def example_shared_alt(2) example_saved_alt(2)
      destroyBody_def takes_effect_def)

end
