(* ===== verification/Share_Views.thy ===== *)
theory Share_Views
  imports Recording_Safety
begin

text \<open>
  Concurrent fetches of share links. A fetch claims a view in one statement and reads the bytes in another, so any
  number of them can be between the two; the state keeps which ones are, and which share each completed fetch served.
\<close>

section \<open>Fetches in flight\<close>

record Views =
  vdb :: RecordingDb
  fetching :: "(ident \<times> ShareRow) list"
  served :: "ident list"

definition finish_fetch :: "bool \<Rightarrow> bool \<Rightarrow> ident \<times> ShareRow \<Rightarrow> Views \<Rightarrow> Views" where
  "finish_fetch configured get_ok c v =
     (case share_serve configured get_ok c (vdb v) of
        ((status, blob), db) \<Rightarrow>
          \<lparr>vdb = db, fetching = remove1 c (fetching v), served = (if status = 200 then fst c # served v else served v)\<rparr>)"

inductive view_step :: "Views \<Rightarrow> Views \<Rightarrow> bool" where
  claimed: "share_claim now token (vdb v) = (Some c, db) \<Longrightarrow> view_step v (v\<lparr>vdb := db, fetching := c # fetching v\<rparr>)"
| finished: "c \<in> set (fetching v) \<Longrightarrow> view_step v (finish_fetch configured get_ok c v)"
| revoked: "shares_DELETE configured del now user i shareId (vdb v) = (200, db) \<Longrightarrow> view_step v (v\<lparr>vdb := db\<rparr>)"
| deleted: "recording_DELETE configured del user i (vdb v) = (200, db) \<Longrightarrow> view_step v (v\<lparr>vdb := db\<rparr>)"
| created: "fresh_id uuid (vdb v) \<Longrightarrow> uuid \<notin> set (map fst (fetching v)) \<union> set (served v) \<Longrightarrow> ownsRecording u i (vdb v) \<Longrightarrow>
    views_ok (json_field body ''maxViews'') \<Longrightarrow>
    view_step v (v\<lparr>vdb := snd (create_share configured put del insert_ok uuid token now u i body expires (vdb v))\<rparr>)"

inductive reachable_views :: "Views \<Rightarrow> bool" where
  start: "reachable_store db \<Longrightarrow> shares db = [] \<Longrightarrow> reachable_views \<lparr>vdb = db, fetching = [], served = []\<rparr>"
| step: "reachable_views v \<Longrightarrow> view_step v v' \<Longrightarrow> reachable_views v'"

section \<open>Every view is accounted for\<close>

definition spent :: "ident \<Rightarrow> Views \<Rightarrow> nat" where
  "spent sid v = count_list (served v) sid + count_list (map fst (fetching v)) sid"

definition share_paid :: "Views \<Rightarrow> ident \<Rightarrow> ShareRow \<Rightarrow> bool" where
  "share_paid v sid s \<longleftrightarrow> int (spent sid v) \<le> sh_views s \<and> (case sh_maxViews s of None \<Rightarrow> True | Some m \<Rightarrow> sh_views s \<le> m)"

definition views_paid :: "Views \<Rightarrow> bool" where
  "views_paid v \<longleftrightarrow> reachable_store (vdb v) \<and> (\<forall>sid s. map_of (shares (vdb v)) sid = Some s \<longrightarrow> share_paid v sid s)"

lemma count_list_remove1: "x \<in> set xs \<Longrightarrow> count_list (map f (remove1 x xs)) y = count_list (map f xs) y - (if f x = y then 1 else 0)"
proof (induction xs)
  case (Cons a xs)
  then show ?case
    using count_list_0_iff [of "map f xs" "f x"] by (auto simp: Suc_diff_le)
qed simp

lemma count_fetching: "c \<in> set fl \<Longrightarrow> 0 < count_list (map fst fl) (fst c)"
  using count_list_0_iff [of "map fst fl" "fst c"] by force

lemma views_paid_update:
  assumes "views_paid v" "reachable_store db"
    and "\<And>sid s. map_of (shares db) sid = Some s \<Longrightarrow>
      \<exists>s'. map_of (shares (vdb v)) sid = Some s' \<and> sh_views s = sh_views s' \<and> sh_maxViews s = sh_maxViews s'"
  shows "views_paid (v\<lparr>vdb := db\<rparr>)"
proof -
  have "share_paid (v\<lparr>vdb := db\<rparr>) sid s" if new: "map_of (shares db) sid = Some s" for sid s
  proof -
    obtain s' where s': "map_of (shares (vdb v)) sid = Some s'" "sh_views s = sh_views s'" "sh_maxViews s = sh_maxViews s'"
      using assms(3) [OF new] by blast
    then have "share_paid v sid s'"
      using assms(1) unfolding views_paid_def by blast
    then show ?thesis
      unfolding share_paid_def spent_def s'(2,3) by simp
  qed
  then show ?thesis
    using assms(2) by (simp add: views_paid_def)
qed

lemma views_paid_claimed:
  assumes paid: "views_paid v" and claim: "share_claim now token (vdb v) = (Some c, db)"
  shows "views_paid (v\<lparr>vdb := db, fetching := c # fetching v\<rparr>)"
proof -
  have reach: "reachable_store (vdb v)"
    using paid by (simp add: views_paid_def)
  have "reachable_store db"
    using reachable_store.step [OF reach store_step.claim [of "vdb v" now token]] claim by simp
  moreover have "share_paid (v\<lparr>vdb := db, fetching := c # fetching v\<rparr>) j t" if "map_of (shares db) j = Some t" for j t
    using claim
  proof (rule share_claim_cases [OF conjunct1 [OF reachable_store_ok [OF reach]]])
    fix sid s
    assume s: "map_of (shares (vdb v)) sid = Some s" and live: "live_share now s"
      and c: "Some c = Some (sid, s\<lparr>sh_views := sh_views s + 1\<rparr>)"
      and db: "db = vdb v\<lparr>shares := AList.update sid (s\<lparr>sh_views := sh_views s + 1\<rparr>) (shares (vdb v))\<rparr>"
    have old: "share_paid v k u" if "map_of (shares (vdb v)) k = Some u" for k u
      using paid that by (simp only: views_paid_def)
    show ?thesis
      using that old [OF s] old [of j t] live c unfolding db share_paid_def spent_def live_share_def
      by (auto simp: update_conv' split: if_splits option.splits)
  qed simp
  ultimately show ?thesis
    by (simp add: views_paid_def)
qed

lemma share_refund_shares:
  "map_of (shares (share_refund sid db)) j =
    (if j = sid then map_option (\<lambda>s. s\<lparr>sh_views := max (sh_views s - 1) 0\<rparr>) (map_of (shares db) sid) else map_of (shares db) j)"
  by (simp add: share_refund_def update_conv' split: option.split)

lemma share_serve_outcome:
  obtains blob where "share_serve configured get_ok c db = ((200, Some blob), db)"
  | "share_serve configured get_ok c db = ((404, None), db)"
  | e where "share_serve configured get_ok c db = ((statusForBodyError e, None), share_refund (fst c) db)"
proof (cases "readBody configured get_ok (sh_body (snd c)) (bucket db)")
  case (Inr b)
  then show ?thesis
    using that(1,2) by (cases b) (simp_all add: share_serve_def)
qed (use that(3) in \<open>simp add: share_serve_def\<close>)

lemma views_paid_finished:
  assumes paid: "views_paid v" and c: "c \<in> set (fetching v)"
  shows "views_paid (finish_fetch configured get_ok c v)"
proof -
  have reach: "reachable_store (vdb v)" and old: "map_of (shares (vdb v)) j = Some t \<Longrightarrow> share_paid v j t" for j t
    using paid by (simp_all only: views_paid_def)
  note serve = store_step.serve [of "vdb v" configured get_ok c]
  have reach': "reachable_store (snd (share_serve configured get_ok c (vdb v)))"
    by (rule reachable_store.step [OF reach serve])
  have counts: "count_list (map fst (remove1 c (fetching v))) j = count_list (map fst (fetching v)) j - (if fst c = j then 1 else 0)" for j
    by (rule count_list_remove1 [OF c])
  have pos: "0 < count_list (map fst (fetching v)) (fst c)"
    by (rule count_fetching [OF c])
  have other: "statusForBodyError e \<noteq> 200" for e
    by (cases e) simp_all
  show ?thesis
  proof (cases rule: share_serve_outcome [of configured get_ok c "vdb v"])
    case (1 blob)
    then show ?thesis
      using old reach' counts pos unfolding views_paid_def finish_fetch_def share_paid_def spent_def
      by (auto simp del: of_nat_add)
  next
    case 2
    then show ?thesis
      using old reach' counts unfolding views_paid_def finish_fetch_def share_paid_def spent_def by fastforce
  next
    case (3 e)
    have "share_paid (finish_fetch configured get_ok c v) j t" if "map_of (shares (share_refund (fst c) (vdb v))) j = Some t" for j t
      using 3 that old [of j] counts [of j] pos other [of e] unfolding finish_fetch_def share_paid_def spent_def share_refund_shares
      by (auto split: if_splits option.splits)
    then show ?thesis
      using 3 reach' unfolding views_paid_def by (simp add: finish_fetch_def)
  qed
qed

lemma revoked_share_rows:
  assumes "shares_DELETE configured del now user i shareId db = (200, db')" "map_of (shares db') sid = Some s"
  shows "\<exists>s'. map_of (shares db) sid = Some s' \<and> sh_views s = sh_views s' \<and> sh_maxViews s = sh_maxViews s'"
  using assms(1)
proof (rule shares_DELETE_200)
  fix u j s0 b t
  assume "find_share u i j db = Some s0"
    and db': "db' = db\<lparr>bucket := b, shares := AList.update j
       (s0\<lparr>sh_revokedAt := Some t, sh_body := \<lparr>sb_ciphertext = None, sb_storageKey = None\<rparr>, sh_sizeBytes := 0\<rparr>) (shares db)\<rparr>"
  then have "map_of (shares db) j = Some s0"
    by (simp add: find_share_Some)
  then show ?thesis
    using assms(2) unfolding db' by (cases "sid = j") (auto simp: update_conv')
qed

lemma created_share_rows:
  assumes "map_of (shares (snd (create_share configured put del insert_ok uuid token now u i body expires db))) sid = Some s"
    and "map_of (shares db) sid = None"
  shows "sid = uuid \<and> sh_views s = 0 \<and> sh_maxViews s = views_of (json_field body ''maxViews'')"
  using assms unfolding create_share_def Let_def
  by (simp add: map_of_snoc del: map_of_append split: prod.splits sum.splits if_splits) fastforce?

lemma kept_share_rows:
  assumes "map_of (shares db) sid = Some s"
  shows "map_of (shares (snd (create_share configured put del insert_ok uuid token now u i body expires db))) sid = Some s"
  using assms unfolding create_share_def Let_def
  by (simp add: map_of_snoc del: map_of_append split: prod.splits sum.splits if_splits)

lemma views_of_ok: "views_ok v \<Longrightarrow> views_of v = Some m \<Longrightarrow> 0 \<le> m"
  by (auto simp: views_ok_def views_of_def split: json.splits jsnum.splits)

lemma views_paid_created:
  assumes paid: "views_paid v" and fresh: "fresh_id uuid (vdb v)" "uuid \<notin> set (map fst (fetching v)) \<union> set (served v)"
    and own: "ownsRecording u i (vdb v)" and body: "views_ok (json_field body ''maxViews'')"
  shows "views_paid (v\<lparr>vdb := snd (create_share configured put del insert_ok uuid token now u i body expires (vdb v))\<rparr>)"
proof -
  let ?db = "snd (create_share configured put del insert_ok uuid token now u i body expires (vdb v))"
  have reach: "reachable_store (vdb v)"
    using paid by (simp add: views_paid_def)
  have reach': "reachable_store ?db"
    by (rule reachable_store.step [OF reach store_step.share [OF fresh(1) own]])
  have unspent: "count_list (served v) uuid = 0" "count_list (map fst (fetching v)) uuid = 0"
    using fresh(2) by simp_all
  have "share_paid (v\<lparr>vdb := ?db\<rparr>) sid s" if new: "map_of (shares ?db) sid = Some s" for sid s
  proof (cases "map_of (shares (vdb v)) sid")
    case None
    note row = created_share_rows [OF new None]
    have "0 \<le> m" if "sh_maxViews s = Some m" for m
      using views_of_ok [OF body] row that by simp
    then show ?thesis
      using row unspent unfolding share_paid_def spent_def by (auto split: option.split)
  next
    case (Some s')
    then have "s = s'" "share_paid v sid s'"
      using kept_share_rows [OF Some, of configured put del insert_ok uuid token now u i body expires] new paid
      unfolding views_paid_def by simp_all
    then show ?thesis
      by (simp add: share_paid_def spent_def)
  qed
  then show ?thesis
    using reach' by (simp add: views_paid_def)
qed

lemma view_step_paid:
  assumes "view_step v v'" "views_paid v"
  shows "views_paid v'"
  using assms(1)
proof (cases rule: view_step.cases)
  case (claimed now token c db)
  then show ?thesis using views_paid_claimed [OF assms(2)] by simp
next
  case (finished c configured get_ok)
  then show ?thesis using views_paid_finished [OF assms(2)] by simp
next
  case (revoked configured del now user i shareId db)
  have "reachable_store db"
    using assms(2) reachable_store.step store_step.revoke [OF revoked(2)] by (auto simp: views_paid_def)
  then show ?thesis
    unfolding revoked(1) using views_paid_update [OF assms(2)] revoked_share_rows [OF revoked(2)] by blast
next
  case (deleted configured del user i db)
  have reach: "reachable_store db"
    using assms(2) reachable_store.step store_step.delete [OF deleted(2)] by (auto simp: views_paid_def)
  have "rows_ok (vdb v)"
    using assms(2) reachable_store_ok by (auto simp: views_paid_def)
  then have "\<exists>s'. map_of (shares (vdb v)) sid = Some s' \<and> sh_views s = sh_views s' \<and> sh_maxViews s = sh_maxViews s'"
    if "map_of (shares db) sid = Some s" for sid s
    using that recording_DELETE_rows(2) [OF deleted(2)] by (auto simp: bind_eq_Some_conv split: if_splits)
  then show ?thesis
    unfolding deleted(1) using views_paid_update [OF assms(2) reach] by blast
next
  case (created uuid u i body configured put del insert_ok token now expires)
  then show ?thesis using views_paid_created [OF assms(2)] by simp
qed

lemma reachable_views_paid: "reachable_views v \<Longrightarrow> views_paid v"
proof (induction rule: reachable_views.induct)
  case (start db)
  then show ?case by (simp add: views_paid_def)
next
  case (step v v')
  then show ?case by (simp add: view_step_paid)
qed

text \<open>
  C19. However many fetches of a link run at once and however the bucket answers them, a link limited to \<open>m\<close> views has
  been served, or is still being served, at most \<open>m\<close> times.\<close>

theorem share_views_bounded:
  assumes "reachable_views v" "map_of (shares (vdb v)) sid = Some s" "sh_maxViews s = Some m"
  shows "int (count_list (served v) sid + count_list (map fst (fetching v)) sid) \<le> m"
proof -
  have "share_paid v sid s"
    using reachable_views_paid [OF assms(1)] assms(2) by (simp add: views_paid_def)
  then show ?thesis
    using assms(3) by (simp add: share_paid_def spent_def)
qed

definition example_views :: Views where
  "example_views = (let (c, db) = share_claim 50 ''tok'' example_shared in \<lparr>vdb = db, fetching = [the c], served = []\<rparr>)"

lemma example_claim:
  "share_claim 50 ''tok'' example_shared = (Some (hd (fetching example_views)), vdb example_views)"
  "fetching example_views = [hd (fetching example_views)]" "served example_views = []"
  "map_of (shares (vdb example_views)) ''s1'' = Some (the (map_of (shares (vdb example_views)) ''s1''))"
  "sh_maxViews (the (map_of (shares (vdb example_views)) ''s1'')) = Some 1"
  by (simp_all add: example_views_def share_claim_def example_shared_alt(2) live_share_def Let_def)

lemma example_views_reachable: "reachable_views example_views"
proof -
  have created: "view_step \<lparr>vdb = example_saved, fetching = [], served = []\<rparr> \<lparr>vdb = example_shared, fetching = [], served = []\<rparr>"
    using view_step.created [of "''s1''" "\<lparr>vdb = example_saved, fetching = [], served = []\<rparr>" "''u''" "''r1''" "example_body ''cd''"
        True Done "\<lambda>_. Done" True "''tok''" 20 1000] example_fresh(2,3)
    by (simp add: example_shared_def example_body_def views_ok_def MAX_SHARE_VIEWS_def)
  have views: "\<lparr>vdb = vdb example_views, fetching = [hd (fetching example_views)], served = []\<rparr> = example_views"
    using example_claim(2,3) by (intro Views.equality) simp_all
  have "view_step \<lparr>vdb = example_shared, fetching = [], served = []\<rparr> example_views"
    using view_step.claimed [of 50 "''tok''" "\<lparr>vdb = example_shared, fetching = [], served = []\<rparr>"] example_claim(1) views
    by simp
  moreover have "reachable_views \<lparr>vdb = example_saved, fetching = [], served = []\<rparr>"
    by (rule reachable_views.start [OF example_reachable(2)]) (simp add: example_saved_alt(2))
  ultimately show ?thesis
    using created reachable_views.step by blast
qed

theorem share_views_bounded_witness:
  "int (count_list (served example_views) ''s1'' + count_list (map fst (fetching example_views)) ''s1'') \<le> 1"
  by (rule share_views_bounded [OF example_views_reachable example_claim(4,5)])

section \<open>Revocation\<close>

lemma shares_DELETE_find:
  assumes "shares_DELETE configured del now (Some u) i (Some sid) db = (200, db')"
  obtains s b t where "map_of (shares db) sid = Some s" "destroyBody configured del (sh_body s) (bucket db) = (None, b)"
    "db' = db\<lparr>bucket := b, shares := AList.update sid
       (s\<lparr>sh_revokedAt := Some t, sh_body := \<lparr>sb_ciphertext = None, sb_storageKey = None\<rparr>, sh_sizeBytes := 0\<rparr>) (shares db)\<rparr>"
  using assms by (elim shares_DELETE_200) (simp add: find_share_Some)

definition is_revoked :: "ident \<Rightarrow> RecordingDb \<Rightarrow> bool" where
  "is_revoked sid db \<longleftrightarrow> (case map_of (shares db) sid of None \<Rightarrow> False | Some s \<Rightarrow> sh_revokedAt s \<noteq> None)"

lemma is_revoked_step:
  assumes "store_step db db'" "rows_ok db" "is_revoked sid db" "map_of (shares db') sid \<noteq> None"
  shows "is_revoked sid db'"
  using assms(1)
proof (cases rule: store_step.cases)
  case (save uuid configured put del insert_ok devices now u body started)
  have "shares db' = shares db"
    unfolding save(1) by (auto simp: save_recording_def Let_def split: prod.splits sum.splits)
  then show ?thesis
    using assms(3) by (simp add: is_revoked_def)
next
  case (share uuid u i configured put del insert_ok token now body expires)
  obtain s where s: "map_of (shares db) sid = Some s" "sh_revokedAt s \<noteq> None"
    using assms(3) by (auto simp: is_revoked_def split: option.splits)
  show ?thesis
    using kept_share_rows [OF s(1)] s(2) unfolding share(1) is_revoked_def by simp
next
  case (delete configured del user i)
  from recording_DELETE_rows(2) [OF delete assms(2), of sid] show ?thesis
    using assms(3,4) by (auto simp: is_revoked_def bind_eq_Some_conv split: option.splits if_splits)
next
  case (revoke configured del now user i shareId)
  from revoke show ?thesis
  proof (rule shares_DELETE_200)
    fix j s0 b t
    assume db': "db' = db\<lparr>bucket := b, shares := AList.update j
       (s0\<lparr>sh_revokedAt := Some t, sh_body := \<lparr>sb_ciphertext = None, sb_storageKey = None\<rparr>, sh_sizeBytes := 0\<rparr>) (shares db)\<rparr>"
    show ?thesis
      using assms(3) unfolding db' is_revoked_def by (simp add: update_conv')
  qed
next
  case (claim now token)
  have "share_claim now token db = (fst (share_claim now token db), db')"
    using claim by simp
  then show ?thesis
  proof (rule share_claim_cases [OF assms(2)])
    fix j s
    assume "map_of (shares db) j = Some s" "live_share now s"
      and "db' = db\<lparr>shares := AList.update j (s\<lparr>sh_views := sh_views s + 1\<rparr>) (shares db)\<rparr>"
    then show ?thesis
      using assms(3) by (cases "j = sid") (simp_all add: is_revoked_def live_share_def update_conv')
  qed (use assms(3) in simp)
next
  case (serve configured get_ok claimed)
  then have "db' = db \<or> db' = share_refund (fst claimed) db"
    using share_serve_cases by auto
  then show ?thesis
    using assms(3) by (cases "sid = fst claimed") (auto simp: is_revoked_def share_refund_shares split: option.splits)
next
  case sweep
  then show ?thesis
    using assms(3) by (simp add: is_revoked_def)
qed

lemma revoked_not_claimed:
  assumes "rows_ok db" "is_revoked sid db"
  shows "fst (share_claim now token db) \<noteq> Some (sid, c)"
proof -
  have "res \<noteq> Some (sid, c)" if "share_claim now token db = (res, db')" for res db'
    using that
  proof (rule share_claim_cases [OF assms(1)])
    fix j s
    assume "map_of (shares db) j = Some s" "live_share now s" "res = Some (j, s\<lparr>sh_views := sh_views s + 1\<rparr>)"
    then show ?thesis
      using assms(2) by (auto simp: is_revoked_def live_share_def)
  qed simp
  then show ?thesis
    by (cases "share_claim now token db") auto
qed

text \<open>
  A revocation that reports success has destroyed the shared copy, and however the tables change afterwards, no later
  request claims a view of the link for as long as its row is kept.\<close>

theorem revoked_share_is_dead:
  assumes "reachable_store db" "shares_DELETE configured del now (Some u) i (Some sid) db = (200, db1)"
    and "(\<lambda>a b. store_step a b \<and> map_of (shares b) sid \<noteq> None)\<^sup>*\<^sup>* db1 db2"
  shows "fst (share_claim later token db2) \<noteq> Some (sid, claimed)
    \<and> (case map_of (shares db) sid of
         None \<Rightarrow> False
       | Some s \<Rightarrow> (case sb_storageKey (sh_body s) of None \<Rightarrow> True | Some k \<Rightarrow> map_of (bucket db1) k = None))"
proof -
  have ok: "rows_ok db"
    using reachable_store_ok [OF assms(1)] by simp
  have reach1: "reachable_store db1"
    by (rule reachable_store.step [OF assms(1) store_step.revoke [OF assms(2)]])
  obtain s b t where s: "map_of (shares db) sid = Some s" and gone: "destroyBody configured del (sh_body s) (bucket db) = (None, b)"
    and db1: "db1 = db\<lparr>bucket := b, shares := AList.update sid
       (s\<lparr>sh_revokedAt := Some t, sh_body := \<lparr>sb_ciphertext = None, sb_storageKey = None\<rparr>, sh_sizeBytes := 0\<rparr>) (shares db)\<rparr>"
    using assms(2) by (rule shares_DELETE_find)
  have "map_of (bucket db1) k = None" if "sb_storageKey (sh_body s) = Some k" for k
  proof -
    have "k \<in> keys_of [sh_body s]"
      using that shares_key(1) [OF ok s that] by simp
    then show ?thesis
      using destroyBody_effect(1) [OF gone] by (simp add: db1 map_of_eq_None_iff)
  qed
  moreover have "reachable_store db2 \<and> is_revoked sid db2"
    using assms(3)
  proof (induction rule: rtranclp_induct)
    case base
    show ?case
      using reach1 by (simp add: db1 is_revoked_def update_conv')
  next
    case (step a b)
    then show ?case
      using is_revoked_step [of a b sid] reachable_store_ok [of a] reachable_store.step [of a b] by blast
  qed
  then have "fst (share_claim later token db2) \<noteq> Some (sid, claimed)"
    using revoked_not_claimed reachable_store_ok by blast
  ultimately show ?thesis
    using s by (auto split: option.split)
qed

theorem revoked_share_is_dead_witness:
  "\<forall>s. fst (share_claim 60 ''tok'' (snd (shares_DELETE True (\<lambda>_. Done) 55 (Some ''u'') ''r1'' (Some ''s1'') example_shared))) \<noteq> Some (''s1'', s)"
proof -
  have "fst (shares_DELETE True (\<lambda>_. Done) 55 (Some ''u'') ''r1'' (Some ''s1'') example_shared) = 200"
    by (simp add: shares_DELETE_def find_share_def example_shared_alt(2) destroyBody_def takes_effect_def)
  then have "shares_DELETE True (\<lambda>_. Done) 55 (Some ''u'') ''r1'' (Some ''s1'') example_shared
      = (200, snd (shares_DELETE True (\<lambda>_. Done) 55 (Some ''u'') ''r1'' (Some ''s1'') example_shared))"
    by (simp add: prod_eq_iff)
  from revoked_share_is_dead [OF example_reachable(3) this rtranclp.rtrancl_refl] show ?thesis
    by blast
qed

end
