(* ===== verification/Recording_Quota.thy ===== *)
theory Recording_Quota
  imports Recording_Safety
begin

text \<open>
  How much is stored: the account ceiling that saves and shares keep, and the bucket sweep that takes exactly the old
  objects nothing claims.
\<close>

section \<open>The account ceiling\<close>

definition recording_weight :: "ident \<Rightarrow> RecordingRow \<Rightarrow> nat" where
  "recording_weight u r = (if rr_userId r = u then rr_sizeBytes r else 0)"

definition share_weight :: "ident \<Rightarrow> ShareRow \<Rightarrow> nat" where
  "share_weight u s = (if sh_userId s = u then sh_sizeBytes s else 0)"

lemma storedRecordingBytes_alt:
  "storedRecordingBytes u db = sum_list (map (recording_weight u \<circ> snd) (recordings db)) + sum_list (map (share_weight u \<circ> snd) (shares db))"
  unfolding storedRecordingBytes_def sum_list_map_filter'
  by (intro arg_cong2 [where f = "(+)"] arg_cong [where f = sum_list] map_cong)
    (auto simp: recording_weight_def share_weight_def)

lemma sum_update_le:
  "map_of al k = Some v \<Longrightarrow> w v' \<le> w v \<Longrightarrow> sum_list (map (w \<circ> snd) (AList.update k v' al)) \<le> (sum_list (map (w \<circ> snd) al) :: nat)"
  by (induction al) (auto split: if_splits)

lemma sum_filter_le_nat: "sum_list (map w (filter P al)) \<le> (sum_list (map w al) :: nat)"
  by (induction al) auto

lemma sum_delete_le: "sum_list (map w (AList.delete k al)) \<le> (sum_list (map w al) :: nat)"
  by (induction al) (auto simp: delete_simps)

lemma stored_step_share:
  assumes "map_of (shares db) sid = Some s" "sh_userId s' = sh_userId s" "sh_sizeBytes s' \<le> sh_sizeBytes s"
  shows "storedRecordingBytes u (db\<lparr>shares := AList.update sid s' (shares db)\<rparr>) \<le> storedRecordingBytes u db"
  unfolding storedRecordingBytes_alt
  using sum_update_le [OF assms(1), of "share_weight u" s'] assms(2,3) by (simp add: share_weight_def)

lemma stored_bucket [simp]: "storedRecordingBytes u (db\<lparr>bucket := b\<rparr>) = storedRecordingBytes u db"
  by (simp add: storedRecordingBytes_def)

lemma save_recording_stored_bytes:
  "storedRecordingBytes v (snd (save_recording configured put del insert_ok devices uuid now u body started db)) \<in>
    {storedRecordingBytes v db} \<union>
    (if storedRecordingBytes u db + length (utf8 (json_str (json_field body ''blob''))) \<le> MAX_ACCOUNT_RECORDING_BYTES
     then {storedRecordingBytes v db + (if u = v then length (utf8 (json_str (json_field body ''blob''))) else 0)} else {})"
  by (auto simp: save_recording_def Let_def storedRecordingBytes_alt recording_weight_def split: prod.splits sum.splits)

lemma create_share_stored_bytes:
  "storedRecordingBytes v (snd (create_share configured put del insert_ok uuid token now u i body expires db)) \<in>
    {storedRecordingBytes v db} \<union>
    (if storedRecordingBytes u db + length (utf8 (json_str (json_field body ''blob''))) \<le> MAX_ACCOUNT_RECORDING_BYTES
     then {storedRecordingBytes v db + (if u = v then length (utf8 (json_str (json_field body ''blob''))) else 0)} else {})"
  by (auto simp: create_share_def Let_def storedRecordingBytes_alt share_weight_def split: prod.splits sum.splits)

lemma store_step_stored_bytes:
  assumes "store_step db db'" "rows_ok db" "storedRecordingBytes v db \<le> MAX_ACCOUNT_RECORDING_BYTES"
  shows "storedRecordingBytes v db' \<le> MAX_ACCOUNT_RECORDING_BYTES"
  using assms(1)
proof (cases rule: store_step.cases)
  case (save uuid configured put del insert_ok devices now u body started)
  show ?thesis
    using save_recording_stored_bytes [of v configured put del insert_ok devices uuid now u body started db] assms(3)
    unfolding save(1) by (auto split: if_splits)
next
  case (share uuid u i configured put del insert_ok token now body expires)
  show ?thesis
    using create_share_stored_bytes [of v configured put del insert_ok uuid token now u i body expires db] assms(3)
    unfolding share(1) by (auto split: if_splits)
next
  case (delete configured del user i)
  from delete show ?thesis
  proof (rule recording_DELETE_200)
    fix b
    assume "db' = db\<lparr>bucket := b, recordings := AList.delete i (recordings db), shares := filter (\<lambda>(_, s). sh_recordingId s \<noteq> i) (shares db)\<rparr>"
    then have "storedRecordingBytes v db' \<le> storedRecordingBytes v db"
      unfolding storedRecordingBytes_alt by (simp add: add_mono sum_delete_le sum_filter_le_nat)
    then show ?thesis
      using assms(3) by simp
  qed
next
  case (revoke configured del now user i shareId)
  from revoke show ?thesis
  proof (rule shares_DELETE_200)
    fix u j s b t
    assume "find_share u i j db = Some s"
      and db': "db' = db\<lparr>bucket := b, shares := AList.update j
       (s\<lparr>sh_revokedAt := Some t, sh_body := \<lparr>sb_ciphertext = None, sb_storageKey = None\<rparr>, sh_sizeBytes := 0\<rparr>) (shares db)\<rparr>"
    then have "map_of (shares (db\<lparr>bucket := b\<rparr>)) j = Some s"
      by (simp add: find_share_Some)
    from stored_step_share [OF this, of "s\<lparr>sh_revokedAt := Some t, sh_body := \<lparr>sb_ciphertext = None, sb_storageKey = None\<rparr>, sh_sizeBytes := 0\<rparr>" v]
    show ?thesis
      using assms(3) unfolding db' by simp
  qed
next
  case (claim now token)
  have "share_claim now token db = (fst (share_claim now token db), db')"
    using claim by simp
  then show ?thesis
  proof (rule share_claim_cases [OF assms(2)])
    fix j s
    assume "map_of (shares db) j = Some s" and db': "db' = db\<lparr>shares := AList.update j (s\<lparr>sh_views := sh_views s + 1\<rparr>) (shares db)\<rparr>"
    from stored_step_share [OF this(1), of "s\<lparr>sh_views := sh_views s + 1\<rparr>" v] show ?thesis
      using assms(3) unfolding db' by simp
  qed (use assms(3) in simp)
next
  case (serve configured get_ok claimed)
  have "storedRecordingBytes v (share_refund sid db) \<le> storedRecordingBytes v db" for sid
    using stored_step_share [of db sid] by (simp add: share_refund_def split: option.splits)
  then show ?thesis
    using share_serve_cases [of configured get_ok claimed db] assms(3) serve by (metis insertE le_trans singletonD)
next
  case sweep
  then show ?thesis
    using assms(3) by simp
qed

text \<open>
  The stored bytes of an account, recordings and share copies together, never pass the ceiling, when one request's
  check and insert are not interleaved with another's.\<close>

theorem account_ceiling_kept: "reachable_store db \<Longrightarrow> storedRecordingBytes u db \<le> MAX_ACCOUNT_RECORDING_BYTES"
proof (induction rule: reachable_store.induct)
  case empty
  show ?case by (simp add: storedRecordingBytes_def)
next
  case (step db db')
  then show ?case
    using store_step_stored_bytes reachable_store_ok by blast
qed

theorem account_ceiling_kept_witness: "storedRecordingBytes ''u'' example_shared \<le> MAX_ACCOUNT_RECORDING_BYTES"
  by (rule account_ceiling_kept [OF example_reachable(3)])

section \<open>The sweep is exact\<close>

lemma sweep_objects_complete:
  assumes "sweep_objects False (\<lambda>_. Done) claimed cutoff objs (r, b) = res" "\<not> sw_truncated (fst res)"
  shows "map_of (snd res) k = (if \<exists>t. (k, t) \<in> set objs \<and> \<not> claimed k \<and> t \<le> cutoff then None else map_of b k)"
  using assms
proof (induction objs arbitrary: r b)
  case (Cons obj objs)
  obtain key t where obj: "obj = (key, t)"
    by (cases obj)
  show ?case
  proof (cases "claimed key \<or> cutoff < t")
    case True
    then obtain r2 where "sweep_objects False (\<lambda>_. Done) claimed cutoff objs (r2, b) = res"
      using Cons.prems(1) unfolding obj by (auto split: if_splits)
    from Cons.IH [OF this Cons.prems(2)] True show ?thesis
      unfolding obj by auto
  next
    case False
    then obtain r2 where "sweep_objects False (\<lambda>_. Done) claimed cutoff objs (r2, AList.delete key b) = res"
      using Cons.prems unfolding obj by (auto simp: takes_effect_def split: if_splits)
    from Cons.IH [OF this Cons.prems(2)] False show ?thesis
      unfolding obj by (auto simp: delete_conv')
  qed
qed auto

lemma listObjects_map_of:
  "distinct (map fst b) \<Longrightarrow> (k, t) \<in> set (listObjects b pre) \<longleftrightarrow> starts_with pre k \<and> (\<exists>bytes. map_of b k = Some (bytes, t))"
  by (auto simp: listObjects_entry)

definition orphaned :: "millis \<Rightarrow> RecordingDb \<Rightarrow> string \<Rightarrow> bool" where
  "orphaned now db k \<longleftrightarrow> k \<notin> claimed_keys db \<and> (starts_with ''rec/'' k \<or> starts_with ''share/'' k)
     \<and> (case map_of (bucket db) k of None \<Rightarrow> False | Some obj \<Rightarrow> snd obj \<le> now - GRACE_MS)"

text \<open>
  A sweep that reaches the bucket and is not cut short removes exactly the objects under the two prefixes that no row
  claims and that are older than the grace window; everything else keeps its bytes.\<close>

theorem sweep_is_exact:
  assumes "reachable_store db"
    and "sweepOrphanedObjects False True (\<lambda>_. Done) (\<lambda>k. k \<in> claimed_keys db) now (bucket db) = Some (r, b)" "\<not> sw_truncated r"
  shows "map_of b k = (if orphaned now db k then None else map_of (bucket db) k)"
proof -
  let ?claimed = "\<lambda>k. k \<in> claimed_keys db"
  let ?old = "now - GRACE_MS"
  have dist: "distinct (map fst (bucket db))"
    using reachable_store_ok [OF assms(1)] rows_okD(5) by blast
  obtain r0 r1 b1 where one: "sweep_objects False (\<lambda>_. Done) ?claimed ?old (listObjects (bucket db) ''rec/'') (r0, bucket db) = (r1, b1)"
    and two: "sweep_objects False (\<lambda>_. Done) ?claimed ?old (listObjects b1 ''share/'') (r1, b1) = (r, b)" "\<not> sw_truncated r1"
    using assms(2,3) by (elim sweep_stages) blast
  have dist1: "distinct (map fst b1)"
    using sweep_objects_distinct [OF one dist] by simp
  have "map_of b1 k = (if \<exists>t. (k, t) \<in> set (listObjects (bucket db) ''rec/'') \<and> \<not> ?claimed k \<and> t \<le> ?old then None else map_of (bucket db) k)"
    using sweep_objects_complete [OF one, of k] two(2) by simp
  moreover have "map_of b k = (if \<exists>t. (k, t) \<in> set (listObjects b1 ''share/'') \<and> \<not> ?claimed k \<and> t \<le> ?old then None else map_of b1 k)"
    using sweep_objects_complete [OF two(1), of k] assms(3) by simp
  ultimately show ?thesis
    unfolding listObjects_map_of [OF dist] listObjects_map_of [OF dist1] orphaned_def
    by (cases "map_of (bucket db) k") auto
qed

definition example_orphan :: RecordingDb where
  "example_orphan = snd (save_recording True FailedAfter (\<lambda>_. Done) True (\<lambda>_. None) ''r2'' 30 ''u'' (example_body ''ab'') 7 example_shared)"

lemma example_orphan_alt: "example_orphan = example_shared\<lparr>bucket := bucket example_shared @ [(''rec/u/r2'', [97, 98], 30)]\<rparr>"
  by (simp add: example_orphan_def save_recording_def example_body_def example_shared_alt(2) example_saved_alt(2) storedRecordingBytes_def
      MAX_ACCOUNT_RECORDING_BYTES_def utf8_example writeBody_def takes_effect_def recordingKey_def Let_def)

lemma example_orphan_reachable: "reachable_store example_orphan"
proof -
  have "fresh_id ''r2'' example_shared"
    by (simp add: fresh_id_def slash_free_def example_shared_alt(2) example_saved_alt(2))
  from store_step.save [OF this] show ?thesis
    unfolding example_orphan_def by (rule reachable_store.step [OF example_reachable(3)])
qed

lemma example_orphan_claims: "k \<in> claimed_keys example_orphan \<longleftrightarrow> k \<in> {''rec/u/r1'', ''share/u/s1''}"
  by (auto simp: claimed_keys_def example_orphan_alt example_shared_alt(2) example_saved_alt(2))

theorem sweep_is_exact_witness:
  "map_of (snd (the (sweepOrphanedObjects False True (\<lambda>_. Done) (\<lambda>k. k \<in> claimed_keys example_orphan) 9000000 (bucket example_orphan))))
     ''rec/u/r2'' = None"
proof -
  have "\<exists>r b. sweepOrphanedObjects False True (\<lambda>_. Done) (\<lambda>k. k \<in> claimed_keys example_orphan) 9000000 (bucket example_orphan) = Some (r, b)
      \<and> \<not> sw_truncated r"
    by (simp add: example_orphan_claims sweepOrphanedObjects_def example_orphan_alt example_shared_alt(2) listObjects_def GRACE_MS_def
        MAX_DELETES_def takes_effect_def Let_def)
  then obtain r b where sweep: "sweepOrphanedObjects False True (\<lambda>_. Done) (\<lambda>k. k \<in> claimed_keys example_orphan) 9000000 (bucket example_orphan) = Some (r, b)"
    "\<not> sw_truncated r"
    by blast
  from sweep_is_exact [OF example_orphan_reachable this, of "''rec/u/r2''"]
  moreover have "orphaned 9000000 example_orphan ''rec/u/r2''"
    unfolding orphaned_def example_orphan_claims by (simp add: example_orphan_alt example_shared_alt(2) GRACE_MS_def)
  ultimately have "map_of b ''rec/u/r2'' = None"
    by simp
  then show ?thesis
    using sweep(1) by simp
qed

end
