(* ===== verification/Agents.thy ===== *)
theory Agents
  imports Relay_Token
begin

text \<open>
  The machines of an account (\<open>lib/agents\<close>, \<open>app/api/agents\<close>): enrolment with a one-time token, the proof an agent
  gives on every reconnect, revoking and forgetting, and the signed commands the relay carries. SHA-256, Ed25519 and the
  URL parser are arguments; a private key is its 32-byte seed.
\<close>

definition strip_slash :: "string \<Rightarrow> string" where
  "strip_slash s = (case rev s of c # r \<Rightarrow> if c = CHR ''/'' then rev r else s | [] \<Rightarrow> s)"

section \<open>Commands\<close>

definition AGENT_COMMANDS :: "string list" where
  "AGENT_COMMANDS = [''restart'', ''upgrade'', ''stop'', ''revoke'']"

definition ROTATE_KEY :: string where "ROTATE_KEY = ''rotate-key''"
definition COMMAND_TTL_SECONDS :: int where "COMMAND_TTL_SECONDS = 60"

definition commandMessage :: "string \<Rightarrow> string \<Rightarrow> string \<Rightarrow> int \<Rightarrow> byte list" where
  "commandMessage agentId command nonce expiresAt =
     utf8 (join_with [newline] [''weirdvault-command-v1'', agentId, command, nonce, show_int expiresAt])"

definition signingKey :: "string option \<Rightarrow> byte list option" where
  "signingKey seed =
     (case seed of
        None \<Rightarrow> None
      | Some s \<Rightarrow> if s = [] then None else if length (node_b64 s) \<noteq> 32 then None else Some (node_b64 s))"

definition commandPublicKey :: "(byte list \<Rightarrow> byte list) \<Rightarrow> string option \<Rightarrow> string option" where
  "commandPublicKey ed_public secret = map_option (toB64 \<circ> ed_public) (signingKey secret)"

definition remoteControlConfigured :: "string option \<Rightarrow> bool" where
  "remoteControlConfigured secret \<longleftrightarrow> signingKey secret \<noteq> None"

definition rotationInProgress :: "string option \<Rightarrow> string option \<Rightarrow> bool" where
  "rotationInProgress previous secret \<longleftrightarrow> signingKey previous \<noteq> None \<and> signingKey secret \<noteq> None"

record SignedCommand =
  sc_command :: string
  sc_nonce :: string
  sc_expiresAt :: int
  sc_signature :: string

definition sign_with :: "(byte list \<Rightarrow> byte list \<Rightarrow> byte list) \<Rightarrow> byte list \<Rightarrow> byte list \<Rightarrow> millis \<Rightarrow> ident \<Rightarrow> string \<Rightarrow> SignedCommand" where
  "sign_with ed_sign key random now agentId command =
     (let nonce = toB64 random; expiresAt = now div 1000 + COMMAND_TTL_SECONDS
      in \<lparr>sc_command = command, sc_nonce = nonce, sc_expiresAt = expiresAt,
          sc_signature = toB64 (ed_sign key (commandMessage agentId command nonce expiresAt))\<rparr>)"

definition signRotation ::
  "(byte list \<Rightarrow> byte list) \<Rightarrow> (byte list \<Rightarrow> byte list \<Rightarrow> byte list) \<Rightarrow> string option \<Rightarrow> string option \<Rightarrow> byte list \<Rightarrow> millis \<Rightarrow> ident
     \<Rightarrow> SignedCommand option" where
  "signRotation ed_public ed_sign previous secret random now agentId =
     (case (signingKey previous, commandPublicKey ed_public secret) of
        (Some key, Some publicKey) \<Rightarrow> Some (sign_with ed_sign key random now agentId (ROTATE_KEY @ '':'' @ publicKey))
      | _ \<Rightarrow> None)"

definition signCommand ::
  "(byte list \<Rightarrow> byte list \<Rightarrow> byte list) \<Rightarrow> string option \<Rightarrow> byte list \<Rightarrow> millis \<Rightarrow> ident \<Rightarrow> string \<Rightarrow> SignedCommand option" where
  "signCommand ed_sign secret random now agentId command =
     map_option (\<lambda>key. sign_with ed_sign key random now agentId command) (signingKey secret)"

definition accountRef :: "(byte list \<Rightarrow> byte list) \<Rightarrow> string option \<Rightarrow> ident \<Rightarrow> string" where
  "accountRef sha256 secret userId =
     (let salt = (case secret of None \<Rightarrow> ''weirdvault-account-ref-v1'' | Some s \<Rightarrow> if s = [] then ''weirdvault-account-ref-v1'' else s)
      in take 22 (b64url (sha256 (utf8 (salt @ [newline] @ userId)))))"

section \<open>Proofs of identity\<close>

definition verifyingMessage :: "ident \<Rightarrow> string \<Rightarrow> byte list" where
  "verifyingMessage agentId nonce = utf8 (join_with [newline] [''weirdvault-agent-v1'', agentId, nonce])"

definition fingerprintFor :: "(byte list \<Rightarrow> byte list) \<Rightarrow> string \<Rightarrow> string" where
  "fingerprintFor sha256 publicKey = ''SHA256:'' @ rev (dropWhile (\<lambda>c. c = CHR ''='') (rev (toB64 (sha256 (node_b64 publicKey)))))"

text \<open>\<open>ed_verify key message signature\<close>; a key the library rejects verifies nothing.\<close>

definition verifyAgentSignature :: "(byte list \<Rightarrow> byte list \<Rightarrow> byte list \<Rightarrow> bool) \<Rightarrow> string \<Rightarrow> ident \<Rightarrow> string \<Rightarrow> string \<Rightarrow> bool" where
  "verifyAgentSignature ed_verify publicKey agentId nonce signature \<longleftrightarrow>
     length (node_b64 publicKey) = 32 \<and> length (node_b64 signature) = 64
     \<and> ed_verify (node_b64 publicKey) (verifyingMessage agentId nonce) (node_b64 signature)"

definition UNVERSIONED_AGENT :: string where "UNVERSIONED_AGENT = ''dev''"

definition agentNeedsUpdate :: "string option \<Rightarrow> string option \<Rightarrow> bool" where
  "agentNeedsUpdate running published =
     (case (running, published) of
        (Some r, Some p) \<Rightarrow> r \<noteq> [] \<and> p \<noteq> [] \<and> p \<noteq> UNVERSIONED_AGENT \<and> r \<noteq> p
      | _ \<Rightarrow> False)"

section \<open>Enrolment tokens\<close>

definition ENROLL_PREFIX :: string where "ENROLL_PREFIX = ''ENROLL_''"
definition ENROLLMENT_TTL_MS :: int where "ENROLLMENT_TTL_MS = 10 * 60 * 1000"
definition MAX_PENDING_ENROLLMENTS :: nat where "MAX_PENDING_ENROLLMENTS = 10"

definition hashEnrollmentToken :: "(byte list \<Rightarrow> byte list) \<Rightarrow> string \<Rightarrow> string" where
  "hashEnrollmentToken sha256 token = hex_text (sha256 (utf8 token))"

definition mintEnrollmentToken :: "(byte list \<Rightarrow> byte list) \<Rightarrow> byte list \<Rightarrow> string \<times> string" where
  "mintEnrollmentToken sha256 random =
     (let token = ENROLL_PREFIX @ b64url random in (token, hashEnrollmentToken sha256 token))"

definition looksLikeEnrollmentToken :: "json \<Rightarrow> bool" where
  "looksLikeEnrollmentToken v =
     (case v of
        JStr s \<Rightarrow> starts_with ENROLL_PREFIX s \<and> length ENROLL_PREFIX + 20 < length s \<and> length s < 200
      | _ \<Rightarrow> False)"

definition tokensMatch :: "string \<Rightarrow> string \<Rightarrow> bool" where
  "tokensMatch a b \<longleftrightarrow> length (utf8 a) = length (utf8 b) \<and> utf8 a = utf8 b"

definition agentReleaseUrl :: "string option \<Rightarrow> string \<Rightarrow> string" where
  "agentReleaseUrl base origin =
     (case base of
        None \<Rightarrow> origin @ ''/agent-bin''
      | Some b \<Rightarrow> if strip_slash b = [] then origin @ ''/agent-bin'' else strip_slash b)"

text \<open>A parsed URL is its protocol and what stands between it and the path.\<close>

definition agentRelayUrl :: "(string \<Rightarrow> (string \<times> string) option) \<Rightarrow> string option \<Rightarrow> string option" where
  "agentRelayUrl parse_url relay =
     (case relay of
        None \<Rightarrow> None
      | Some r \<Rightarrow> if r = [] then None
          else (case parse_url r of None \<Rightarrow> None | Some (protocol, host) \<Rightarrow> Some (protocol @ ''//'' @ host @ ''/agent'')))"

definition http_scheme :: "string \<Rightarrow> string" where
  "http_scheme protocol = (if protocol = ''wss:'' then ''https:'' else if protocol = ''ws:'' then ''http:'' else protocol)"

definition relayInternalUrl :: "(string \<Rightarrow> (string \<times> string) option) \<Rightarrow> string option \<Rightarrow> string option \<Rightarrow> string option" where
  "relayInternalUrl parse_url explicit publicUrl =
     (let e = (case explicit of None \<Rightarrow> [] | Some e \<Rightarrow> strip_slash e); p = (case publicUrl of None \<Rightarrow> [] | Some p \<Rightarrow> p)
      in if e \<noteq> [] then Some e
         else if p = [] then None
         else (case parse_url p of None \<Rightarrow> None | Some (protocol, host) \<Rightarrow> Some (http_scheme protocol @ ''//'' @ host)))"

section \<open>Talking to the relay\<close>

definition SCOPE_PRESENCE :: string where "SCOPE_PRESENCE = ''presence''"
definition TOKEN_TTL_SECONDS :: int where "TOKEN_TTL_SECONDS = 30"

definition presence_claims :: "ident \<Rightarrow> int \<Rightarrow> json" where
  "presence_claims accountId nowSeconds =
     JObj [(''sub'', JStr accountId), (''scope'', JStr SCOPE_PRESENCE), (''exp'', JNum (Num (of_int (nowSeconds + TOKEN_TTL_SECONDS))))]"

definition mintPresenceToken :: "(rat \<Rightarrow> string) \<Rightarrow> (string \<Rightarrow> byte list \<Rightarrow> byte list) \<Rightarrow> string \<Rightarrow> ident \<Rightarrow> int \<Rightarrow> string" where
  "mintPresenceToken num hmac secret accountId nowSeconds =
     (let payload = b64url (utf8 (json_text num (presence_claims accountId nowSeconds)))
      in payload @ ''.'' @ b64url (hmac secret (utf8 payload)))"

text \<open>What a request to the relay comes back with: a status and a body that may not parse, or nothing.\<close>

datatype RelayReply = Replied nat "json option" | NoReply

datatype Presence = PresenceOk "string list" | PresenceUnknown

definition agentPresence :: "string option \<Rightarrow> string option \<Rightarrow> (ident list \<Rightarrow> RelayReply) \<Rightarrow> ident list \<Rightarrow> Presence" where
  "agentPresence secret base relay agentIds =
     (if agentIds = [] then PresenceOk []
      else if secret = None \<or> secret = Some [] \<or> base = None then PresenceUnknown
      else
        (case relay agentIds of
           Replied status (Some body) \<Rightarrow>
             if status div 100 \<noteq> 2 then PresenceUnknown
             else (case json_field body ''online'' of
                     JArr vs \<Rightarrow> PresenceOk (map json_str (filter (\<lambda>v. case v of JStr _ \<Rightarrow> True | _ \<Rightarrow> False) vs))
                   | _ \<Rightarrow> PresenceUnknown)
         | _ \<Rightarrow> PresenceUnknown))"

record DispatchResult =
  dr_ok :: bool
  dr_detail :: string
  dr_unconfigured :: bool

definition command_envelope :: "string \<Rightarrow> ident \<Rightarrow> SignedCommand \<Rightarrow> json" where
  "command_envelope uuid agentId cmd =
     JObj [(''type'', JStr ''command''), (''id'', JStr uuid), (''agentId'', JStr agentId), (''command'', JStr (sc_command cmd)),
           (''nonce'', JStr (sc_nonce cmd)), (''expiresAt'', JNum (Num (of_int (sc_expiresAt cmd)))),
           (''signature'', JStr (sc_signature cmd))]"

text \<open>The first result is the frame handed to the relay, when one is.\<close>

definition deliver ::
  "string option \<Rightarrow> string option \<Rightarrow> string \<Rightarrow> (json \<Rightarrow> RelayReply) \<Rightarrow> ident \<Rightarrow> SignedCommand \<Rightarrow> json option \<times> DispatchResult" where
  "deliver secret base uuid relay agentId cmd =
     (if base = None \<or> secret = None \<or> secret = Some []
      then (None, \<lparr>dr_ok = False, dr_detail = ''No relay is configured, so there is nothing to send this through.'', dr_unconfigured = False\<rparr>)
      else
        let envelope = command_envelope uuid agentId cmd in
        (Some envelope,
         case relay envelope of
           Replied status body \<Rightarrow>
             if status div 100 \<noteq> 2
             then \<lparr>dr_ok = False, dr_detail = ''The relay could not deliver this ('' @ show_nat status @ '').'', dr_unconfigured = False\<rparr>
             else
               (case body of
                  None \<Rightarrow> \<lparr>dr_ok = False, dr_detail = ''The relay did not answer in time. The machine may still have carried this out.'', dr_unconfigured = False\<rparr>
                | Some v \<Rightarrow>
                    if v = JNull
                    then \<lparr>dr_ok = False, dr_detail = ''The relay did not answer in time. The machine may still have carried this out.'', dr_unconfigured = False\<rparr>
                    else \<lparr>dr_ok = (json_field v ''ok'' = JBool True),
                          dr_detail = (if json_str (json_field v ''detail'') = [] then ''No detail given.'' else json_str (json_field v ''detail'')),
                          dr_unconfigured = False\<rparr>)
         | NoReply \<Rightarrow> \<lparr>dr_ok = False, dr_detail = ''The relay did not answer in time. The machine may still have carried this out.'', dr_unconfigured = False\<rparr>))"

record CommandEnv =
  ce_secret :: "string option"
  ce_previous :: "string option"
  ce_relaySecret :: "string option"
  ce_base :: "string option"

definition dispatchCommand ::
  "(byte list \<Rightarrow> byte list \<Rightarrow> byte list) \<Rightarrow> CommandEnv \<Rightarrow> byte list \<Rightarrow> string \<Rightarrow> millis \<Rightarrow> (json \<Rightarrow> RelayReply) \<Rightarrow> ident \<Rightarrow> string
     \<Rightarrow> json option \<times> DispatchResult" where
  "dispatchCommand ed_sign env random uuid now relay agentId command =
     (case signCommand ed_sign (ce_secret env) random now agentId command of
        None \<Rightarrow> (None, \<lparr>dr_ok = False, dr_detail = ''This deployment has no command signing key, so machines cannot be controlled from here. Set AGENT_COMMAND_SECRET and re-enrol the machines that should accept commands.'', dr_unconfigured = True\<rparr>)
      | Some cmd \<Rightarrow> deliver (ce_relaySecret env) (ce_base env) uuid relay agentId cmd)"

definition dispatchRotation ::
  "(byte list \<Rightarrow> byte list) \<Rightarrow> (byte list \<Rightarrow> byte list \<Rightarrow> byte list) \<Rightarrow> CommandEnv \<Rightarrow> byte list \<Rightarrow> string \<Rightarrow> millis \<Rightarrow> (json \<Rightarrow> RelayReply)
     \<Rightarrow> ident \<Rightarrow> json option \<times> DispatchResult" where
  "dispatchRotation ed_public ed_sign env random uuid now relay agentId =
     (case signRotation ed_public ed_sign (ce_previous env) (ce_secret env) random now agentId of
        None \<Rightarrow> (None, \<lparr>dr_ok = False, dr_detail = ''No key rotation is configured.'', dr_unconfigured = True\<rparr>)
      | Some cmd \<Rightarrow> deliver (ce_relaySecret env) (ce_base env) uuid relay agentId cmd)"

end
