(* ===== verification/Machines.thy ===== *)
theory Machines
  imports Agents
begin

text \<open>
  The table of machines and the handlers on it: \<open>app/api/agents\<close> with everything under it, the prune of abandoned
  enrolments and the key rotation of \<open>lib/maintenance\<close>. Each SQL statement, and the enrolment transaction, is one step.
\<close>

section \<open>Tables\<close>

record MachineRow =
  m_userId :: ident
  m_label :: string
  m_publicKey :: string
  m_fingerprint :: string
  m_hostname :: string
  m_os :: "string option"
  m_arch :: "string option"
  m_agentVersion :: "string option"
  m_machineRef :: "string option"
  m_revokedAt :: "millis option"
  m_lastSeenAt :: "millis option"
  m_createdAt :: millis

record EnrollmentRow =
  en_userId :: ident
  en_tokenHash :: string
  en_expiresAt :: millis
  en_usedAt :: "millis option"
  en_agentId :: "ident option"

record MachineDb =
  machines :: "(ident \<times> MachineRow) list"
  enrollments :: "(ident \<times> EnrollmentRow) list"
  auditLog :: "AuditRow list"

text \<open>What the token mint sees of the table.\<close>

definition agent_rows :: "MachineDb \<Rightarrow> ident \<Rightarrow> AgentRow option" where
  "agent_rows db i = map_option (\<lambda>m. \<lparr>ag_userId = m_userId m, ag_revoked = (m_revokedAt m \<noteq> None)\<rparr>) (map_of (machines db) i)"

section \<open>Listing machines and minting tokens\<close>

definition machine_online :: "Presence \<Rightarrow> ident \<Rightarrow> MachineRow \<Rightarrow> bool option" where
  "machine_online presence i m =
     (case presence of
        PresenceOk ids \<Rightarrow> if m_revokedAt m = None then Some (i \<in> set ids) else None
      | PresenceUnknown \<Rightarrow> None)"

definition agents_GET :: "(ident list \<Rightarrow> Presence) \<Rightarrow> ident option \<Rightarrow> MachineDb \<Rightarrow> (ident \<times> MachineRow \<times> bool option) list option" where
  "agents_GET presence user db =
     (case user of
        None \<Rightarrow> None
      | Some u \<Rightarrow>
          let rows = sort_key (\<lambda>(_, m). - m_createdAt m) (filter (\<lambda>(_, m). m_userId m = u) (machines db));
              p = presence (map fst (filter (\<lambda>(_, m). m_revokedAt m = None) rows))
          in Some (map (\<lambda>(i, m). (i, m, machine_online p i m)) rows))"

definition pending :: "ident \<Rightarrow> millis \<Rightarrow> MachineDb \<Rightarrow> (ident \<times> EnrollmentRow) list" where
  "pending u now db = filter (\<lambda>(_, e). en_userId e = u \<and> en_usedAt e = None \<and> now < en_expiresAt e) (enrollments db)"

datatype MintAnswer = MintRefused nat | MintedEnrollment ident string millis

definition agents_POST ::
  "(byte list \<Rightarrow> byte list) \<Rightarrow> string option \<Rightarrow> byte list \<Rightarrow> ident \<Rightarrow> millis \<Rightarrow> ident option \<Rightarrow> MachineDb \<Rightarrow> MintAnswer \<times> MachineDb" where
  "agents_POST sha256 relayUrl random uuid now user db =
     (case user of
        None \<Rightarrow> (MintRefused 401, db)
      | Some u \<Rightarrow>
          if relayUrl = None then (MintRefused 503, db)
          else if MAX_PENDING_ENROLLMENTS \<le> length (pending u now db) then (MintRefused 429, db)
          else
            let (token, hash) = mintEnrollmentToken sha256 random; expiresAt = now + ENROLLMENT_TTL_MS in
            if uuid \<in> fst ` set (enrollments db) \<or> (\<exists>(_, e)\<in>set (enrollments db). en_tokenHash e = hash) then (MintRefused 500, db)
            else (MintedEnrollment uuid token expiresAt,
                  db\<lparr>enrollments := enrollments db @
                     [(uuid, \<lparr>en_userId = u, en_tokenHash = hash, en_expiresAt = expiresAt, en_usedAt = None, en_agentId = None\<rparr>)]\<rparr>))"

section \<open>Enrolling\<close>

definition MAX_FIELD :: nat where "MAX_FIELD = 200"
definition ENROLL_LIMIT :: Rule where "ENROLL_LIMIT = \<lparr>max_requests = 10, windowSeconds = 3600\<rparr>"

definition is_control :: "char \<Rightarrow> bool" where
  "is_control c \<longleftrightarrow> code c < 32 \<or> 127 \<le> code c \<and> code c < 160"

definition cleanString :: "json \<Rightarrow> nat \<Rightarrow> string option" where
  "cleanString value m =
     (case value of
        JStr s \<Rightarrow> let trimmed = js_trim (filter (\<lambda>c. \<not> is_control c) s) in if trimmed = [] then None else Some (take m trimmed)
      | _ \<Rightarrow> None)"

definition isBase64Key :: "json \<Rightarrow> bool" where
  "isBase64Key value =
     (case value of
        JStr s \<Rightarrow>
          let pad = length (takeWhile (\<lambda>c. c = CHR ''='') (rev s)); body = take (length s - pad) s
          in length s = 44 \<and> pad \<le> 2 \<and> body \<noteq> [] \<and> list_all (\<lambda>c. b64_value c \<noteq> None) body \<and> length (node_b64 s) = 32
      | _ \<Rightarrow> False)"

record Enrolled =
  ed_agentId :: ident
  ed_relayUrl :: string
  ed_releaseUrl :: string
  ed_commandKeys :: "string list"
  ed_accountRef :: string

datatype EnrollAnswer = EnrollLimited Refusal | EnrollRefused nat | EnrollOk Enrolled

text \<open>
  The transaction: claim, insert, link. \<^const>\<open>None\<close> is a throw, which rolls everything back; the unique indexes on the
  id and on the public key make the insert throw, and so does a database that fails.
\<close>

definition new_machine :: "(byte list \<Rightarrow> byte list) \<Rightarrow> ident \<Rightarrow> millis \<Rightarrow> json \<Rightarrow> MachineRow" where
  "new_machine sha256 u now body =
     (let hostname = (case cleanString (json_field body ''hostname'') MAX_FIELD of None \<Rightarrow> ''unknown'' | Some h \<Rightarrow> h) in
      \<lparr>m_userId = u, m_label = hostname, m_publicKey = json_str (json_field body ''publicKey''),
       m_fingerprint = fingerprintFor sha256 (json_str (json_field body ''publicKey'')), m_hostname = hostname,
       m_os = cleanString (json_field body ''os'') 32, m_arch = cleanString (json_field body ''arch'') 32,
       m_agentVersion = cleanString (json_field body ''version'') 32, m_machineRef = cleanString (json_field body ''machineRef'') 64,
       m_revokedAt = None, m_lastSeenAt = None, m_createdAt = now\<rparr>)"

definition enroll_transaction ::
  "(byte list \<Rightarrow> byte list) \<Rightarrow> bool \<Rightarrow> ident \<Rightarrow> millis \<Rightarrow> json \<Rightarrow> MachineDb \<Rightarrow> (ident option \<times> MachineDb) option" where
  "enroll_transaction sha256 db_ok agentId now body db =
     (case find (\<lambda>(_, e). en_tokenHash e = hashEnrollmentToken sha256 (json_str (json_field body ''token''))
                 \<and> en_usedAt e = None \<and> now < en_expiresAt e) (enrollments db) of
        None \<Rightarrow> Some (None, db)
      | Some (eid, e) \<Rightarrow>
          if \<not> db_ok \<or> agentId \<in> fst ` set (machines db)
             \<or> (\<exists>(_, m)\<in>set (machines db). m_publicKey m = json_str (json_field body ''publicKey''))
          then None
          else Some (Some (en_userId e),
                 db\<lparr>machines := machines db @ [(agentId, new_machine sha256 (en_userId e) now body)],
                    enrollments := AList.update eid (e\<lparr>en_usedAt := Some now, en_agentId := Some agentId\<rparr>) (enrollments db)\<rparr>))"

definition enroll_POST ::
  "(byte list \<Rightarrow> byte list) \<Rightarrow> (byte list \<Rightarrow> byte list) \<Rightarrow> bool \<Rightarrow> nat \<Rightarrow> string option \<Rightarrow> string option \<Rightarrow> string option \<Rightarrow> string
     \<Rightarrow> bool \<Rightarrow> ident \<Rightarrow> millis \<Rightarrow> json option \<Rightarrow> limit_table \<times> MachineDb \<Rightarrow> EnrollAnswer \<times> limit_table \<times> MachineDb" where
  "enroll_POST sha256 ed_public reachable hops forwarded secret relayUrl releaseUrl db_ok agentId now body st =
     (case st of (limits, db) \<Rightarrow>
        (case enforce reachable hops forwarded ''agent-enroll'' ENROLL_LIMIT None
            (Some ''Too many enrollment attempts from this network in the last hour. The token you have is unaffected - wait, then run the installer again.'')
            now limits of
           (Some r, limits') \<Rightarrow> (EnrollLimited r, limits', db)
         | (None, limits') \<Rightarrow>
             (case (relayUrl, body) of
                (None, _) \<Rightarrow> (EnrollRefused 503, limits', db)
              | (_, None) \<Rightarrow> (EnrollRefused 400, limits', db)
              | (Some url, Some b) \<Rightarrow>
                  if b = JNull then (EnrollRefused 500, limits', db)
                  else if \<not> looksLikeEnrollmentToken (json_field b ''token'') then (EnrollRefused 401, limits', db)
                  else if \<not> isBase64Key (json_field b ''publicKey'') then (EnrollRefused 400, limits', db)
                  else
                    (case enroll_transaction sha256 db_ok agentId now b db of
                       None \<Rightarrow> (EnrollRefused 409, limits', db)
                     | Some (None, db') \<Rightarrow> (EnrollRefused 401, limits', db')
                     | Some (Some u, db') \<Rightarrow>
                         (EnrollOk \<lparr>ed_agentId = agentId, ed_relayUrl = url, ed_releaseUrl = releaseUrl,
                            ed_commandKeys = (case commandPublicKey ed_public secret of None \<Rightarrow> [] | Some k \<Rightarrow> [k]),
                            ed_accountRef = accountRef sha256 secret u\<rparr>, limits', db')))))"

text \<open>The waiting page asks what became of a token.\<close>

datatype PollAnswer = PollRefused nat | Waiting millis | Expired millis | Claimed ident MachineRow

definition enrollment_GET :: "ident option \<Rightarrow> ident \<Rightarrow> millis \<Rightarrow> MachineDb \<Rightarrow> PollAnswer" where
  "enrollment_GET user i now db =
     (case user of
        None \<Rightarrow> PollRefused 401
      | Some u \<Rightarrow>
          (case map_of (enrollments db) i of
             None \<Rightarrow> PollRefused 404
           | Some e \<Rightarrow>
               if en_userId e \<noteq> u then PollRefused 404
               else
                 (case (en_usedAt e, en_agentId e) of
                    (Some _, Some a) \<Rightarrow>
                      (case map_of (machines db) a of
                         None \<Rightarrow> Expired (en_expiresAt e)
                       | Some m \<Rightarrow> if m_userId m = u then Claimed a m else Expired (en_expiresAt e))
                  | _ \<Rightarrow> if en_expiresAt e \<le> now then Expired (en_expiresAt e) else Waiting (en_expiresAt e))))"

section \<open>Renaming, revoking, forgetting\<close>

definition MAX_LABEL :: nat where "MAX_LABEL = 80"

definition find_machine :: "ident \<Rightarrow> ident \<Rightarrow> MachineDb \<Rightarrow> MachineRow option" where
  "find_machine u i db = (case map_of (machines db) i of None \<Rightarrow> None | Some m \<Rightarrow> if m_userId m = u then Some m else None)"

definition agent_PATCH :: "ident option \<Rightarrow> ident \<Rightarrow> json option \<Rightarrow> MachineDb \<Rightarrow> nat \<times> MachineDb" where
  "agent_PATCH user i body db =
     (case (user, body) of
        (None, _) \<Rightarrow> (401, db)
      | (_, None) \<Rightarrow> (400, db)
      | (Some u, Some b) \<Rightarrow>
          if b = JNull then (500, db)
          else
            (case cleanString (json_field b ''label'') MAX_LABEL of
               None \<Rightarrow> (400, db)
             | Some label \<Rightarrow>
                 (case find_machine u i db of
                    None \<Rightarrow> (404, db)
                  | Some m \<Rightarrow> (200, db\<lparr>machines := AList.update i (m\<lparr>m_label := label\<rparr>) (machines db)\<rparr>))))"

definition commanded_row :: "nat \<Rightarrow> string option \<Rightarrow> ident \<Rightarrow> millis \<Rightarrow> ident \<Rightarrow> string \<Rightarrow> bool \<Rightarrow> AuditRow" where
  "commanded_row hops forwarded uuid now u command ok' =
     \<lparr>ar_id = uuid, ar_userId = u, ar_deviceId = None, ar_eventType = ''agent.commanded'', ar_source = Server, ar_targetRef = None,
      ar_ipPrefix = ipPrefix (clientAddress hops forwarded), ar_metadata = [(''command'', JStr command), (''ok'', JBool ok')], ar_createdAt = now\<rparr>"

text \<open>\<open>log_ok\<close>: whether the audit row could be written. The answer of a revocation carries what the machine said.\<close>

datatype RevokeAnswer = RevokeStatus nat | Forgotten | RevokedTold DispatchResult

definition agent_DELETE ::
  "(ident \<Rightarrow> string \<Rightarrow> json option \<times> DispatchResult) \<Rightarrow> nat \<Rightarrow> string option \<Rightarrow> bool \<Rightarrow> ident \<Rightarrow> millis \<Rightarrow> ident option \<Rightarrow> ident \<Rightarrow> bool
     \<Rightarrow> MachineDb \<Rightarrow> RevokeAnswer \<times> MachineDb" where
  "agent_DELETE dispatch hops forwarded log_ok uuid now user i forget db =
     (case user of
        None \<Rightarrow> (RevokeStatus 401, db)
      | Some u \<Rightarrow>
          (case find_machine u i db of
             None \<Rightarrow> (RevokeStatus 404, db)
           | Some m \<Rightarrow>
               if forget then
                 (if m_revokedAt m = None then (RevokeStatus 404, db)
                  else (Forgotten, db\<lparr>machines := AList.delete i (machines db),
                          enrollments := filter (\<lambda>(_, e). en_agentId e \<noteq> Some i) (enrollments db)\<rparr>))
               else if m_revokedAt m \<noteq> None then (RevokeStatus 404, db)
               else
                 let told = snd (dispatch i ''revoke'');
                     db' = db\<lparr>machines := AList.update i (m\<lparr>m_revokedAt := Some now\<rparr>) (machines db)\<rparr>
                 in (RevokedTold told,
                     if log_ok then db'\<lparr>auditLog := auditLog db @ [commanded_row hops forwarded uuid now u ''revoke'' (dr_ok told)]\<rparr> else db')))"

section \<open>The relay asks who an agent is\<close>

definition verify_authorised :: "string option \<Rightarrow> string option \<Rightarrow> bool" where
  "verify_authorised secret header =
     (case secret of
        None \<Rightarrow> False
      | Some s \<Rightarrow>
          let h = (case header of None \<Rightarrow> [] | Some h \<Rightarrow> h);
              presented = (if starts_with ''Bearer '' h then drop 7 h else [])
          in s \<noteq> [] \<and> utf8 presented = utf8 s)"

datatype VerifyAnswer = VerifyStatus nat | VerifyRefused | VerifyOk ident

definition reported_version :: "json \<Rightarrow> string option" where
  "reported_version v = (case v of JStr s \<Rightarrow> if js_trim s = [] then None else Some (take 32 (js_trim s)) | _ \<Rightarrow> None)"

definition verify_POST ::
  "(byte list \<Rightarrow> byte list \<Rightarrow> byte list \<Rightarrow> bool) \<Rightarrow> bool \<Rightarrow> string option \<Rightarrow> string option \<Rightarrow> millis \<Rightarrow> json option \<Rightarrow> MachineDb
     \<Rightarrow> VerifyAnswer \<times> MachineDb" where
  "verify_POST ed_verify stamp_ok secret authorization now body db =
     (if \<not> verify_authorised secret authorization then (VerifyStatus 401, db)
      else
        (case body of
           None \<Rightarrow> (VerifyStatus 400, db)
         | Some b \<Rightarrow>
             if b = JNull then (VerifyStatus 500, db)
             else
               let agentId = json_str (json_field b ''agentId''); nonce = json_str (json_field b ''nonce'');
                   signature = json_str (json_field b ''signature'')
               in if agentId = [] \<or> nonce = [] \<or> signature = [] then (VerifyStatus 400, db)
                  else
                    (case map_of (machines db) agentId of
                       None \<Rightarrow> (VerifyRefused, db)
                     | Some m \<Rightarrow>
                         if m_revokedAt m \<noteq> None then (VerifyRefused, db)
                         else if \<not> verifyAgentSignature ed_verify (m_publicKey m) agentId nonce signature then (VerifyRefused, db)
                         else (VerifyOk (m_userId m),
                               if stamp_ok
                               then db\<lparr>machines := AList.update agentId
                                      (m\<lparr>m_lastSeenAt := Some now,
                                         m_agentVersion := (case reported_version (json_field b ''version'') of None \<Rightarrow> m_agentVersion m | Some v \<Rightarrow> Some v)\<rparr>)
                                      (machines db)\<rparr>
                               else db))))"

section \<open>Commanding a machine\<close>

definition COMMAND_LIMIT :: Rule where "COMMAND_LIMIT = \<lparr>max_requests = 20, windowSeconds = 60\<rparr>"

definition isCommand :: "json \<Rightarrow> bool" where
  "isCommand v = (case v of JStr s \<Rightarrow> s \<in> set AGENT_COMMANDS | _ \<Rightarrow> False)"

datatype CommandAnswer = CommandStatus nat | CommandLimited Refusal | Commanded DispatchResult

text \<open>The second result is the frame handed to the relay, when one is.\<close>

definition command_POST ::
  "(ident \<Rightarrow> string \<Rightarrow> json option \<times> DispatchResult) \<Rightarrow> bool \<Rightarrow> nat \<Rightarrow> string option \<Rightarrow> bool \<Rightarrow> ident \<Rightarrow> millis \<Rightarrow> ident option \<Rightarrow> ident
     \<Rightarrow> json option \<Rightarrow> limit_table \<times> MachineDb \<Rightarrow> (CommandAnswer \<times> json option) \<times> limit_table \<times> MachineDb" where
  "command_POST dispatch reachable hops forwarded log_ok uuid now user i body st =
     (case st of (limits, db) \<Rightarrow>
        (case (user, body) of
           (None, _) \<Rightarrow> ((CommandStatus 401, None), limits, db)
         | (_, None) \<Rightarrow> ((CommandStatus 400, None), limits, db)
         | (Some u, Some b) \<Rightarrow>
             if b = JNull then ((CommandStatus 500, None), limits, db)
             else if \<not> isCommand (json_field b ''command'') then ((CommandStatus 400, None), limits, db)
             else
               (case enforce reachable hops forwarded ''agent-command'' COMMAND_LIMIT (Some u)
                   (Some ''Too many commands in the last minute. Wait a moment and try again.'') now limits of
                  (Some r, limits') \<Rightarrow> ((CommandLimited r, None), limits', db)
                | (None, limits') \<Rightarrow>
                    (case find_machine u i db of
                       None \<Rightarrow> ((CommandStatus 404, None), limits', db)
                     | Some m \<Rightarrow>
                         if m_revokedAt m \<noteq> None then ((CommandStatus 404, None), limits', db)
                         else
                           let command = json_str (json_field b ''command''); (frame, result) = dispatch i command
                           in ((Commanded result, frame), limits',
                               if log_ok then db\<lparr>auditLog := auditLog db @ [commanded_row hops forwarded uuid now u command (dr_ok result)]\<rparr>
                               else db)))))"

section \<open>Maintenance\<close>

definition ENROLLMENT_GRACE_MS :: int where "ENROLLMENT_GRACE_MS = 24 * 60 * 60 * 1000"

definition abandoned :: "millis \<Rightarrow> EnrollmentRow \<Rightarrow> bool" where
  "abandoned now e \<longleftrightarrow> en_usedAt e = None \<and> en_expiresAt e < now - ENROLLMENT_GRACE_MS"

text \<open>The answer is how many rows were deleted and how many were abandoned.\<close>

definition pruneAbandonedEnrollments :: "bool \<Rightarrow> millis \<Rightarrow> MachineDb \<Rightarrow> (nat \<times> nat) \<times> MachineDb" where
  "pruneAbandonedEnrollments dryRun now db =
     (let n = length (filter (\<lambda>(_, e). abandoned now e) (enrollments db)) in
      if dryRun \<or> n = 0 then ((0, n), db)
      else ((n, n), db\<lparr>enrollments := filter (\<lambda>(_, e). \<not> abandoned now e) (enrollments db)\<rparr>))"

definition MAX_PER_RUN :: nat where "MAX_PER_RUN = 200"

record RotationOutcome =
  ro_rotated :: nat
  ro_failed :: nat
  ro_offline :: nat
  ro_truncated :: bool

definition by_account :: "(ident \<times> MachineRow) list \<Rightarrow> (ident \<times> ident list) list" where
  "by_account rows =
     foldl (\<lambda>m (i, r). AList.update (m_userId r) ((case map_of m (m_userId r) of None \<Rightarrow> [] | Some is \<Rightarrow> is) @ [i]) m) [] rows"

fun rotate_machines :: "bool \<Rightarrow> (ident \<Rightarrow> DispatchResult) \<Rightarrow> string list \<Rightarrow> ident list \<Rightarrow> RotationOutcome \<Rightarrow> RotationOutcome" where
  "rotate_machines dryRun dispatch online [] out = out"
| "rotate_machines dryRun dispatch online (i # is) out =
     rotate_machines dryRun dispatch online is
       (if i \<notin> set online then out\<lparr>ro_offline := ro_offline out + 1\<rparr>
        else if dryRun \<or> dr_ok (dispatch i) then out\<lparr>ro_rotated := ro_rotated out + 1\<rparr>
        else out\<lparr>ro_failed := ro_failed out + 1\<rparr>)"

fun rotate_accounts ::
  "bool \<Rightarrow> (ident \<Rightarrow> DispatchResult) \<Rightarrow> (ident \<Rightarrow> ident list \<Rightarrow> Presence) \<Rightarrow> (ident \<times> ident list) list \<Rightarrow> RotationOutcome \<Rightarrow> RotationOutcome" where
  "rotate_accounts dryRun dispatch presence [] out = out"
| "rotate_accounts dryRun dispatch presence ((u, is) # accounts) out =
     rotate_accounts dryRun dispatch presence accounts
       (case presence u is of PresenceUnknown \<Rightarrow> out | PresenceOk online \<Rightarrow> rotate_machines dryRun dispatch online is out)"

definition rotateAgentKeys ::
  "string option \<Rightarrow> string option \<Rightarrow> bool \<Rightarrow> (ident \<Rightarrow> DispatchResult) \<Rightarrow> (ident \<Rightarrow> ident list \<Rightarrow> Presence) \<Rightarrow> MachineDb \<Rightarrow> RotationOutcome" where
  "rotateAgentKeys previous secret dryRun dispatch presence db =
     (let idle = \<lparr>ro_rotated = 0, ro_failed = 0, ro_offline = 0, ro_truncated = False\<rparr> in
      if \<not> rotationInProgress previous secret then idle
      else
        let agents = take (MAX_PER_RUN + 1) (filter (\<lambda>(_, m). m_revokedAt m = None) (machines db));
            batch = take MAX_PER_RUN agents
        in if batch = [] then idle
           else (rotate_accounts dryRun dispatch presence (by_account batch) idle)\<lparr>ro_truncated := (MAX_PER_RUN < length agents)\<rparr>)"

end
