(* ===== verification/Machine_Safety.thy ===== *)
theory Machine_Safety
  imports Machines
begin

text \<open>
  What enrolment, revocation and the signed commands promise: a token makes one machine, a revoked machine is shut out
  of every door at once, and only the owner's command for that machine is ever signed.
\<close>

section \<open>Signed messages\<close>

definition one_line :: "string \<Rightarrow> bool" where
  "one_line s \<longleftrightarrow> newline \<notin> set s"

lemma one_line_show_nat: "one_line (show_nat n)"
proof -
  have "48 \<le> (of_char c :: nat)" if "c \<in> set (show_nat n)" for c
    using show_radix_digits [of 10 n] that by (simp add: show_nat_def)
  moreover have "\<not> 48 \<le> (of_char newline :: nat)"
    by (simp add: newline_def)
  ultimately show ?thesis
    unfolding one_line_def by blast
qed

lemma one_line_show_int: "one_line (show_int n)"
  using one_line_show_nat by (auto simp: show_int_def one_line_def newline_def)

lemma one_line_b64_char: "n < 64 \<Longrightarrow> b64_char n \<noteq> newline"
  using b64_char_not_special [of n] by (auto simp: newline_def)

lemma one_line_toB64: "one_line (toB64 bs)"
proof -
  have "\<forall>n\<in>set (sextets (map of_char (binary_string bs))). n < 64"
    by (rule sextets_bound [OF of_char_bound])
  moreover have "newline \<noteq> CHR ''=''"
    by (simp add: newline_def)
  ultimately show ?thesis
    unfolding one_line_def toB64_def btoa_def using one_line_b64_char by fastforce
qed

lemma join_lines_inject:
  assumes "list_all one_line ps" "list_all one_line qs" "ps \<noteq> []" "qs \<noteq> []"
  shows "join_with [newline] ps = join_with [newline] qs \<longleftrightarrow> ps = qs"
  using split_join [of ps newline] split_join [of qs newline] assms unfolding list_all_iff one_line_def by metis

lemma commandMessage_inject:
  assumes "one_line a" "one_line c" "one_line n" "one_line a'" "one_line c'" "one_line n'"
  shows "commandMessage a c n e = commandMessage a' c' n' e' \<longleftrightarrow> a = a' \<and> c = c' \<and> n = n' \<and> e = e'"
proof -
  have tag: "one_line ''weirdvault-command-v1''"
    by (simp add: one_line_def newline_def)
  show ?thesis
    unfolding commandMessage_def utf8_inject
    by (subst join_lines_inject) (use assms tag one_line_show_int in \<open>auto simp: show_int_inject\<close>)
qed

lemma commandMessage_neq_verifyingMessage:
  assumes "one_line a" "one_line c" "one_line n" "one_line a'" "one_line n'"
  shows "commandMessage a c n e \<noteq> verifyingMessage a' n'"
proof -
  have tag: "one_line ''weirdvault-command-v1''" "one_line ''weirdvault-agent-v1''"
    by (simp_all add: one_line_def newline_def)
  show ?thesis
    unfolding commandMessage_def verifyingMessage_def utf8_inject
    by (subst join_lines_inject) (use assms tag one_line_show_int in auto)
qed

section \<open>Steps\<close>

text \<open>The label is the hash of the enrolment token a step mints, if it mints one.\<close>

inductive machine_step :: "(byte list \<Rightarrow> byte list) \<Rightarrow> string option \<Rightarrow> MachineDb \<Rightarrow> MachineDb \<Rightarrow> bool" for sha256 where
  minted: "agents_POST sha256 relayUrl random uuid now user db = (MintedEnrollment i token e, db') \<Longrightarrow>
    machine_step sha256 (Some (hashEnrollmentToken sha256 token)) db db'"
| enrolled: "enroll_POST sha256 ed_public reachable hops forwarded secret relayUrl releaseUrl db_ok agentId now body (limits, db) = (answer, limits', db') \<Longrightarrow>
    machine_step sha256 None db db'"
| renamed: "agent_PATCH user i body db = (status, db') \<Longrightarrow> machine_step sha256 None db db'"
| deleted: "agent_DELETE dispatch hops forwarded log_ok uuid now user i forget db = (gone, db') \<Longrightarrow> machine_step sha256 None db db'"
| verified: "verify_POST ed_verify stamp_ok secret authorization now body db = (verdict, db') \<Longrightarrow> machine_step sha256 None db db'"
| commanded: "command_POST dispatch reachable hops forwarded log_ok uuid now user i body (limits, db) = (reply, limits', db') \<Longrightarrow>
    machine_step sha256 None db db'"
| pruned: "pruneAbandonedEnrollments dryRun now db = (counts, db') \<Longrightarrow> machine_step sha256 None db db'"

inductive reachable_machines :: "(byte list \<Rightarrow> byte list) \<Rightarrow> MachineDb \<Rightarrow> bool" for sha256 where
  empty: "reachable_machines sha256 \<lparr>machines = [], enrollments = [], auditLog = []\<rparr>"
| step: "reachable_machines sha256 db \<Longrightarrow> machine_step sha256 l db db' \<Longrightarrow> reachable_machines sha256 db'"

text \<open>What each operation does to the tables, in one of six shapes.\<close>

inductive table_change :: "(byte list \<Rightarrow> byte list) \<Rightarrow> string option \<Rightarrow> MachineDb \<Rightarrow> MachineDb \<Rightarrow> bool" for sha256 where
  same: "machines db' = machines db \<Longrightarrow> enrollments db' = enrollments db \<Longrightarrow> table_change sha256 None db db'"
| mint: "eid \<notin> fst ` set (enrollments db) \<Longrightarrow> \<forall>(_, e)\<in>set (enrollments db). en_tokenHash e \<noteq> h \<Longrightarrow> machines db' = machines db \<Longrightarrow>
    enrollments db' = enrollments db @ [(eid, \<lparr>en_userId = u, en_tokenHash = h, en_expiresAt = x, en_usedAt = None, en_agentId = None\<rparr>)] \<Longrightarrow>
    table_change sha256 (Some h) db db'"
| enroll: "(eid, e) \<in> set (enrollments db) \<Longrightarrow> en_usedAt e = None \<Longrightarrow> a \<notin> fst ` set (machines db) \<Longrightarrow>
    \<forall>(_, m)\<in>set (machines db). m_publicKey m \<noteq> m_publicKey new \<Longrightarrow> m_userId new = en_userId e \<Longrightarrow> m_revokedAt new = None \<Longrightarrow>
    machines db' = machines db @ [(a, new)] \<Longrightarrow>
    enrollments db' = AList.update eid (e\<lparr>en_usedAt := Some t, en_agentId := Some a\<rparr>) (enrollments db) \<Longrightarrow>
    table_change sha256 None db db'"
| touch: "map_of (machines db) i = Some m \<Longrightarrow> m_userId m' = m_userId m \<Longrightarrow> m_publicKey m' = m_publicKey m \<Longrightarrow>
    (m_revokedAt m \<noteq> None \<longrightarrow> m_revokedAt m' = m_revokedAt m) \<Longrightarrow>
    machines db' = AList.update i m' (machines db) \<Longrightarrow> enrollments db' = enrollments db \<Longrightarrow> table_change sha256 None db db'"
| forget: "machines db' = AList.delete i (machines db) \<Longrightarrow>
    enrollments db' = filter (\<lambda>(_, e). en_agentId e \<noteq> Some i) (enrollments db) \<Longrightarrow> table_change sha256 None db db'"
| prune: "machines db' = machines db \<Longrightarrow> enrollments db' = filter (\<lambda>(_, e). \<not> abandoned now e) (enrollments db) \<Longrightarrow>
    table_change sha256 None db db'"

lemma touch_update:
  "map_of (machines db) i = Some m \<Longrightarrow> m_userId m' = m_userId m \<Longrightarrow> m_publicKey m' = m_publicKey m \<Longrightarrow>
    m_revokedAt m' = m_revokedAt m \<or> m_revokedAt m = None \<Longrightarrow> table_change sha256 None db (db\<lparr>machines := AList.update i m' (machines db)\<rparr>)"
  by (rule table_change.touch) auto

lemma find_machine_Some: "find_machine u i db = Some m \<longleftrightarrow> map_of (machines db) i = Some m \<and> m_userId m = u"
  by (auto simp: find_machine_def split: option.splits)

lemma find_member: "find P xs = Some x \<Longrightarrow> x \<in> set xs \<and> P x"
  by (induction xs) (auto split: if_splits)

lemma enroll_transaction_change:
  assumes "enroll_transaction sha256 db_ok a now body db = Some (Some u, db')"
  shows "table_change sha256 None db db'"
proof -
  obtain eid e where found: "find (\<lambda>(_, e). en_tokenHash e = hashEnrollmentToken sha256 (json_str (json_field body ''token''))
      \<and> en_usedAt e = None \<and> now < en_expiresAt e) (enrollments db) = Some (eid, e)"
    and free: "a \<notin> fst ` set (machines db)" "\<forall>(_, m)\<in>set (machines db). m_publicKey m \<noteq> json_str (json_field body ''publicKey'')"
    and db': "db' = db\<lparr>machines := machines db @ [(a, new_machine sha256 (en_userId e) now body)],
      enrollments := AList.update eid (e\<lparr>en_usedAt := Some now, en_agentId := Some a\<rparr>) (enrollments db)\<rparr>"
    using assms unfolding enroll_transaction_def by (auto split: option.splits prod.splits if_splits)
  show ?thesis
    using find_member [OF found] free
    by (intro table_change.enroll [of eid e db a "new_machine sha256 (en_userId e) now body"]) (auto simp: db' new_machine_def Let_def)
qed

lemma enroll_POST_change:
  assumes "enroll_POST sha256 ed_public reachable hops forwarded secret relayUrl releaseUrl db_ok agentId now body (limits, db) = (answer, limits', db')"
  shows "table_change sha256 None db db'"
proof -
  have "db' = db \<or> (\<exists>b u. enroll_transaction sha256 db_ok agentId now b db = Some (u, db'))"
    using assms unfolding enroll_POST_def by (auto split: prod.splits option.splits if_splits)
  then show ?thesis
  proof (elim disjE exE)
    fix b u
    assume tx: "enroll_transaction sha256 db_ok agentId now b db = Some (u, db')"
    show ?thesis
    proof (cases u)
      case None
      then have "db' = db"
        using tx unfolding enroll_transaction_def by (auto split: option.splits prod.splits if_splits)
      then show ?thesis by (simp add: table_change.same)
    next
      case (Some v)
      then show ?thesis using tx enroll_transaction_change by simp
    qed
  qed (simp add: table_change.same)
qed

lemma agent_PATCH_change: "agent_PATCH user i body db = (status, db') \<Longrightarrow> table_change sha256 None db db'"
  unfolding agent_PATCH_def
  by (auto simp: find_machine_Some table_change.same intro!: touch_update split: option.splits if_splits)

lemma agent_DELETE_change:
  assumes "agent_DELETE dispatch hops forwarded log_ok uuid now user i forget db = (gone, db')"
  shows "table_change sha256 None db db'"
proof -
  have "db' = db \<or> (machines db' = AList.delete i (machines db) \<and> enrollments db' = filter (\<lambda>(_, e). en_agentId e \<noteq> Some i) (enrollments db))
    \<or> (\<exists>m. map_of (machines db) i = Some m \<and> m_revokedAt m = None \<and> machines db' = AList.update i (m\<lparr>m_revokedAt := Some now\<rparr>) (machines db)
         \<and> enrollments db' = enrollments db)"
    using assms unfolding agent_DELETE_def Let_def by (auto simp: find_machine_Some split: option.splits if_splits)
  then show ?thesis
  proof (elim disjE exE conjE)
    fix m
    assume "map_of (machines db) i = Some m" "m_revokedAt m = None" "enrollments db' = enrollments db"
      "machines db' = AList.update i (m\<lparr>m_revokedAt := Some now\<rparr>) (machines db)"
    then show ?thesis
      by (intro table_change.touch [of db i m "m\<lparr>m_revokedAt := Some now\<rparr>"]) simp_all
  qed (auto intro: table_change.same table_change.forget)
qed

lemma verify_POST_change: "verify_POST ed_verify stamp_ok secret authorization now body db = (verdict, db') \<Longrightarrow> table_change sha256 None db db'"
  unfolding verify_POST_def Let_def
  by (auto simp: table_change.same intro!: touch_update split: option.splits if_splits)

lemma command_POST_change:
  assumes "command_POST dispatch reachable hops forwarded log_ok uuid now user i body (limits, db) = (reply, limits', db')"
  shows "table_change sha256 None db db'"
proof -
  have "machines db' = machines db \<and> enrollments db' = enrollments db"
    using assms unfolding command_POST_def Let_def by (auto split: option.splits prod.splits if_splits)
  then show ?thesis by (simp add: table_change.same)
qed

lemma agents_POST_change:
  "agents_POST sha256 relayUrl random uuid now user db = (MintedEnrollment i token e, db') \<Longrightarrow>
    table_change sha256 (Some (hashEnrollmentToken sha256 token)) db db'"
  unfolding agents_POST_def mintEnrollmentToken_def Let_def
  by (auto intro!: table_change.mint split: option.splits if_splits prod.splits)

lemma prune_change: "pruneAbandonedEnrollments dryRun now db = (counts, db') \<Longrightarrow> table_change sha256 None db db'"
  unfolding pruneAbandonedEnrollments_def Let_def
  by (auto simp: table_change.same intro: table_change.prune split: if_splits)

lemma machine_step_change: "machine_step sha256 l db db' \<Longrightarrow> table_change sha256 l db db'"
  by (erule machine_step.cases)
    (auto intro: agents_POST_change enroll_POST_change agent_PATCH_change agent_DELETE_change verify_POST_change command_POST_change prune_change)

section \<open>One token, one machine\<close>

text \<open>
  Every machine was made by an enrolment of its own account, every spent enrolment made a machine that is still there,
  and no two enrolments made the same one.
\<close>

definition owner_of :: "MachineDb \<Rightarrow> ident \<Rightarrow> ident option" where
  "owner_of db a = map_option m_userId (map_of (machines db) a)"

definition made :: "MachineDb \<Rightarrow> ident \<Rightarrow> EnrollmentRow \<Rightarrow> ident \<Rightarrow> bool" where
  "made db eid e a \<longleftrightarrow> (eid, e) \<in> set (enrollments db) \<and> en_agentId e = Some a"

definition tables_ok :: "MachineDb \<Rightarrow> bool" where
  "tables_ok db \<longleftrightarrow>
     distinct (map fst (machines db)) \<and> distinct (map (m_publicKey \<circ> snd) (machines db))
     \<and> distinct (map fst (enrollments db)) \<and> distinct (map (en_tokenHash \<circ> snd) (enrollments db))
     \<and> list_all (\<lambda>(_, e). (en_usedAt e = None) = (en_agentId e = None)) (enrollments db)"

definition links_ok :: "MachineDb \<Rightarrow> bool" where
  "links_ok db \<longleftrightarrow>
     (\<forall>eid e a. made db eid e a \<longrightarrow> owner_of db a = Some (en_userId e))
     \<and> (\<forall>a. owner_of db a \<noteq> None \<longrightarrow> (\<exists>eid e. made db eid e a))
     \<and> (\<forall>eid e eid' e' a. made db eid e a \<longrightarrow> made db eid' e' a \<longrightarrow> eid = eid')"

lemma links_okD:
  assumes "links_ok db"
  shows "made db eid e a \<Longrightarrow> owner_of db a = Some (en_userId e)"
    and "owner_of db a = Some u \<Longrightarrow> \<exists>eid e. made db eid e a"
    and "made db eid e a \<Longrightarrow> made db eid' e' a \<Longrightarrow> eid = eid'"
  using assms unfolding links_ok_def by (blast, metis option.distinct(1), blast)

lemma map_snd_update: "map_of al k = Some v \<Longrightarrow> f v' = f v \<Longrightarrow> map (f \<circ> snd) (AList.update k v' al) = map (f \<circ> snd) al"
  by (induction al) (auto split: if_splits)

lemma map_fst_update: "map_of al k = Some v \<Longrightarrow> map fst (AList.update k v' al) = map fst al"
  by (induction al) (auto split: if_splits)

lemma set_update_present:
  "distinct (map fst al) \<Longrightarrow> set (AList.update k v al) = insert (k, v) {x \<in> set al. fst x \<noteq> k}"
  by (induction al) (force split: if_splits)+

lemma set_delete: "set (AList.delete k al) = {x \<in> set al. fst x \<noteq> k}"
  by (induction al) auto

lemma distinct_map_delete: "distinct (map f al) \<Longrightarrow> distinct (map f (AList.delete k al))"
  by (induction al) (auto simp: set_delete)

lemma owner_of_None: "owner_of db a = None \<longleftrightarrow> a \<notin> fst ` set (machines db)"
  by (simp add: owner_of_def map_of_eq_None_iff)

lemma links_ok_same:
  assumes "links_ok db" "\<And>a. owner_of db' a = owner_of db a" "\<And>eid e a. made db' eid e a \<longleftrightarrow> made db eid e a"
  shows "links_ok db'"
  using assms(1) unfolding links_ok_def assms(2,3) .

lemma change_keeps_tables:
  assumes "table_change sha256 l db db'" "tables_ok db"
  shows "tables_ok db'"
  using assms(1)
proof (cases rule: table_change.cases)
  case same
  then show ?thesis using assms(2) by (simp add: tables_ok_def)
next
  case (mint eid h u x)
  then show ?thesis using assms(2) by (auto simp: tables_ok_def)
next
  case (enroll eid e a new t)
  have mem: "map_of (enrollments db) eid = Some e"
    using enroll(2) assms(2) by (simp add: tables_ok_def)
  note same = map_fst_update [OF mem] map_snd_update [OF mem, of en_tokenHash]
  have "list_all (\<lambda>(_, e). (en_usedAt e = None) = (en_agentId e = None)) (enrollments db')"
    using assms(2) set_update_subset unfolding enroll(9) tables_ok_def list_all_iff by fastforce
  then show ?thesis
    using assms(2) enroll same unfolding tables_ok_def by (auto simp: enroll(9))
next
  case (touch i m m')
  then show ?thesis
    using assms(2) map_fst_update [OF touch(2)] map_snd_update [OF touch(2), of m_publicKey] by (simp add: tables_ok_def)
next
  case (forget i)
  have "distinct (map fst (machines db'))" "distinct (map (m_publicKey \<circ> snd) (machines db'))"
    using assms(2) unfolding forget tables_ok_def by (simp_all add: distinct_delete distinct_map_delete)
  then show ?thesis
    using assms(2) unfolding tables_ok_def forget(3) by (auto simp: list_all_iff)
next
  case (prune now)
  then show ?thesis using assms(2) by (auto simp: tables_ok_def list_all_iff)
qed

lemma made_filter: "enrollments db' = filter P (enrollments db) \<Longrightarrow> made db' eid e a \<longleftrightarrow> made db eid e a \<and> P (eid, e)"
  by (auto simp: made_def)

lemma change_keeps_links:
  assumes "table_change sha256 l db db'" "tables_ok db" "links_ok db"
  shows "links_ok db'"
  using assms(1)
proof (cases rule: table_change.cases)
  case same
  show ?thesis by (rule links_ok_same [OF assms(3)]) (simp_all add: same owner_of_def made_def)
next
  case (mint eid h u x)
  show ?thesis by (rule links_ok_same [OF assms(3)]) (auto simp: mint owner_of_def made_def)
next
  case (enroll eid e a new t)
  have dist: "distinct (map fst (enrollments db))"
    using assms(2) by (simp add: tables_ok_def)
  have none: "map_of (machines db) a = None"
    using enroll(4) by (simp add: map_of_eq_None_iff)
  have owner: "owner_of db' b = (if b = a then Some (en_userId e) else owner_of db b)" for b
    using none enroll(6) by (auto simp: owner_of_def enroll(8) map_add_def split: option.splits)
  have unspent: "en_agentId e = None"
    using assms(2) enroll(2,3) unfolding tables_ok_def list_all_iff by fastforce
  have new: "made db' k f b \<longleftrightarrow> (k = eid \<and> f = e\<lparr>en_usedAt := Some t, en_agentId := Some a\<rparr> \<and> b = a) \<or> (k \<noteq> eid \<and> made db k f b)" for k f b
    unfolding made_def enroll(9) set_update_present [OF dist] by auto
  have unowned: "owner_of db a = None"
    using none by (simp add: owner_of_def)
  have free: "\<not> made db k f a" for k f
    using links_okD(1) [OF assms(3), of k f a] unowned by auto
  have eid: "\<not> made db eid f b" for f b
    using unspent eq_key_imp_eq_value [OF dist enroll(2), of f] unfolding made_def by auto
  show ?thesis
    unfolding links_ok_def
  proof (intro conjI allI impI)
    fix k f b
    assume "made db' k f b"
    then show "owner_of db' b = Some (en_userId f)"
      unfolding new owner using links_okD(1) [OF assms(3), of k f b] free [of k f] by auto
  next
    fix b
    assume owned: "owner_of db' b \<noteq> None"
    show "\<exists>k f. made db' k f b"
    proof (cases "b = a")
      case True
      then show ?thesis unfolding new by blast
    next
      case False
      then obtain u where "owner_of db b = Some u"
        using owned owner by auto
      then obtain k f where "made db k f b"
        using links_okD(2) [OF assms(3)] by blast
      then show ?thesis
        unfolding new using eid by blast
    qed
  next
    fix k f k' f' b
    assume "made db' k f b" "made db' k' f' b"
    then show "k = k'"
      unfolding new using links_okD(3) [OF assms(3), of k f b k' f'] free by blast
  qed
next
  case (touch i m m')
  show ?thesis
    by (rule links_ok_same [OF assms(3)]) (auto simp: touch owner_of_def made_def update_conv')
next
  case (forget i)
  have owner: "owner_of db' b = (if b = i then None else owner_of db b)" for b
    by (simp add: owner_of_def forget delete_conv')
  have made: "made db' k f b \<longleftrightarrow> made db k f b \<and> b \<noteq> i" for k f b
    by (auto simp: made_def forget)
  show ?thesis
    unfolding links_ok_def owner made using links_okD [OF assms(3)] by (auto split: if_splits)
next
  case (prune now)
  have used: "en_usedAt f \<noteq> None" if "made db k f b" for k f b
    using assms(2) that unfolding tables_ok_def list_all_iff made_def by fastforce
  show ?thesis
  proof (rule links_ok_same [OF assms(3)])
    show "owner_of db' a = owner_of db a" for a
      by (simp add: owner_of_def prune)
    show "made db' k f b \<longleftrightarrow> made db k f b" for k f b
      using used [of k f b] by (auto simp: made_filter [OF prune(3)] abandoned_def)
  qed
qed

lemma reachable_machines_ok: "reachable_machines sha256 db \<Longrightarrow> tables_ok db \<and> links_ok db"
proof (induction rule: reachable_machines.induct)
  case empty
  show ?case by (simp add: tables_ok_def links_ok_def made_def owner_of_def)
next
  case (step db l db')
  then show ?case
    using machine_step_change change_keeps_tables change_keeps_links by blast
qed

text \<open>
  C21. One token makes one machine: in every reachable table each machine goes back to exactly one enrolment, that enrolment
  is spent, it was minted by the account that owns the machine, and no two machines share a key or an id.\<close>

theorem one_token_one_machine:
  assumes "reachable_machines sha256 db" "map_of (machines db) a = Some m"
  shows "(\<exists>!eid. case map_of (enrollments db) eid of
      None \<Rightarrow> False
    | Some e \<Rightarrow> en_agentId e = Some a \<and> en_usedAt e \<noteq> None \<and> en_userId e = m_userId m)
    \<and> distinct (map fst (machines db)) \<and> distinct (map (m_publicKey \<circ> snd) (machines db))"
proof
  have tables: "tables_ok db" and links: "links_ok db"
    using reachable_machines_ok [OF assms(1)] by simp_all
  have dist: "distinct (map fst (enrollments db))"
    using tables by (simp add: tables_ok_def)
  have owner: "owner_of db a = Some (m_userId m)"
    using assms(2) by (simp add: owner_of_def)
  obtain eid e where e: "made db eid e a"
    using links_okD(2) [OF links owner] by blast
  have row: "map_of (enrollments db) k = Some f \<and> en_agentId f = Some a \<longleftrightarrow> made db k f a" for k f
    using dist by (auto simp: made_def)
  have used: "en_usedAt f \<noteq> None" if "made db k f a" for k f
    using tables that unfolding tables_ok_def list_all_iff made_def by fastforce
  show "\<exists>!eid. case map_of (enrollments db) eid of
      None \<Rightarrow> False
    | Some e \<Rightarrow> en_agentId e = Some a \<and> en_usedAt e \<noteq> None \<and> en_userId e = m_userId m"
  proof (rule ex1I [of _ eid])
    show "case map_of (enrollments db) eid of
        None \<Rightarrow> False
      | Some e \<Rightarrow> en_agentId e = Some a \<and> en_usedAt e \<noteq> None \<and> en_userId e = m_userId m"
      using row [of eid e] e used [OF e] links_okD(1) [OF links e] owner by simp
    show "k = eid" if "case map_of (enrollments db) k of
        None \<Rightarrow> False
      | Some e \<Rightarrow> en_agentId e = Some a \<and> en_usedAt e \<noteq> None \<and> en_userId e = m_userId m" for k
      using that row [of k] links_okD(3) [OF links _ e] by (auto split: option.splits)
  qed
  show "distinct (map fst (machines db)) \<and> distinct (map (m_publicKey \<circ> snd) (machines db))"
    using tables by (simp add: tables_ok_def)
qed

section \<open>A spent token stays spent\<close>

definition spent_token :: "string \<Rightarrow> MachineDb \<Rightarrow> bool" where
  "spent_token h db \<longleftrightarrow> (\<forall>(_, e)\<in>set (enrollments db). en_tokenHash e = h \<longrightarrow> en_usedAt e \<noteq> None)"

lemma change_keeps_spent:
  assumes "table_change sha256 l db db'" "l \<noteq> Some h" "spent_token h db"
  shows "spent_token h db'"
  using assms(1)
proof (cases rule: table_change.cases)
  case (enroll eid e a new t)
  have "en_usedAt f \<noteq> None" if "(k, f) \<in> set (enrollments db')" "en_tokenHash f = h" for k f
    using subsetD [OF set_update_subset that(1) [unfolded enroll(9)]] that(2) assms(3) by (auto simp: spent_token_def)
  then show ?thesis
    by (auto simp: spent_token_def)
qed (use assms(2,3) in \<open>auto simp: spent_token_def\<close>)

lemma spent_not_claimed:
  assumes "spent_token (hashEnrollmentToken sha256 (json_str (json_field body ''token''))) db"
  shows "enroll_transaction sha256 db_ok a now body db = Some (None, db)"
proof -
  have "find (\<lambda>(_, e). en_tokenHash e = hashEnrollmentToken sha256 (json_str (json_field body ''token''))
      \<and> en_usedAt e = None \<and> now < en_expiresAt e) (enrollments db) = None"
    using assms unfolding find_None_iff spent_token_def by auto
  then show ?thesis
    by (simp add: enroll_transaction_def)
qed

lemma claimed_is_spent:
  assumes "enroll_transaction sha256 db_ok a now body db = Some (Some u, db')" "tables_ok db"
  shows "spent_token (hashEnrollmentToken sha256 (json_str (json_field body ''token''))) db'"
proof -
  let ?h = "hashEnrollmentToken sha256 (json_str (json_field body ''token''))"
  obtain eid e where found: "find (\<lambda>(_, e). en_tokenHash e = ?h \<and> en_usedAt e = None \<and> now < en_expiresAt e) (enrollments db) = Some (eid, e)"
    and db': "enrollments db' = AList.update eid (e\<lparr>en_usedAt := Some now, en_agentId := Some a\<rparr>) (enrollments db)"
    using assms(1) unfolding enroll_transaction_def by (auto split: option.splits prod.splits if_splits)
  have mem: "(eid, e) \<in> set (enrollments db)" "en_tokenHash e = ?h"
    using find_member [OF found] by simp_all
  have dist: "distinct (map fst (enrollments db))" "distinct (map (en_tokenHash \<circ> snd) (enrollments db))"
    using assms(2) by (simp_all add: tables_ok_def)
  have "x = (eid, e)" if "x \<in> set (enrollments db)" "en_tokenHash (snd x) = ?h" for x
    using dist(2) that mem unfolding distinct_map inj_on_def by auto
  then show ?thesis
    unfolding spent_token_def db' set_update_present [OF dist(1)] by force
qed

lemma enroll_POST_ok:
  assumes "enroll_POST sha256 ed_public reachable hops forwarded secret relayUrl releaseUrl db_ok agentId now (Some b) (limits, db) = (EnrollOk r, limits', db')"
  obtains u where "enroll_transaction sha256 db_ok agentId now b db = Some (Some u, db')"
proof -
  have "\<exists>u. enroll_transaction sha256 db_ok agentId now b db = Some (Some u, db')"
    using assms unfolding enroll_POST_def by (auto split: prod.splits option.splits if_splits)
  with that show ?thesis by blast
qed

text \<open>
  C22. An enrolment token works once: after it has made a machine, whatever else happens to the tables, presenting it again
  never makes another, unless the very same token were minted anew.\<close>

theorem token_works_once:
  assumes "reachable_machines sha256 db"
    and "enroll_POST sha256 ed_public reachable hops forwarded secret relayUrl releaseUrl db_ok a now (Some b) (limits, db) = (EnrollOk r, limits1, db1)"
    and "(\<lambda>x y. \<exists>l. machine_step sha256 l x y \<and> l \<noteq> Some (hashEnrollmentToken sha256 (json_str (json_field b ''token''))))\<^sup>*\<^sup>* db1 db2"
    and "json_field b' ''token'' = json_field b ''token''"
  shows "fst (enroll_POST sha256 ed_public' reachable' hops' forwarded' secret' relayUrl' releaseUrl' db_ok' a' now' (Some b') (limits2, db2)) \<noteq> EnrollOk r'"
proof -
  let ?h = "hashEnrollmentToken sha256 (json_str (json_field b ''token''))"
  obtain u where tx: "enroll_transaction sha256 db_ok a now b db = Some (Some u, db1)"
    using assms(2) by (rule enroll_POST_ok)
  have "spent_token ?h db1"
    using claimed_is_spent [OF tx] reachable_machines_ok [OF assms(1)] by simp
  with assms(3) have "spent_token ?h db2"
  proof (induction rule: rtranclp_induct)
    case (step x y)
    then obtain l where l: "machine_step sha256 l x y" "l \<noteq> Some ?h"
      by blast
    show ?case
      using change_keeps_spent [OF machine_step_change [OF l(1)] l(2)] step by blast
  qed
  then have none: "enroll_transaction sha256 db_ok' a' now' b' db2 = Some (None, db2)"
    using spent_not_claimed [of sha256 b' db2] assms(4) by simp
  obtain answer limits' db' where post: "enroll_POST sha256 ed_public' reachable' hops' forwarded' secret' relayUrl' releaseUrl' db_ok' a' now'
      (Some b') (limits2, db2) = (answer, limits', db')"
    by (metis prod_cases3)
  have "answer \<noteq> EnrollOk r'"
    using post none by (auto elim: enroll_POST_ok)
  then show ?thesis
    by (simp add: post)
qed

section \<open>A revoked machine is shut out\<close>

definition shut_out :: "ident \<Rightarrow> string \<Rightarrow> MachineDb \<Rightarrow> bool" where
  "shut_out i key db \<longleftrightarrow> (case map_of (machines db) i of None \<Rightarrow> False | Some m \<Rightarrow> m_revokedAt m \<noteq> None \<and> m_publicKey m = key)"

lemma change_keeps_shut_out:
  assumes "table_change sha256 l db db'" "shut_out i key db" "map_of (machines db') i \<noteq> None"
  shows "shut_out i key db'"
  using assms(1)
proof (cases rule: table_change.cases)
  case (touch j m m')
  then show ?thesis
    using assms(2) by (cases "i = j") (auto simp: shut_out_def update_conv')
next
  case (forget j)
  then show ?thesis
    using assms(2,3) by (auto simp: shut_out_def delete_conv' split: if_splits)
next
  case enroll
  then show ?thesis
    using assms(2) by (auto simp: shut_out_def map_add_def split: option.splits)
qed (use assms(2) in \<open>simp_all add: shut_out_def\<close>)

lemma agent_DELETE_revoked:
  assumes "agent_DELETE dispatch hops forwarded log_ok uuid now user i forget db = (RevokedTold told, db')" "map_of (machines db) i = Some m"
  shows "shut_out i (m_publicKey m) db'" "user = Some (m_userId m)" "m_revokedAt m = None"
  using assms unfolding agent_DELETE_def Let_def
  by (auto simp: find_machine_Some shut_out_def update_conv' split: option.splits if_splits)

lemma verify_POST_ok:
  assumes "verify_POST ed_verify stamp_ok secret authorization now body db = (VerifyOk u, db')"
  obtains b m where "body = Some b" "map_of (machines db) (json_str (json_field b ''agentId'')) = Some m" "m_revokedAt m = None" "m_userId m = u"
    "verify_authorised secret authorization"
    "verifyAgentSignature ed_verify (m_publicKey m) (json_str (json_field b ''agentId'')) (json_str (json_field b ''nonce'')) (json_str (json_field b ''signature''))"
    "db' = db \<or> (\<exists>v. db' = db\<lparr>machines := AList.update (json_str (json_field b ''agentId''))
        (m\<lparr>m_lastSeenAt := Some now, m_agentVersion := v\<rparr>) (machines db)\<rparr>)"
proof -
  obtain b where b: "body = Some b" "b \<noteq> JNull" "verify_authorised secret authorization"
    using assms unfolding verify_POST_def by (auto split: if_splits option.splits)
  obtain m where m: "map_of (machines db) (json_str (json_field b ''agentId'')) = Some m"
    using assms b unfolding verify_POST_def Let_def by (auto split: if_splits option.splits)
  then have "m_revokedAt m = None \<and> m_userId m = u
      \<and> verifyAgentSignature ed_verify (m_publicKey m) (json_str (json_field b ''agentId'')) (json_str (json_field b ''nonce'')) (json_str (json_field b ''signature''))
      \<and> (db' = db \<or> (\<exists>v. db' = db\<lparr>machines := AList.update (json_str (json_field b ''agentId''))
        (m\<lparr>m_lastSeenAt := Some now, m_agentVersion := v\<rparr>) (machines db)\<rparr>))"
    using assms b unfolding verify_POST_def Let_def by (simp split: if_splits) blast?
  with b m show ?thesis
    by (intro that [OF b(1) m]) auto
qed

lemma owned_agent_rows: "owned (agent_rows db) u i \<longleftrightarrow> (\<exists>m. map_of (machines db) i = Some m \<and> m_userId m = u \<and> m_revokedAt m = None)"
  by (auto simp: owned_def agent_rows_def split: option.splits)

lemma relay_token_POST_agent:
  assumes "relay_token_POST num hmac reachable hops forwarded session cookie uuid now secret (Some body) subs usage agents limits = (Minted token ttl anonymous, limits')"
    and "json_field body ''agent'' = JStr i" "i \<noteq> []"
  shows "\<exists>u. owned agents u i"
proof -
  have "\<exists>s who. mint num hmac now s subs usage agents who body = Minted token ttl anonymous"
    using assms(1) unfolding relay_token_POST_def Let_def by (auto split: prod.splits option.splits if_splits)
  then obtain s who where "mint num hmac now s subs usage agents who body = Minted token ttl anonymous"
    by blast
  then show ?thesis
    using assms(2,3) by (auto simp: mint_def Let_def wants_agent_def split: if_splits option.splits)
qed

lemma command_POST_sent:
  assumes "command_POST dispatch reachable hops forwarded log_ok uuid now user i body (limits, db) = ((Commanded result, frame), limits', db')"
  obtains u m command where "user = Some u" "map_of (machines db) i = Some m" "m_userId m = u" "m_revokedAt m = None"
    "command \<in> set AGENT_COMMANDS" "dispatch i command = (frame, result)"
proof -
  have "\<exists>u m command. user = Some u \<and> map_of (machines db) i = Some m \<and> m_userId m = u \<and> m_revokedAt m = None
      \<and> command \<in> set AGENT_COMMANDS \<and> dispatch i command = (frame, result)"
    using assms unfolding command_POST_def Let_def isCommand_def
    by (auto simp: find_machine_Some split: option.splits prod.splits if_splits json.splits)
  with that show ?thesis by blast
qed

text \<open>
  C23. Revoking a machine shuts it out of every door at once, and for as long as its row is kept: the relay's question about
  it is never answered yes, no token for a session to it is minted, no command is sent to it, and its key enrols nothing.\<close>

theorem revoked_machine_shut_out:
  assumes "agent_DELETE dispatch hops forwarded log_ok uuid now user i forget db = (RevokedTold told, db1)"
    and "map_of (machines db) i = Some m" "i \<noteq> []"
    and "(\<lambda>x y. (\<exists>l. machine_step sha256 l x y) \<and> map_of (machines y) i \<noteq> None)\<^sup>*\<^sup>* db1 db2"
    and "json_field vbody ''agentId'' = JStr i" "json_field tbody ''agent'' = JStr i" "json_field ebody ''publicKey'' = JStr (m_publicKey m)"
  shows "fst (verify_POST ed_verify stamp_ok vsecret authorization vnow (Some vbody) db2) \<noteq> VerifyOk u
    \<and> fst (relay_token_POST num hmac reachable thops tforwarded session cookie tuuid tnow tsecret (Some tbody) subs usage (agent_rows db2) tlimits)
        \<noteq> Minted token ttl anonymous
    \<and> fst (fst (command_POST send reachable chops cforwarded clog_ok cuuid cnow cuser i cbody (climits, db2))) \<noteq> Commanded result
    \<and> fst (enroll_POST sha256 ed_public reachable ehops eforwarded esecret relayUrl releaseUrl db_ok a enow (Some ebody) (elimits, db2)) \<noteq> EnrollOk r"
proof -
  have "shut_out i (m_publicKey m) db1"
    by (rule agent_DELETE_revoked(1) [OF assms(1,2)])
  with assms(4) have out: "shut_out i (m_publicKey m) db2"
  proof (induction rule: rtranclp_induct)
    case (step x y)
    then obtain l where "machine_step sha256 l x y" "map_of (machines y) i \<noteq> None"
      by blast
    then show ?case
      using change_keeps_shut_out [OF machine_step_change] step by blast
  qed
  then obtain m2 where m2: "map_of (machines db2) i = Some m2" "m_revokedAt m2 \<noteq> None" "m_publicKey m2 = m_publicKey m"
    by (auto simp: shut_out_def split: option.splits)
  have verify: "ans \<noteq> VerifyOk u" if "verify_POST ed_verify stamp_ok vsecret authorization vnow (Some vbody) db2 = (ans, d)" for ans d
    using that m2 assms(5) by (auto elim!: verify_POST_ok)
  have mint: "ans \<noteq> Minted token ttl anonymous"
    if "relay_token_POST num hmac reachable thops tforwarded session cookie tuuid tnow tsecret (Some tbody) subs usage (agent_rows db2) tlimits = (ans, d)" for ans d
  proof
    assume "ans = Minted token ttl anonymous"
    from relay_token_POST_agent [OF that [unfolded this] assms(6,3)] show False
      using m2 unfolding owned_agent_rows by auto
  qed
  have command: "ans \<noteq> Commanded result"
    if "command_POST send reachable chops cforwarded clog_ok cuuid cnow cuser i cbody (climits, db2) = ((ans, f), d)" for ans f d
    using that m2 by (cases d) (auto elim!: command_POST_sent)
  have none: "enroll_transaction sha256 db_ok a enow ebody db2 \<noteq> Some (Some v, d)" for v d
  proof -
    have "\<exists>(_, x)\<in>set (machines db2). m_publicKey x = json_str (json_field ebody ''publicKey'')"
      using map_of_SomeD [OF m2(1)] m2(3) assms(7) by force
    then show ?thesis
      by (simp add: enroll_transaction_def split: option.splits prod.splits)
  qed
  have enroll: "ans \<noteq> EnrollOk r"
    if "enroll_POST sha256 ed_public reachable ehops eforwarded esecret relayUrl releaseUrl db_ok a enow (Some ebody) (elimits, db2) = (ans, d, d')" for ans d d'
  proof
    assume "ans = EnrollOk r"
    from that [unfolded this] show False
      by (rule enroll_POST_ok) (use none in blast)
  qed
  show ?thesis
    using verify mint command enroll by (metis prod.collapse)
qed

text \<open>
  The relay's question is answered yes only for a machine whose row is there and not revoked, and only when the stored
  key verifies a signature over this very agent and nonce; all it changes is when that machine was seen and what it runs.\<close>

theorem verify_is_sound:
  assumes "verify_POST ed_verify stamp_ok secret authorization now (Some body) db = (VerifyOk u, db')"
  shows "verify_authorised secret authorization
    \<and> (case map_of (machines db) (json_str (json_field body ''agentId'')) of
         None \<Rightarrow> False
       | Some m \<Rightarrow> m_userId m = u \<and> m_revokedAt m = None
           \<and> ed_verify (node_b64 (m_publicKey m)) (verifyingMessage (json_str (json_field body ''agentId'')) (json_str (json_field body ''nonce'')))
               (node_b64 (json_str (json_field body ''signature'')))
           \<and> (db' = db \<or> (\<exists>v. machines db' = AList.update (json_str (json_field body ''agentId'')) (m\<lparr>m_lastSeenAt := Some now, m_agentVersion := v\<rparr>) (machines db)))
           \<and> enrollments db' = enrollments db)"
  using assms by (elim verify_POST_ok) (auto simp: verifyAgentSignature_def)


section \<open>An example\<close>

definition example_token :: string where
  "example_token = fst (mintEnrollmentToken (\<lambda>_. [7]) (replicate 32 0))"

definition example_key :: string where
  "example_key = toB64 (replicate 32 1)"

definition no_machines :: MachineDb where
  "no_machines = \<lparr>machines = [], enrollments = [], auditLog = []\<rparr>"

definition example_minted :: MachineDb where
  "example_minted = no_machines\<lparr>enrollments := [(''e1'', \<lparr>en_userId = ''u'', en_tokenHash = hashEnrollmentToken (\<lambda>_. [7]) example_token,
     en_expiresAt = 600000, en_usedAt = None, en_agentId = None\<rparr>)]\<rparr>"

definition enroll_body :: json where
  "enroll_body = JObj [(''token'', JStr example_token), (''publicKey'', JStr example_key)]"

definition example_enrolled :: MachineDb where
  "example_enrolled = \<lparr>machines = [(''a1'', new_machine (\<lambda>_. [7]) ''u'' 5 enroll_body)],
     enrollments = [(''e1'', \<lparr>en_userId = ''u'', en_tokenHash = hashEnrollmentToken (\<lambda>_. [7]) example_token,
       en_expiresAt = 600000, en_usedAt = Some 5, en_agentId = Some ''a1''\<rparr>)], auditLog = []\<rparr>"

definition enrolled_answer :: Enrolled where
  "enrolled_answer = \<lparr>ed_agentId = ''a1'', ed_relayUrl = ''wss://r/agent'', ed_releaseUrl = ''b'', ed_commandKeys = [],
     ed_accountRef = accountRef (\<lambda>_. [7]) None ''u''\<rparr>"

lemma example_token_ok: "looksLikeEnrollmentToken (JStr example_token)" "isBase64Key (JStr example_key)"
  by code_simp+

lemma example_mint:
  "agents_POST (\<lambda>_. [7]) (Some ''wss://r/agent'') (replicate 32 0) ''e1'' 0 (Some ''u'') no_machines
     = (MintedEnrollment ''e1'' example_token 600000, example_minted)"
  by (simp add: agents_POST_def pending_def no_machines_def MAX_PENDING_ENROLLMENTS_def mintEnrollmentToken_def example_token_def
      example_minted_def ENROLLMENT_TTL_MS_def Let_def)

lemma example_enroll:
  "enroll_POST (\<lambda>_. [7]) (\<lambda>k. k) True 0 None None (Some ''wss://r/agent'') ''b'' True ''a1'' 5 (Some enroll_body) (Map.empty, example_minted)
     = (EnrollOk enrolled_answer, snd (enforce True 0 None ''agent-enroll'' ENROLL_LIMIT None
          (Some ''Too many enrollment attempts from this network in the last hour. The token you have is unaffected - wait, then run the installer again.'')
          5 Map.empty), example_enrolled)"
  using example_token_ok
  by (simp add: enroll_POST_def enforce_def consume_def upsert_def ALLOWED_def INT4_MAX_def ENROLL_LIMIT_def enroll_body_def
      enroll_transaction_def example_minted_def no_machines_def example_enrolled_def enrolled_answer_def commandPublicKey_def signingKey_def Let_def)

lemma example_machines_reachable:
  "reachable_machines (\<lambda>_. [7]) no_machines" "reachable_machines (\<lambda>_. [7]) example_minted" "reachable_machines (\<lambda>_. [7]) example_enrolled"
proof -
  show e: "reachable_machines (\<lambda>_. [7]) no_machines"
    unfolding no_machines_def by (rule reachable_machines.empty)
  show m: "reachable_machines (\<lambda>_. [7]) example_minted"
    by (rule reachable_machines.step [OF e machine_step.minted [OF example_mint]])
  show "reachable_machines (\<lambda>_. [7]) example_enrolled"
    by (rule reachable_machines.step [OF m machine_step.enrolled [OF example_enroll]])
qed

theorem one_token_one_machine_witness:
  "\<exists>!eid. case map_of (enrollments example_enrolled) eid of
      None \<Rightarrow> False
    | Some e \<Rightarrow> en_agentId e = Some ''a1'' \<and> en_usedAt e \<noteq> None \<and> en_userId e = ''u''"
proof -
  have m: "map_of (machines example_enrolled) ''a1'' = Some (new_machine (\<lambda>_. [7]) ''u'' 5 enroll_body)"
    by (simp add: example_enrolled_def)
  have u: "m_userId (new_machine (\<lambda>_. [7]) ''u'' 5 enroll_body) = ''u''"
    by (simp add: new_machine_def Let_def)
  show ?thesis
    by (rule conjunct1 [OF one_token_one_machine [OF example_machines_reachable(3) m, unfolded u]])
qed

theorem token_works_once_witness:
  "\<forall>r. fst (enroll_POST (\<lambda>_. [7]) (\<lambda>k. k) True 0 None None (Some ''wss://r/agent'') ''b'' True ''a2'' 6 (Some enroll_body) (Map.empty, example_enrolled))
     \<noteq> EnrollOk r"
  using token_works_once [OF example_machines_reachable(2) example_enroll rtranclp.rtrancl_refl refl] by blast

definition example_dispatch :: "ident \<Rightarrow> string \<Rightarrow> json option \<times> DispatchResult" where
  "example_dispatch i c = (None, \<lparr>dr_ok = False, dr_detail = [], dr_unconfigured = True\<rparr>)"

theorem revoked_machine_shut_out_witness:
  "\<forall>u. fst (verify_POST (\<lambda>_ _ _. True) True (Some ''s'') (Some ''Bearer s'') 9 (Some (JObj [(''agentId'', JStr ''a1'')]))
     (snd (agent_DELETE example_dispatch 0 None True ''l'' 7 (Some ''u'') ''a1'' False example_enrolled))) \<noteq> VerifyOk u"
proof -
  obtain told db1 where gone: "agent_DELETE example_dispatch 0 None True ''l'' 7 (Some ''u'') ''a1'' False example_enrolled = (RevokedTold told, db1)"
    by (simp add: agent_DELETE_def find_machine_def example_enrolled_def new_machine_def Let_def)
  have m: "map_of (machines example_enrolled) ''a1'' = Some (new_machine (\<lambda>_. [7]) ''u'' 5 enroll_body)"
    by (simp add: example_enrolled_def)
  have "json_field enroll_body ''publicKey'' = JStr (m_publicKey (new_machine (\<lambda>_. [7]) ''u'' 5 enroll_body))"
    by (simp add: enroll_body_def new_machine_def Let_def)
  from revoked_machine_shut_out [OF gone m _ rtranclp.rtrancl_refl _ _ this, of "JObj [(''agentId'', JStr ''a1'')]" "JObj [(''agent'', JStr ''a1'')]"]
  show ?thesis
    by (simp add: gone)
qed

definition verify_body :: json where
  "verify_body = JObj [(''agentId'', JStr ''a1''), (''nonce'', JStr ''n''), (''signature'', JStr (toB64 (replicate 64 2)))]"

lemma example_signature: "length (node_b64 example_key) = 32" "length (node_b64 (toB64 (replicate 64 2))) = 64"
  by code_simp+

theorem verify_is_sound_witness:
  "\<exists>db'. verify_POST (\<lambda>_ _ _. True) True (Some ''s'') (Some ''Bearer s'') 9 (Some verify_body) example_enrolled = (VerifyOk ''u'', db')
     \<and> enrollments db' = enrollments example_enrolled"
proof -
  have "toB64 (replicate 64 2) \<noteq> []"
    by code_simp
  then obtain db' where ok: "verify_POST (\<lambda>_ _ _. True) True (Some ''s'') (Some ''Bearer s'') 9 (Some verify_body) example_enrolled = (VerifyOk ''u'', db')"
    using example_signature
    by (simp add: verify_POST_def verify_authorised_def verify_body_def example_enrolled_def new_machine_def enroll_body_def
        verifyAgentSignature_def Let_def)
  from verify_is_sound [OF ok] ok show ?thesis
    by (auto split: option.splits)
qed

definition example_env :: CommandEnv where
  "example_env = \<lparr>ce_secret = Some example_key, ce_previous = None, ce_relaySecret = Some ''r'', ce_base = Some ''http://r''\<rparr>"


end
