(* ===== verification/Recovery_Codes.thy ===== *)
theory Recovery_Codes
  imports Vault_Sync Js_Text
begin

text \<open>
  The key tree of a password (\<open>lib/vault/kdf.ts\<close>) and the recovery codes that escrow it
  (\<open>lib/vault/recovery.ts\<close>): the codes and their spellings, the fixed-size payload, enrolment and redemption.
  Argon2id, SHA-256, HKDF and the key import are the fields of a \<open>key_tree\<close> record; random bytes are arguments.
  A \<open>CryptoKey\<close> stands for its bytes: that they cannot be read back is not a fact the model could use.
\<close>

unbundle bit_operations_syntax

section \<open>Three branches of one password\<close>

record Argon2Params =
  parallelism :: nat
  iterations :: nat
  memorySize :: nat
  hashLength :: nat

definition ARGON2_PARAMS :: Argon2Params where
  "ARGON2_PARAMS = \<lparr>parallelism = 1, iterations = 3, memorySize = 65536, hashLength = 32\<rparr>"

definition AUTH_INFO :: string where "AUTH_INFO = ''weirdvault/auth/v1''"
definition VAULT_INFO :: string where "VAULT_INFO = ''weirdvault/vault/v1''"
definition AUDIT_INFO :: string where "AUDIT_INFO = ''weirdvault/audit/v1''"
definition SECRET_BRANCH_BYTES :: nat where "SECRET_BRANCH_BYTES = 32"

text \<open>\<open>argon2id\<close> refuses an empty password: \<^const>\<open>None\<close>.\<close>

record 'k key_tree =
  argon2id :: "Argon2Params \<Rightarrow> string \<Rightarrow> byte list \<Rightarrow> byte list option"
  sha256_of :: "byte list \<Rightarrow> byte list"
  hkdf_bits :: "byte list \<Rightarrow> byte list \<Rightarrow> nat \<Rightarrow> byte list"
  import_key :: "byte list \<Rightarrow> 'k"

text \<open>What the code relies on: the digest and the derived bits have the lengths asked for.\<close>

definition key_tree_ok :: "'k key_tree \<Rightarrow> bool" where
  "key_tree_ok kt \<longleftrightarrow> (\<forall>b. length (sha256_of kt b) = 32) \<and> (\<forall>m i n. length (hkdf_bits kt m i n) = n div 8)"

record RawSecretBytes =
  raw_authToken :: "byte list"
  raw_vaultKey :: "byte list"
  raw_auditKey :: "byte list"

record 'k DerivedSecrets =
  authToken :: string
  vaultKey_of :: 'k
  auditKey_of :: "byte list"

text \<open>\<open>toLowerCase\<close> and \<open>toUpperCase\<close> on code units below 256; the upper case of two of them lies beyond, they stay.\<close>

definition lower_char :: "char \<Rightarrow> char" where
  "lower_char c = (let n = code c in if 65 \<le> n \<and> n \<le> 90 \<or> 192 \<le> n \<and> n \<le> 222 \<and> n \<noteq> 215 then char_of (n + 32) else c)"

definition upper_char :: "char \<Rightarrow> string" where
  "upper_char c =
     (let n = code c in
      if 97 \<le> n \<and> n \<le> 122 \<or> 224 \<le> n \<and> n \<le> 254 \<and> n \<noteq> 247 then [char_of (n - 32)]
      else if n = 223 then ''SS'' else [c])"

definition toLowerCase :: "string \<Rightarrow> string" where "toLowerCase s = map lower_char s"
definition toUpperCase :: "string \<Rightarrow> string" where "toUpperCase s = concat (map upper_char s)"

definition saltFor :: "'k key_tree \<Rightarrow> string \<Rightarrow> byte list" where
  "saltFor kt email = sha256_of kt (utf8 (''weirdvault/salt/v1:'' @ toLowerCase (js_trim email)))"

definition hkdf :: "'k key_tree \<Rightarrow> byte list \<Rightarrow> string \<Rightarrow> byte list" where
  "hkdf kt master info = hkdf_bits kt master (utf8 info) (32 * 8)"

definition deriveBranches :: "'k key_tree \<Rightarrow> string \<Rightarrow> string \<Rightarrow> RawSecretBytes option" where
  "deriveBranches kt email password =
     map_option (\<lambda>master. \<lparr>raw_authToken = hkdf kt master AUTH_INFO, raw_vaultKey = hkdf kt master VAULT_INFO,
         raw_auditKey = hkdf kt master AUDIT_INFO\<rparr>)
       (argon2id kt ARGON2_PARAMS password (saltFor kt email))"

definition importRawSecretBytes :: "'k key_tree \<Rightarrow> RawSecretBytes \<Rightarrow> 'k DerivedSecrets" where
  "importRawSecretBytes kt raw =
     \<lparr>authToken = toB64 (raw_authToken raw), vaultKey_of = import_key kt (raw_vaultKey raw), auditKey_of = raw_auditKey raw\<rparr>"

definition deriveSecrets :: "'k key_tree \<Rightarrow> string \<Rightarrow> string \<Rightarrow> 'k DerivedSecrets option" where
  "deriveSecrets kt email password = map_option (importRawSecretBytes kt) (deriveBranches kt email password)"

section \<open>Codes\<close>

definition RECOVERY_CODE_COUNT :: nat where "RECOVERY_CODE_COUNT = 10"
definition CODE_BYTES :: nat where "CODE_BYTES = 15"
definition CODE_CHARS :: nat where "CODE_CHARS = 24"
definition CODE_GROUP :: nat where "CODE_GROUP = 4"
definition CODE_ALPHABET :: string where "CODE_ALPHABET = ''0123456789ABCDEFGHJKMNPQRSTVWXYZ''"

text \<open>The groups of the regular expression \<open>.{1,4}\<close>: at most four characters each, none across a line end.\<close>

fun chunks_of :: "nat \<Rightarrow> 'a list \<Rightarrow> 'a list list" where
  "chunks_of n xs = (if xs = [] \<or> n = 0 then [] else take n xs # chunks_of n (drop n xs))"

declare chunks_of.simps [simp del]

definition code_groups :: "string \<Rightarrow> string list" where
  "code_groups bare = concat (map (chunks_of CODE_GROUP) (concat (map (split_on (CHR 0x0D)) (split_on newline bare))))"

definition formatRecoveryCode :: "string \<Rightarrow> string" where
  "formatRecoveryCode bare = join_with ''-'' (code_groups bare)"

definition normaliseRecoveryCode :: "string \<Rightarrow> string" where
  "normaliseRecoveryCode input =
     (let upper = toUpperCase input;
          ones = map (\<lambda>c. if c \<in> set ''IL'' then CHR ''1'' else c) upper;
          zeros = map (\<lambda>c. if c = CHR ''O'' then CHR ''0'' else c) ones;
          plain = filter (\<lambda>c. is_digit c \<or> is_upper c) zeros
      in filter (\<lambda>c. c \<in> set CODE_ALPHABET) plain)"

definition isPlausibleRecoveryCode :: "string \<Rightarrow> bool" where
  "isPlausibleRecoveryCode input \<longleftrightarrow> length (normaliseRecoveryCode input) = CODE_CHARS"

text \<open>The inner loop of \<open>newCode\<close>: five bits at a time off the accumulator, a 32-bit integer shifted with its sign.\<close>

fun emit_code :: "nat \<Rightarrow> 32 word \<Rightarrow> string \<Rightarrow> nat \<times> string" where
  "emit_code bits acc out =
     (if 5 \<le> bits
      then emit_code (bits - 5) acc (out @ [CODE_ALPHABET ! unat (signed_drop_bit (bits - 5) acc AND 31)])
      else (bits, out))"

declare emit_code.simps [simp del]

definition code_step :: "nat \<times> 32 word \<times> string \<Rightarrow> byte \<Rightarrow> nat \<times> 32 word \<times> string" where
  "code_step = (\<lambda>(bits, acc, out) b.
     let acc' = push_bit 8 acc OR ucast b; (bits', out') = emit_code (bits + 8) acc' out in (bits', acc', out'))"

definition newCode :: "byte list \<Rightarrow> string" where
  "newCode bytes = snd (snd (foldl code_step (0, 0, []) bytes))"

definition ID_INFO :: string where "ID_INFO = ''weirdvault/recovery/id/v1:''"
definition ID_BYTES :: nat where "ID_BYTES = 16"

definition recoveryCodeId :: "'k key_tree \<Rightarrow> string \<Rightarrow> string" where
  "recoveryCodeId kt c = hex_text (take ID_BYTES (sha256_of kt (utf8 (ID_INFO @ normaliseRecoveryCode c))))"

definition RECOVERY_ARGON2_PARAMS :: Argon2Params where
  "RECOVERY_ARGON2_PARAMS = \<lparr>parallelism = 1, iterations = 2, memorySize = 19456, hashLength = 32\<rparr>"

definition wrappingKeyFor :: "'k key_tree \<Rightarrow> string \<Rightarrow> byte list \<Rightarrow> 'k option" where
  "wrappingKeyFor kt c salt = map_option (import_key kt) (argon2id kt RECOVERY_ARGON2_PARAMS (normaliseRecoveryCode c) salt)"

section \<open>The payload\<close>

definition PAYLOAD_VERSION :: byte where "PAYLOAD_VERSION = 1"
definition PAYLOAD_BYTES :: nat where "PAYLOAD_BYTES = 1 + SECRET_BRANCH_BYTES * 3"
definition CIPHERTEXT_BYTES :: nat where "CIPHERTEXT_BYTES = PAYLOAD_BYTES + 16"

text \<open>\<open>Uint8Array.set\<close> throws when the source does not fit.\<close>

definition array_set :: "nat \<Rightarrow> byte list \<Rightarrow> byte list \<Rightarrow> byte list option" where
  "array_set off src out =
     (if length out < off + length src then None else Some (take off out @ src @ drop (off + length src) out))"

definition packPayload :: "RawSecretBytes \<Rightarrow> byte list option" where
  "packPayload raw =
     (case array_set 1 (raw_vaultKey raw) ((replicate PAYLOAD_BYTES 0)[0 := PAYLOAD_VERSION]) of
        None \<Rightarrow> None
      | Some out \<Rightarrow>
          (case array_set (1 + SECRET_BRANCH_BYTES) (raw_auditKey raw) out of
             None \<Rightarrow> None
           | Some out \<Rightarrow> array_set (1 + SECRET_BRANCH_BYTES * 2) (raw_authToken raw) out))"

definition unpackPayload :: "byte list \<Rightarrow> RawSecretBytes option" where
  "unpackPayload payload =
     (if length payload \<noteq> PAYLOAD_BYTES \<or> payload ! 0 \<noteq> PAYLOAD_VERSION then None
      else Some \<lparr>raw_authToken = drop (1 + SECRET_BRANCH_BYTES * 2) payload,
                 raw_vaultKey = take SECRET_BRANCH_BYTES (drop 1 payload),
                 raw_auditKey = take SECRET_BRANCH_BYTES (drop (1 + SECRET_BRANCH_BYTES) payload)\<rparr>)"

section \<open>Enrolment\<close>

record RecoveryEnvelope =
  re_id :: string
  re_salt :: string
  re_iv :: string
  re_ciphertext :: string

datatype RecoveryError =
    KdfRefused
  | RecoveryLockedError
  | RecoveryPasswordError
  | PayloadTooLong
  | EnvelopeSize nat
  | NotStored
  | TooManyAttempts
  | RecoveryUnavailable
  | BadSalt
  | RecoveryCodeError

definition PROBE :: "byte list" where "PROBE = utf8 ''weirdvault/probe/1''"

definition assertPasswordMatchesSession :: "'k platform \<Rightarrow> 'k key_tree \<Rightarrow> 'k option \<Rightarrow> byte list \<Rightarrow> RawSecretBytes \<Rightarrow> RecoveryError option" where
  "assertPasswordMatchesSession pf kt session iv raw =
     (case session of
        None \<Rightarrow> Some RecoveryLockedError
      | Some sessionKey \<Rightarrow>
          (case aes_decrypt pf (vaultKey_of (importRawSecretBytes kt raw)) iv (aes_encrypt pf sessionKey iv PROBE) of
             None \<Rightarrow> Some RecoveryPasswordError
           | Some _ \<Rightarrow> None))"

text \<open>The random bytes one envelope draws: for its code, its salt and its initialisation vector.\<close>

record Draw =
  dw_code :: "byte list"
  dw_salt :: "byte list"
  dw_iv :: "byte list"

definition seal_code :: "'k platform \<Rightarrow> 'k key_tree \<Rightarrow> byte list \<Rightarrow> Draw \<Rightarrow> RecoveryError + string \<times> RecoveryEnvelope" where
  "seal_code pf kt payload d =
     (let c = newCode (dw_code d) in
      case wrappingKeyFor kt c (dw_salt d) of
        None \<Rightarrow> Inl KdfRefused
      | Some key \<Rightarrow>
          let ciphertext = aes_encrypt pf key (dw_iv d) payload in
          if length ciphertext \<noteq> CIPHERTEXT_BYTES then Inl (EnvelopeSize (length ciphertext))
          else Inr (c, \<lparr>re_id = recoveryCodeId kt c, re_salt = toB64 (dw_salt d), re_iv = toB64 (dw_iv d),
                        re_ciphertext = toB64 ciphertext\<rparr>))"

fun seal_codes :: "'k platform \<Rightarrow> 'k key_tree \<Rightarrow> byte list \<Rightarrow> Draw list \<Rightarrow> RecoveryError + (string \<times> RecoveryEnvelope) list" where
  "seal_codes pf kt payload [] = Inr []"
| "seal_codes pf kt payload (d # ds) =
     (case seal_code pf kt payload d of
        Inl e \<Rightarrow> Inl e
      | Inr sealed \<Rightarrow> map_sum id ((#) sealed) (seal_codes pf kt payload ds))"

text \<open>\<open>post\<close> says whether the server answered the enrolment of these envelopes with a success.\<close>

definition enrolRecoveryCodes ::
  "'k platform \<Rightarrow> 'k key_tree \<Rightarrow> 'k option \<Rightarrow> byte list \<Rightarrow> (nat \<Rightarrow> Draw) \<Rightarrow> (RecoveryEnvelope list \<Rightarrow> bool) \<Rightarrow> string \<Rightarrow> string
     \<Rightarrow> RecoveryError + string list" where
  "enrolRecoveryCodes pf kt session probe_iv draws post email password =
     (case deriveBranches kt email password of
        None \<Rightarrow> Inl KdfRefused
      | Some raw \<Rightarrow>
          (case assertPasswordMatchesSession pf kt session probe_iv raw of
             Some e \<Rightarrow> Inl e
           | None \<Rightarrow>
               (case packPayload raw of
                  None \<Rightarrow> Inl PayloadTooLong
                | Some payload \<Rightarrow>
                    (case seal_codes pf kt payload (map draws [0..<RECOVERY_CODE_COUNT]) of
                       Inl e \<Rightarrow> Inl e
                     | Inr pairs \<Rightarrow> if post (map snd pairs) then Inr (map fst pairs) else Inl NotStored))))"

section \<open>Redemption\<close>

text \<open>What comes back from the server: nothing, a status that is not a success, or an envelope.\<close>

datatype RedeemReply = NoReplyAtAll | RedeemStatus nat | Handed RecoveryEnvelope

definition redeemRecoveryCode ::
  "'k platform \<Rightarrow> 'k key_tree \<Rightarrow> (string \<Rightarrow> string \<Rightarrow> RedeemReply) \<Rightarrow> string \<Rightarrow> string \<Rightarrow> RecoveryError + 'k DerivedSecrets" where
  "redeemRecoveryCode pf kt post email c =
     (case post (toLowerCase (js_trim email)) (recoveryCodeId kt c) of
        NoReplyAtAll \<Rightarrow> Inl RecoveryUnavailable
      | RedeemStatus status \<Rightarrow> if status = 429 then Inl TooManyAttempts else Inl RecoveryUnavailable
      | Handed envelope \<Rightarrow>
          (case fromB64 (re_salt envelope) of
             None \<Rightarrow> Inl BadSalt
           | Some salt \<Rightarrow>
               (case wrappingKeyFor kt c salt of
                  None \<Rightarrow> Inl KdfRefused
                | Some key \<Rightarrow>
                    (case (fromB64 (re_iv envelope), fromB64 (re_ciphertext envelope)) of
                       (Some iv, Some ciphertext) \<Rightarrow>
                         (case aes_decrypt pf key iv ciphertext of
                            None \<Rightarrow> Inl RecoveryCodeError
                          | Some payload \<Rightarrow>
                              (case unpackPayload payload of
                                 None \<Rightarrow> Inl RecoveryCodeError
                               | Some raw \<Rightarrow> Inr (importRawSecretBytes kt raw)))
                     | _ \<Rightarrow> Inl RecoveryCodeError))))"

end
