(* ===== verification/Recovery_Facts.thy ===== *)
theory Recovery_Facts
  imports Recovery_Codes
begin

text \<open>
  What a code is worth: it writes its 120 random bits without loss, every spelling of it normalises to it, and the
  payload comes apart into the branches it was packed from.
\<close>

section \<open>Five bits at a time\<close>

lemma emit_digit:
  assumes k: "k + 5 \<le> 32"
  shows "unat (signed_drop_bit k (acc :: 32 word) AND 31) = unat acc div 2 ^ k mod 32"
proof -
  have "signed_drop_bit k acc AND mask 5 = take_bit 5 (drop_bit k acc)"
  proof (rule bit_word_eqI)
    fix n
    assume "n < LENGTH(32)"
    then show "bit (signed_drop_bit k acc AND mask 5) n \<longleftrightarrow> bit (take_bit 5 (drop_bit k acc)) n"
      using k by (cases "32 - k \<le> n") (auto simp: bit_simps)
  qed
  then have "signed_drop_bit k acc AND 31 = take_bit 5 (drop_bit k acc)"
    by (simp add: mask_eq_exp_minus_1)
  moreover have "unat (take_bit 5 (drop_bit k acc)) = take_bit 5 (drop_bit k (unat acc))"
    using unsigned_less [of acc, where ?'a = nat]
    by (simp only: unsigned_take_bit_eq unsigned_drop_bit_eq take_bit_nat_eq_self)
  ultimately show ?thesis
    by (simp only:) (simp add: take_bit_eq_mod drop_bit_eq_div)
qed

lemma byte_less: "unat (b :: byte) < 256"
  using unsigned_less [of b, where ?'a = nat] by simp

lemma shift_in_byte: "unat (push_bit 8 acc OR ucast b :: 32 word) = (unat acc * 256 + unat (b :: byte)) mod 2 ^ 32"
proof -
  have "\<not> bit b (n + 8)" for n
    using bit_imp_le_length [of b "n + 8"] by auto
  then have "push_bit 8 acc AND (ucast b :: 32 word) = 0"
    by (auto intro!: bit_word_eqI simp: bit_simps) (metis le_add_diff_inverse2)
  then have "push_bit 8 acc OR (ucast b :: 32 word) = push_bit 8 acc + ucast b"
    by (simp add: disjunctive_add_eq_or)
  then have "push_bit 8 acc OR ucast b = acc * 256 + (ucast b :: 32 word)"
    by (simp add: push_bit_eq_mult)
  moreover have "unat (ucast b :: 32 word) = unat b"
    using byte_less [of b] by (simp add: unsigned_ucast_eq take_bit_nat_eq_self)
  ultimately show ?thesis
    by (simp add: unat_word_ariths mod_simps)
qed

definition five_bits :: "nat \<Rightarrow> nat list \<Rightarrow> nat" where
  "five_bits v ds = foldl (\<lambda>n d. 32 * n + d) v ds"

lemma emit_code_spec:
  assumes "bits < 32"
  shows "\<exists>ds. emit_code bits acc out = (bits mod 5, out @ map ((!) CODE_ALPHABET) ds) \<and> list_all (\<lambda>d. d < 32) ds
    \<and> length ds = bits div 5
    \<and> five_bits v ds * 2 ^ (bits mod 5) + unat acc mod 2 ^ (bits mod 5) = v * 2 ^ bits + unat acc mod 2 ^ bits"
  using assms
proof (induction bits acc out arbitrary: v rule: emit_code.induct)
  case (1 bits acc out)
  show ?case
  proof (cases "5 \<le> bits")
    case True
    define d where "d = unat (signed_drop_bit (bits - 5) acc AND 31)"
    have d: "d = unat acc div 2 ^ (bits - 5) mod 32"
      unfolding d_def by (rule emit_digit) (use 1 True in simp)
    obtain ds where ds: "emit_code (bits - 5) acc (out @ [CODE_ALPHABET ! d])
          = ((bits - 5) mod 5, (out @ [CODE_ALPHABET ! d]) @ map ((!) CODE_ALPHABET) ds)" "list_all (\<lambda>d. d < 32) ds"
        "length ds = (bits - 5) div 5"
      and v: "five_bits (32 * v + d) ds * 2 ^ ((bits - 5) mod 5) + unat acc mod 2 ^ ((bits - 5) mod 5)
          = (32 * v + d) * 2 ^ (bits - 5) + unat acc mod 2 ^ (bits - 5)"
      using 1 True unfolding d_def by fastforce
    have m: "(bits - 5) mod 5 = bits mod 5" "bits div 5 = Suc ((bits - 5) div 5)" "2 ^ bits = 32 * (2::nat) ^ (bits - 5)"
      using True power_add [of "2::nat" 5 "bits - 5"] by (simp_all add: le_mod_geq le_div_geq)
    have "d * 2 ^ (bits - 5) + unat acc mod 2 ^ (bits - 5) = unat acc mod 2 ^ bits"
      unfolding d m(3) using mod_mult2_eq [of "unat acc" "2 ^ (bits - 5)" 32] by (simp add: mult.commute)
    with v have "five_bits v (d # ds) * 2 ^ (bits mod 5) + unat acc mod 2 ^ (bits mod 5) = v * 2 ^ bits + unat acc mod 2 ^ bits"
      by (simp add: m five_bits_def algebra_simps)
    moreover have "emit_code bits acc out = (bits mod 5, out @ map ((!) CODE_ALPHABET) (d # ds))"
      using True ds(1) by (subst emit_code.simps) (simp add: m d_def)
    moreover have "list_all (\<lambda>d. d < 32) (d # ds)" "length (d # ds) = bits div 5"
      using ds(2,3) by (simp_all add: d m(2))
    ultimately show ?thesis
      by blast
  next
    case False
    then show ?thesis
      by (intro exI [of _ "[]"]) (simp add: five_bits_def emit_code.simps [of bits])
  qed
qed

definition bytes_value :: "byte list \<Rightarrow> nat" where
  "bytes_value bs = foldl (\<lambda>n b. 256 * n + unat b) 0 bs"

lemma code_loop:
  "\<exists>acc ds. foldl code_step (0, 0, []) bs = ((8 * length bs) mod 5, acc, map ((!) CODE_ALPHABET) ds) \<and> list_all (\<lambda>d. d < 32) ds
    \<and> length ds = 8 * length bs div 5
    \<and> five_bits 0 ds * 2 ^ (8 * length bs mod 5) + unat acc mod 2 ^ (8 * length bs mod 5) = bytes_value bs"
proof (induction bs rule: rev_induct)
  case Nil
  show ?case
    by (intro exI [of _ 0] exI [of _ "[]"]) (simp add: five_bits_def bytes_value_def)
next
  case (snoc b bs)
  let ?k = "8 * length bs mod 5"
  obtain acc ds where loop: "foldl code_step (0, 0, []) bs = (?k, acc, map ((!) CODE_ALPHABET) ds)" "list_all (\<lambda>d. d < 32) ds"
      "length ds = 8 * length bs div 5"
    and val: "five_bits 0 ds * 2 ^ ?k + unat acc mod 2 ^ ?k = bytes_value bs"
    using snoc.IH by blast
  let ?acc = "push_bit 8 acc OR ucast b :: 32 word"
  have k: "?k + 8 < 32"
    using mod_less_divisor [of 5 "8 * length bs"] by linarith
  obtain es where es: "emit_code (?k + 8) ?acc (map ((!) CODE_ALPHABET) ds)
        = ((?k + 8) mod 5, map ((!) CODE_ALPHABET) ds @ map ((!) CODE_ALPHABET) es)" "list_all (\<lambda>d. d < 32) es" "length es = (?k + 8) div 5"
    and v: "five_bits (five_bits 0 ds) es * 2 ^ ((?k + 8) mod 5) + unat ?acc mod 2 ^ ((?k + 8) mod 5)
        = five_bits 0 ds * 2 ^ (?k + 8) + unat ?acc mod 2 ^ (?k + 8)"
    using emit_code_spec [OF k] by blast
  have "unat ?acc mod 2 ^ (?k + 8) = (unat acc * 256 + unat b) mod 2 ^ (?k + 8)"
    unfolding shift_in_byte by (rule mod_mod_cancel) (rule le_imp_power_dvd, use k in simp)
  also have "\<dots> = (unat acc mod 2 ^ ?k) * 256 + unat b"
    using mod_mult2_eq [of "unat acc * 256 + unat b" 256 "2 ^ ?k"] byte_less [of b] by (simp add: power_add mult.commute)
  finally have low: "unat ?acc mod 2 ^ (?k + 8) = (unat acc mod 2 ^ ?k) * 256 + unat b" .
  have m: "(?k + 8) mod 5 = 8 * length (bs @ [b]) mod 5" "length (ds @ es) = 8 * length (bs @ [b]) div 5"
    using loop(3) es(3) by (simp_all add: mod_simps) presburger+
  have "five_bits 0 (ds @ es) * 2 ^ (8 * length (bs @ [b]) mod 5) + unat ?acc mod 2 ^ (8 * length (bs @ [b]) mod 5) = bytes_value (bs @ [b])"
    using v val unfolding low m by (simp add: bytes_value_def five_bits_def power_add algebra_simps)
  moreover have "foldl code_step (0, 0, []) (bs @ [b]) = (8 * length (bs @ [b]) mod 5, ?acc, map ((!) CODE_ALPHABET) (ds @ es))"
    using es(1) unfolding foldl_append loop(1) m(1) by (simp add: code_step_def Let_def)
  moreover have "list_all (\<lambda>d. d < 32) (ds @ es)"
    using loop(2) es(2) by simp
  ultimately show ?case
    using m(2) by blast
qed

lemma digit_inject:
  assumes "n * x + d = n * y + e" "d < n" "e < n"
  shows "x = (y :: nat)" "d = e"
proof -
  have "(n * x + d) div n = (n * y + e) div n" "(n * x + d) mod n = (n * y + e) mod n"
    by (simp_all only: assms(1))
  then show "x = y" "d = e"
    using assms(2,3) by simp_all
qed

lemma five_bits_inject:
  "list_all (\<lambda>d. d < 32) ds \<Longrightarrow> list_all (\<lambda>d. d < 32) es \<Longrightarrow> length ds = length es \<Longrightarrow> five_bits 0 ds = five_bits 0 es \<Longrightarrow> ds = es"
proof (induction ds arbitrary: es rule: rev_induct)
  case (snoc d ds)
  then obtain e es' where es: "es = es' @ [e]" by (cases es rule: rev_cases) auto
  have "32 * five_bits 0 ds + d = 32 * five_bits 0 es' + e" "d < 32" "e < 32"
    using snoc.prems by (simp_all add: es five_bits_def)
  then have "five_bits 0 ds = five_bits 0 es'" "d = e"
    by (rule digit_inject)+
  then show ?case
    using snoc by (simp add: es)
qed simp

lemma bytes_value_inject: "length bs = length cs \<Longrightarrow> bytes_value bs = bytes_value cs \<Longrightarrow> bs = cs"
proof (induction bs arbitrary: cs rule: rev_induct)
  case (snoc b bs)
  then obtain c cs' where cs: "cs = cs' @ [c]" by (cases cs rule: rev_cases) auto
  have "256 * bytes_value bs + unat b = 256 * bytes_value cs' + unat c"
    using snoc.prems by (simp add: cs bytes_value_def)
  then have "bytes_value bs = bytes_value cs'" "unat b = unat c"
    using byte_less [of b] byte_less [of c] by (blast dest: digit_inject)+
  then show ?case
    using snoc by (simp add: cs unsigned_word_eqI)
qed simp

lemma alphabet_facts:
  "list_all (\<lambda>n. CODE_ALPHABET ! n \<in> set CODE_ALPHABET \<and> list_all (\<lambda>m. CODE_ALPHABET ! m = CODE_ALPHABET ! n \<longrightarrow> m = n) [0..<32]) [0..<32]"
  by code_simp

lemma alphabet_digits:
  assumes "d < 32"
  shows "CODE_ALPHABET ! d \<in> set CODE_ALPHABET" "e < 32 \<Longrightarrow> CODE_ALPHABET ! d = CODE_ALPHABET ! e \<longleftrightarrow> d = e"
  using assms alphabet_facts by (auto simp: list_all_iff)

lemma newCode_digits:
  assumes "length bs = CODE_BYTES"
  obtains ds where "newCode bs = map ((!) CODE_ALPHABET) ds" "list_all (\<lambda>d. d < 32) ds" "length ds = CODE_CHARS"
    "five_bits 0 ds = bytes_value bs"
proof -
  have n: "8 * length bs mod 5 = 0" "8 * length bs div 5 = CODE_CHARS"
    by (simp_all add: assms CODE_BYTES_def CODE_CHARS_def)
  from code_loop [of bs] show ?thesis
    unfolding n by (auto simp: newCode_def intro: that)
qed

lemma newCode_shape:
  assumes "length bs = CODE_BYTES"
  shows "length (newCode bs) = CODE_CHARS" "set (newCode bs) \<subseteq> set CODE_ALPHABET"
  using assms by (auto elim!: newCode_digits simp: list_all_iff alphabet_digits)

lemma newCode_inject:
  assumes "length bs = CODE_BYTES" "length cs = CODE_BYTES" "newCode bs = newCode cs"
  shows "bs = cs"
proof -
  obtain ds where ds: "newCode bs = map ((!) CODE_ALPHABET) ds" "list_all (\<lambda>d. d < 32) ds" "length ds = CODE_CHARS"
      "five_bits 0 ds = bytes_value bs"
    by (rule newCode_digits [OF assms(1)])
  obtain es where es: "newCode cs = map ((!) CODE_ALPHABET) es" "list_all (\<lambda>d. d < 32) es" "length es = CODE_CHARS"
      "five_bits 0 es = bytes_value cs"
    by (rule newCode_digits [OF assms(2)])
  have "inj_on ((!) CODE_ALPHABET) {..<32}"
    by (auto simp: inj_on_def alphabet_digits)
  then have "ds = es"
    using assms(3) ds(1,2) es(1,2) by (auto simp: list_all_iff elim!: map_inj_on intro: inj_on_subset)
  then show ?thesis
    using ds(4) es(4) assms(1,2) by (auto intro: bytes_value_inject)
qed

section \<open>Spellings\<close>

lemma alphabet_char_all:
  "list_all (\<lambda>c. upper_char c = [c] \<and> (is_digit c \<or> is_upper c) \<and> c \<notin> set ''ILO'' \<and> upper_char (lower_char c) = [c]) CODE_ALPHABET"
  by code_simp

lemma normalise_append: "normaliseRecoveryCode (s @ t) = normaliseRecoveryCode s @ normaliseRecoveryCode t"
  by (simp add: normaliseRecoveryCode_def toUpperCase_def Let_def)

lemma alphabet_char:
  assumes "c \<in> set CODE_ALPHABET"
  shows "upper_char c = [c]" "is_digit c \<or> is_upper c" "c \<notin> set ''ILO''" "upper_char (lower_char c) = [c]"
  using alphabet_char_all assms unfolding list_all_iff by blast+

lemma normalise_one:
  "upper_char c = [d] \<Longrightarrow> d \<in> set CODE_ALPHABET \<Longrightarrow> normaliseRecoveryCode [c] = [d]"
  using alphabet_char [of d] by (simp add: normaliseRecoveryCode_def toUpperCase_def Let_def)

lemma normalise_char:
  "c \<in> set CODE_ALPHABET \<Longrightarrow> normaliseRecoveryCode [c] = [c]"
  "c \<in> set CODE_ALPHABET \<Longrightarrow> normaliseRecoveryCode [lower_char c] = [c]"
  by (simp_all add: normalise_one alphabet_char)

lemma normalise_noise: "normaliseRecoveryCode ''-'' = []" "normaliseRecoveryCode '' '' = []"
  by code_simp+

text \<open>A spelling of a code: its characters in either case, with dashes and spaces anywhere.\<close>

fun spells :: "string \<Rightarrow> string \<Rightarrow> bool" where
  "spells [] c = (c = [])"
| "spells (x # xs) c =
     (x \<in> {CHR ''-'', CHR '' ''} \<and> spells xs c
      \<or> (case c of [] \<Rightarrow> False | y # ys \<Rightarrow> (x = y \<or> x = lower_char y) \<and> spells xs ys))"

lemma normalise_spelling: "set c \<subseteq> set CODE_ALPHABET \<Longrightarrow> spells s c \<Longrightarrow> normaliseRecoveryCode s = c"
proof (induction s c rule: spells.induct)
  case (1 c)
  then show ?case by (simp add: normaliseRecoveryCode_def toUpperCase_def)
next
  case (2 x xs c)
  have one: "normaliseRecoveryCode (x # xs) = normaliseRecoveryCode [x] @ normaliseRecoveryCode xs"
    using normalise_append [of "[x]" xs] by simp
  show ?case
    using 2 unfolding one by (auto simp: normalise_char normalise_noise split: list.splits)
qed

lemma spells_refl: "spells c c"
  by (induction c) auto

lemma spells_append: "spells s c \<Longrightarrow> spells t d \<Longrightarrow> spells (s @ t) (c @ d)"
  by (induction s c rule: spells.induct) (auto split: list.splits)

lemma spells_join: "spells (join_with ''-'' ps) (concat ps)"
proof (induction "''-''" ps rule: join_with.induct)
  case (3 p q ps)
  then have "spells (''-'' @ join_with ''-'' (q # ps)) (concat (q # ps))"
    by simp
  then show ?case
    using spells_append [OF spells_refl] by simp
qed (simp_all add: spells_refl)

lemma concat_chunks: "0 < n \<Longrightarrow> concat (chunks_of n xs) = xs"
  by (induction n xs rule: chunks_of.induct) (subst chunks_of.simps, auto)

lemma format_spells:
  assumes "set c \<subseteq> set CODE_ALPHABET"
  shows "spells (formatRecoveryCode c) c"
proof -
  have "newline \<notin> set CODE_ALPHABET" "CHR 0x0D \<notin> set CODE_ALPHABET"
    by code_simp+
  then have "newline \<notin> set c" "CHR 0x0D \<notin> set c"
    using assms by blast+
  then have "code_groups c = chunks_of CODE_GROUP c"
    by (simp add: code_groups_def split_on_no_sep)
  then show ?thesis
    using spells_join [of "chunks_of CODE_GROUP c"] by (simp add: formatRecoveryCode_def concat_chunks CODE_GROUP_def)
qed

section \<open>The payload\<close>

definition branch_sizes :: "RawSecretBytes \<Rightarrow> bool" where
  "branch_sizes raw \<longleftrightarrow> length (raw_authToken raw) = SECRET_BRANCH_BYTES \<and> length (raw_vaultKey raw) = SECRET_BRANCH_BYTES
     \<and> length (raw_auditKey raw) = SECRET_BRANCH_BYTES"

lemma packPayload_eq:
  assumes "branch_sizes raw"
  shows "packPayload raw = Some (PAYLOAD_VERSION # raw_vaultKey raw @ raw_auditKey raw @ raw_authToken raw)"
proof -
  have rep: "(replicate PAYLOAD_BYTES 0)[0 := PAYLOAD_VERSION] = PAYLOAD_VERSION # replicate 96 0"
    by (simp add: PAYLOAD_BYTES_def SECRET_BRANCH_BYTES_def numeral_eq_Suc)
  show ?thesis
    using assms unfolding packPayload_def rep
    by (simp add: array_set_def branch_sizes_def SECRET_BRANCH_BYTES_def)
qed

lemma unpack_pack:
  assumes "branch_sizes raw"
  shows "packPayload raw \<noteq> None" "unpackPayload (the (packPayload raw)) = Some raw" "length (the (packPayload raw)) = PAYLOAD_BYTES"
  using assms
  by (simp_all add: packPayload_eq unpackPayload_def branch_sizes_def SECRET_BRANCH_BYTES_def PAYLOAD_BYTES_def)

lemma deriveBranches_sizes: "key_tree_ok kt \<Longrightarrow> deriveBranches kt email password = Some raw \<Longrightarrow> branch_sizes raw"
  by (auto simp: deriveBranches_def branch_sizes_def hkdf_def key_tree_ok_def SECRET_BRANCH_BYTES_def)

interpretation payload: codec branch_sizes "\<lambda>raw. the (packPayload raw)" unpackPayload
  by unfold_locales (rule unpack_pack)

section \<open>Ciphertexts with a tag\<close>

definition gcm_tag_ok :: "'k platform \<Rightarrow> bool" where
  "gcm_tag_ok pf \<longleftrightarrow> (\<forall>k iv p. length (aes_encrypt pf k iv p) = length p + 16)"

text \<open>A platform for the examples whose ciphertexts open under their own key only.\<close>

definition box_platform :: "byte platform" where
  "box_platform = sample_platform
     \<lparr>aes_encrypt := (\<lambda>k iv p. map (xor k) p @ replicate 16 k),
      aes_decrypt := (\<lambda>k iv c. if 16 \<le> length c \<and> drop (length c - 16) c = replicate 16 k
        then Some (map (xor k) (take (length c - 16) c)) else None)\<rparr>"

lemma box_platform_ok: "platform_ok box_platform" "gcm_tag_ok box_platform"
  using sample_platform_ok
  by (simp_all add: platform_ok_def gcm_tag_ok_def box_platform_def o_def xor.left_commute flip: xor.assoc)

end
