(* ===== verification/Recovery_Server.thy ===== *)
theory Recovery_Server
  imports Recovery_Codes Rate_Limit Relay_Usage
begin

text \<open>
  The recovery endpoint (\<open>app/api/recovery/route.ts\<close>): one row of envelopes per account, enrolled and removed by its
  owner, handed out one at a time to whoever names a code, with a decoy for everybody else. Each SQL statement is a step:
  a redemption reads the row in one and writes the rest of it back in another. HMAC and the session are arguments.
\<close>

section \<open>Envelope shapes\<close>

definition ID_HEX_CHARS :: nat where "ID_HEX_CHARS = 32"
definition SALT_BYTES :: nat where "SALT_BYTES = 16"
definition IV_BYTES :: nat where "IV_BYTES = 12"
definition ROUTE_CIPHERTEXT_BYTES :: nat where "ROUTE_CIPHERTEXT_BYTES = 113"
definition MIN_ENVELOPES :: nat where "MIN_ENVELOPES = 1"
definition MAX_ENVELOPES :: nat where "MAX_ENVELOPES = 32"

definition is_code_id :: "string \<Rightarrow> bool" where
  "is_code_id s \<longleftrightarrow> length s = ID_HEX_CHARS \<and> list_all (\<lambda>c. is_digit c \<or> 97 \<le> code c \<and> code c \<le> 102) s"

definition strip_equals :: "string \<Rightarrow> string" where
  "strip_equals s = rev (dropWhile (\<lambda>c. c = CHR ''='') (rev s))"

definition exact_b64 :: "nat \<Rightarrow> json \<Rightarrow> bool" where
  "exact_b64 n v =
     (case v of
        JStr s \<Rightarrow> length (node_b64 s) = n \<and> strip_equals (toB64 (node_b64 s)) = strip_equals s
      | _ \<Rightarrow> False)"

definition isStoredEnvelope :: "json \<Rightarrow> bool" where
  "isStoredEnvelope v \<longleftrightarrow>
     (case json_field v ''id'' of JStr i \<Rightarrow> is_code_id i | _ \<Rightarrow> False)
     \<and> exact_b64 SALT_BYTES (json_field v ''salt'')
     \<and> exact_b64 IV_BYTES (json_field v ''iv'')
     \<and> exact_b64 ROUTE_CIPHERTEXT_BYTES (json_field v ''ciphertext'')"

definition envelope_of :: "json \<Rightarrow> RecoveryEnvelope" where
  "envelope_of v = \<lparr>re_id = json_str (json_field v ''id''), re_salt = json_str (json_field v ''salt''),
     re_iv = json_str (json_field v ''iv''), re_ciphertext = json_str (json_field v ''ciphertext'')\<rparr>"

definition envelope_json :: "RecoveryEnvelope \<Rightarrow> json" where
  "envelope_json e = JObj [(''id'', JStr (re_id e)), (''salt'', JStr (re_salt e)), (''iv'', JStr (re_iv e)),
     (''ciphertext'', JStr (re_ciphertext e))]"

section \<open>Decoys\<close>

text \<open>
  The loop copies one digest at a time. Each digest is at least a byte, so as many turns as there are bytes are enough.
\<close>

fun decoy_loop :: "(byte list \<Rightarrow> byte list) \<Rightarrow> string \<Rightarrow> nat \<Rightarrow> nat \<Rightarrow> nat \<Rightarrow> byte list \<Rightarrow> byte list" where
  "decoy_loop hmac label n 0 counter out = out"
| "decoy_loop hmac label n (Suc fuel) counter out =
     (if length out < n
      then decoy_loop hmac label n fuel (counter + 1)
             (out @ take (n - length out) (hmac (utf8 (''weirdvault/recovery/decoy/v1:'' @ label @ '':'' @ show_nat counter))))
      else out)"

definition decoyBytes :: "(byte list \<Rightarrow> byte list) \<Rightarrow> string \<Rightarrow> nat \<Rightarrow> byte list" where
  "decoyBytes hmac label n = decoy_loop hmac label n n 0 []"

definition decoyEnvelope :: "(byte list \<Rightarrow> byte list) \<Rightarrow> string \<Rightarrow> string \<Rightarrow> RecoveryEnvelope" where
  "decoyEnvelope hmac email codeId =
     (let label = email @ '':'' @ codeId in
      \<lparr>re_id = codeId, re_salt = toB64 (decoyBytes hmac (label @ '':salt'') SALT_BYTES),
       re_iv = toB64 (decoyBytes hmac (label @ '':iv'') IV_BYTES),
       re_ciphertext = toB64 (decoyBytes hmac (label @ '':ct'') ROUTE_CIPHERTEXT_BYTES)\<rparr>)"

section \<open>The table\<close>

record RecoveryRow =
  rb_id :: ident
  rb_envelopes :: "RecoveryEnvelope list"
  rb_createdAt :: millis
  rb_updatedAt :: millis
  rb_lastUsedAt :: "millis option"

text \<open>Rows by account, which is unique; only this route writes the envelope column, always with an array.\<close>

record RecoveryDb =
  blobs :: "(ident \<times> RecoveryRow) list"
  recovery_log :: "AuditRow list"

datatype RecoveryAnswer =
    RecoveryRefused nat
  | RecoveryLimited Refusal
  | RecoveryStatus bool nat "millis option" "millis option"
  | CodesStored nat
  | HandedOut RecoveryEnvelope
  | Removed bool

definition recovery_GET :: "ident option \<Rightarrow> RecoveryDb \<Rightarrow> RecoveryAnswer" where
  "recovery_GET user db =
     (case user of
        None \<Rightarrow> RecoveryRefused 401
      | Some u \<Rightarrow>
          (case map_of (blobs db) u of
             None \<Rightarrow> RecoveryStatus False 0 None None
           | Some row \<Rightarrow> RecoveryStatus True (length (rb_envelopes row)) (Some (rb_createdAt row)) (rb_lastUsedAt row)))"

definition recovery_event :: "nat \<Rightarrow> string option \<Rightarrow> ident \<Rightarrow> millis \<Rightarrow> ident \<Rightarrow> string \<Rightarrow> (string \<times> json) list \<Rightarrow> AuditRow" where
  "recovery_event hops forwarded uuid now u t meta =
     \<lparr>ar_id = uuid, ar_userId = u, ar_deviceId = None, ar_eventType = t, ar_source = Server, ar_targetRef = None,
      ar_ipPrefix = ipPrefix (clientAddress hops forwarded), ar_metadata = meta, ar_createdAt = now\<rparr>"

definition json_count :: "nat \<Rightarrow> json" where "json_count n = JNum (Num (of_nat n))"

definition upsert_blob :: "ident \<Rightarrow> millis \<Rightarrow> ident \<Rightarrow> RecoveryEnvelope list \<Rightarrow> (ident \<times> RecoveryRow) list \<Rightarrow> (ident \<times> RecoveryRow) list" where
  "upsert_blob uuid now u clean rows =
     AList.update u
       (case map_of rows u of
          None \<Rightarrow> \<lparr>rb_id = uuid, rb_envelopes = clean, rb_createdAt = now, rb_updatedAt = now, rb_lastUsedAt = None\<rparr>
        | Some row \<Rightarrow> row\<lparr>rb_envelopes := clean, rb_updatedAt := now, rb_lastUsedAt := None\<rparr>) rows"

text \<open>The two identifiers drawn are the row's and the audit row's.\<close>

definition enrol :: "nat \<Rightarrow> string option \<Rightarrow> ident \<Rightarrow> ident \<Rightarrow> millis \<Rightarrow> ident option \<Rightarrow> json \<Rightarrow> RecoveryDb \<Rightarrow> RecoveryAnswer \<times> RecoveryDb" where
  "enrol hops forwarded uuid uuid' now user body db =
     (case user of
        None \<Rightarrow> (RecoveryRefused 401, db)
      | Some u \<Rightarrow>
          (case json_field body ''envelopes'' of
             JArr envelopes \<Rightarrow>
               if length envelopes < MIN_ENVELOPES \<or> MAX_ENVELOPES < length envelopes then (RecoveryRefused 400, db)
               else if \<not> list_all isStoredEnvelope envelopes then (RecoveryRefused 400, db)
               else
                 let clean = map envelope_of envelopes in
                 if \<not> distinct (map re_id clean) then (RecoveryRefused 400, db)
                 else (CodesStored (length clean),
                       \<lparr>blobs = upsert_blob uuid now u clean (blobs db),
                        recovery_log = recovery_log db
                          @ [recovery_event hops forwarded uuid' now u ''recovery.enrolled'' [(''codes'', json_count (length clean))]]\<rparr>)
           | _ \<Rightarrow> (RecoveryRefused 400, db)))"

definition REDEEM_LIMIT :: Rule where "REDEEM_LIMIT = \<lparr>max_requests = 20, windowSeconds = 600\<rparr>"

definition idMatches :: "string \<Rightarrow> string \<Rightarrow> bool" where
  "idMatches a b \<longleftrightarrow> length (utf8 a) = length (utf8 b) \<and> utf8 a = utf8 b"

text \<open>
  \<open>owners email\<close> are the accounts whose address in lower case is \<open>email\<close>, in the order the database finds them;
  the join keeps those with a row.
\<close>

definition find_blob :: "(string \<Rightarrow> ident list) \<Rightarrow> string \<Rightarrow> RecoveryDb \<Rightarrow> (ident \<times> RecoveryRow) option" where
  "find_blob owners email db =
     (case List.map_filter (\<lambda>u. map_option (Pair u) (map_of (blobs db) u)) (owners email) of [] \<Rightarrow> None | r # _ \<Rightarrow> Some r)"

text \<open>What a redemption knows after its read: whose row, which row, the match and what remains.\<close>

record Redemption =
  rd_user :: ident
  rd_row :: ident
  rd_match :: RecoveryEnvelope
  rd_remaining :: "RecoveryEnvelope list"

definition redeem_read :: "(string \<Rightarrow> ident list) \<Rightarrow> string \<Rightarrow> string \<Rightarrow> RecoveryDb \<Rightarrow> Redemption option" where
  "redeem_read owners email codeId db =
     (case find_blob owners email db of
        None \<Rightarrow> None
      | Some (u, row) \<Rightarrow>
          (case find (\<lambda>e. idMatches (re_id e) codeId) (rb_envelopes row) of
             None \<Rightarrow> None
           | Some e \<Rightarrow> Some \<lparr>rd_user = u, rd_row = rb_id row, rd_match = e,
               rd_remaining = filter (\<lambda>e. \<not> idMatches (re_id e) codeId) (rb_envelopes row)\<rparr>))"

text \<open>The update is by the row's identifier; a row that is gone is not written.\<close>

definition redeem_write :: "nat \<Rightarrow> string option \<Rightarrow> ident \<Rightarrow> millis \<Rightarrow> Redemption \<Rightarrow> RecoveryDb \<Rightarrow> RecoveryDb" where
  "redeem_write hops forwarded uuid now r db =
     \<lparr>blobs = map (\<lambda>(u, row). (u, if rb_id row = rd_row r
         then row\<lparr>rb_envelopes := rd_remaining r, rb_updatedAt := now, rb_lastUsedAt := Some now\<rparr> else row)) (blobs db),
      recovery_log = recovery_log db
        @ [recovery_event hops forwarded uuid now (rd_user r) ''recovery.redeemed'' [(''remaining'', json_count (length (rd_remaining r)))]]\<rparr>"

text \<open>Everything of a redemption before its write: an answer at once, or a redemption to finish.\<close>

definition redeem_start ::
  "(byte list \<Rightarrow> byte list) \<Rightarrow> (string \<Rightarrow> ident list) \<Rightarrow> bool \<Rightarrow> nat \<Rightarrow> string option \<Rightarrow> millis \<Rightarrow> json \<Rightarrow> limit_table \<times> RecoveryDb
     \<Rightarrow> (RecoveryAnswer + Redemption) \<times> limit_table" where
  "redeem_start hmac owners reachable hops forwarded now body st =
     (case st of (limits, db) \<Rightarrow>
        (case enforce reachable hops forwarded ''recovery-redeem'' REDEEM_LIMIT None
            (Some ''Too many recovery attempts. Wait ten minutes and try again.'') now limits of
           (Some r, limits') \<Rightarrow> (Inl (RecoveryLimited r), limits')
         | (None, limits') \<Rightarrow>
             (case (json_field body ''email'', json_field body ''codeId'') of
                (JStr email, JStr codeId) \<Rightarrow>
                  let normalisedEmail = toLowerCase (js_trim email);
                      decoy = Inl (HandedOut (decoyEnvelope hmac normalisedEmail codeId))
                  in if \<not> is_code_id codeId then (decoy, limits')
                     else (case redeem_read owners normalisedEmail codeId db of
                             None \<Rightarrow> (decoy, limits')
                           | Some r \<Rightarrow> (Inr r, limits'))
              | _ \<Rightarrow> (Inl (RecoveryRefused 400), limits'))))"

definition redeem ::
  "(byte list \<Rightarrow> byte list) \<Rightarrow> (string \<Rightarrow> ident list) \<Rightarrow> bool \<Rightarrow> nat \<Rightarrow> string option \<Rightarrow> ident \<Rightarrow> millis \<Rightarrow> json \<Rightarrow> limit_table \<times> RecoveryDb
     \<Rightarrow> RecoveryAnswer \<times> limit_table \<times> RecoveryDb" where
  "redeem hmac owners reachable hops forwarded uuid now body st =
     (case redeem_start hmac owners reachable hops forwarded now body st of
        (Inl answer, limits') \<Rightarrow> (answer, limits', snd st)
      | (Inr r, limits') \<Rightarrow> (HandedOut (rd_match r), limits', redeem_write hops forwarded uuid now r (snd st)))"

text \<open>A body that is not JSON is \<^const>\<open>None\<close>; reading the action of a \<open>null\<close> body throws.\<close>

definition recovery_POST ::
  "(byte list \<Rightarrow> byte list) \<Rightarrow> (string \<Rightarrow> ident list) \<Rightarrow> bool \<Rightarrow> nat \<Rightarrow> string option \<Rightarrow> ident \<Rightarrow> ident \<Rightarrow> millis \<Rightarrow> ident option
     \<Rightarrow> json option \<Rightarrow> limit_table \<times> RecoveryDb \<Rightarrow> RecoveryAnswer \<times> limit_table \<times> RecoveryDb" where
  "recovery_POST hmac owners reachable hops forwarded uuid uuid' now user body st =
     (case body of
        None \<Rightarrow> (RecoveryRefused 400, st)
      | Some b \<Rightarrow>
          if b = JNull then (RecoveryRefused 500, st)
          else if json_field b ''action'' = JStr ''redeem'' then redeem hmac owners reachable hops forwarded uuid now b st
          else if json_field b ''action'' = JStr ''enrol''
            then let (answer, db') = enrol hops forwarded uuid uuid' now user b (snd st) in (answer, fst st, db')
          else (RecoveryRefused 400, st))"

definition recovery_DELETE :: "nat \<Rightarrow> string option \<Rightarrow> ident \<Rightarrow> millis \<Rightarrow> ident option \<Rightarrow> RecoveryDb \<Rightarrow> RecoveryAnswer \<times> RecoveryDb" where
  "recovery_DELETE hops forwarded uuid now user db =
     (case user of
        None \<Rightarrow> (RecoveryRefused 401, db)
      | Some u \<Rightarrow>
          if map_of (blobs db) u = None then (Removed False, db)
          else (Removed True,
                \<lparr>blobs = AList.delete u (blobs db),
                 recovery_log = recovery_log db @ [recovery_event hops forwarded uuid now u ''recovery.disabled'' []]\<rparr>))"

section \<open>What the browser sends\<close>

definition enrol_body :: "RecoveryEnvelope list \<Rightarrow> json" where
  "enrol_body envelopes = JObj [(''action'', JStr ''enrol''), (''envelopes'', JArr (map envelope_json envelopes))]"

definition redeem_body :: "string \<Rightarrow> string \<Rightarrow> json" where
  "redeem_body email codeId = JObj [(''action'', JStr ''redeem''), (''email'', JStr email), (''codeId'', JStr codeId)]"

definition redeem_reply :: "RecoveryAnswer \<Rightarrow> RedeemReply" where
  "redeem_reply a =
     (case a of
        HandedOut e \<Rightarrow> Handed e
      | RecoveryLimited r \<Rightarrow> RedeemStatus (nat (rf_status r))
      | RecoveryRefused s \<Rightarrow> RedeemStatus s
      | _ \<Rightarrow> NoReplyAtAll)"

section \<open>Requests one after another, and redemptions between their two statements\<close>

text \<open>
  The state is the limiter, the table and the redemptions that have read the row and not yet written it. A redemption
  is answered when it writes.
\<close>

type_synonym recovery_state = "limit_table \<times> RecoveryDb \<times> Redemption list"

inductive recovery_step ::
  "(byte list \<Rightarrow> byte list) \<Rightarrow> (string \<Rightarrow> ident list) \<Rightarrow> recovery_state \<Rightarrow> RecoveryAnswer option \<Rightarrow> recovery_state \<Rightarrow> bool"
  for hmac :: "byte list \<Rightarrow> byte list" and owners :: "string \<Rightarrow> ident list" where
  enrols: "enrol hops forwarded uuid uuid' now user body db = (a, db') \<Longrightarrow> uuid \<notin> (\<lambda>p. rb_id (snd p)) ` set (blobs db) \<Longrightarrow>
    recovery_step hmac owners (limits, db, pending_reads) (Some a) (limits, db', pending_reads)"
| removes: "recovery_DELETE hops forwarded uuid now user db = (a, db') \<Longrightarrow>
    recovery_step hmac owners (limits, db, pending_reads) (Some a) (limits, db', pending_reads)"
| answers: "redeem_start hmac owners reachable hops forwarded now body (limits, db) = (Inl a, limits') \<Longrightarrow>
    recovery_step hmac owners (limits, db, pending_reads) (Some a) (limits', db, pending_reads)"
| reads: "redeem_start hmac owners reachable hops forwarded now body (limits, db) = (Inr r, limits') \<Longrightarrow>
    recovery_step hmac owners (limits, db, pending_reads) None (limits', db, r # pending_reads)"
| writes: "r \<in> set pending_reads \<Longrightarrow>
    recovery_step hmac owners (limits, db, pending_reads) (Some (HandedOut (rd_match r))) (limits, redeem_write hops forwarded uuid now r db, remove1 r pending_reads)"

end
