(* ===== verification/Recovery_Safety.thy ===== *)
theory Recovery_Safety
  imports Recovery_Facts Recovery_Server
begin

text \<open>
  What the recovery codes promise: a code in any spelling gives back the secrets it was enrolled with, every envelope
  that leaves the server has the one shape, and a code redeemed in one piece opens nothing afterwards. Where two
  redemptions or an enrolment meet between a redemption's two statements, the last two promises of the code do not hold.
\<close>

section \<open>Shapes\<close>

lemma exact_b64_toB64: "length bs = n \<Longrightarrow> exact_b64 n (JStr (toB64 bs))"
  by (simp add: exact_b64_def)

lemma length_decoy_loop:
  assumes "\<And>m. hmac m \<noteq> []" "length out \<le> n" "n - length out \<le> fuel"
  shows "length (decoy_loop hmac label n fuel counter out) = n"
  using assms(2,3)
proof (induction fuel arbitrary: counter out)
  case (Suc fuel)
  show ?case
  proof (cases "length out < n")
    case True
    define block where "block = hmac (utf8 (''weirdvault/recovery/decoy/v1:'' @ label @ '':'' @ show_nat counter))"
    have "block \<noteq> []"
      unfolding block_def by (rule assms(1))
    then have "0 < length (take (n - length out) block)" "length (take (n - length out) block) \<le> n - length out"
      using True by simp_all
    then have "length (out @ take (n - length out) block) \<le> n" "n - length (out @ take (n - length out) block) \<le> fuel"
      using True Suc.prems unfolding length_append by arith+
    from Suc.IH [OF this] True show ?thesis
      unfolding block_def by simp
  qed (use Suc.prems in simp)
qed simp

lemma length_decoyBytes: "(\<And>m. hmac m \<noteq> []) \<Longrightarrow> length (decoyBytes hmac label n) = n"
  by (simp add: decoyBytes_def length_decoy_loop)

lemma envelope_json_fields [simp]:
  "json_field (envelope_json e) ''id'' = JStr (re_id e)"
  "json_field (envelope_json e) ''salt'' = JStr (re_salt e)"
  "json_field (envelope_json e) ''iv'' = JStr (re_iv e)"
  "json_field (envelope_json e) ''ciphertext'' = JStr (re_ciphertext e)"
  by (simp_all add: envelope_json_def)

lemma envelope_of_json [simp]: "envelope_of (envelope_json e) = e"
  by (simp add: envelope_of_def)

lemma decoy_shape:
  "(\<And>m. hmac m \<noteq> []) \<Longrightarrow> is_code_id c \<Longrightarrow> isStoredEnvelope (envelope_json (decoyEnvelope hmac email c))"
  by (simp add: isStoredEnvelope_def) (simp add: decoyEnvelope_def Let_def exact_b64_toB64 length_decoyBytes)

lemma stored_of_json: "isStoredEnvelope v \<Longrightarrow> isStoredEnvelope (envelope_json (envelope_of v))"
  by (auto simp: isStoredEnvelope_def envelope_of_def exact_b64_def split: json.splits)

lemma idMatches_eq [simp]: "idMatches a b \<longleftrightarrow> a = b"
  by (auto simp: idMatches_def utf8_inject)

section \<open>What each operation changes\<close>

lemma find_blob_Some: "find_blob owners email db = Some (u, row) \<Longrightarrow> map_of (blobs db) u = Some row"
  by (auto simp: find_blob_def map_filter_def split: list.splits dest!: filter_eq_ConsD)

lemma redeem_read_Some:
  assumes "redeem_read owners email c db = Some r"
  obtains row where "map_of (blobs db) (rd_user r) = Some row" "rd_row r = rb_id row" "rd_match r \<in> set (rb_envelopes row)"
    "re_id (rd_match r) = c" "rd_remaining r = filter (\<lambda>e. re_id e \<noteq> c) (rb_envelopes row)"
  using assms by (auto simp: redeem_read_def find_Some_iff split: option.splits dest!: find_blob_Some intro: that)

lemma redeem_read_id: "redeem_read owners email c db = Some r \<Longrightarrow> re_id (rd_match r) = c"
  by (elim redeem_read_Some)

lemma redeem_start_Inr:
  assumes "redeem_start hmac owners reachable hops forwarded now body (limits, db) = (Inr r, limits')"
  obtains email where "redeem_read owners email (re_id (rd_match r)) db = Some r"
proof -
  have "\<exists>email c. redeem_read owners email c db = Some r"
    using assms by (auto simp: redeem_start_def Let_def split: option.splits if_splits json.splits prod.splits)
  then show ?thesis
    using redeem_read_id that by blast
qed

lemma redeem_start_Inl:
  assumes "redeem_start hmac owners reachable hops forwarded now body (limits, db) = (Inl (HandedOut e), limits')"
  obtains email where "e = decoyEnvelope hmac email (re_id e)"
  using assms
  by (auto simp: redeem_start_def Let_def decoyEnvelope_def split: option.splits if_splits json.splits prod.splits intro: that)

lemma map_of_redeem_write:
  "map_of (blobs (redeem_write hops forwarded uuid now r db)) u =
     map_option (\<lambda>row. if rb_id row = rd_row r
        then row\<lparr>rb_envelopes := rd_remaining r, rb_updatedAt := now, rb_lastUsedAt := Some now\<rparr> else row) (map_of (blobs db) u)"
  by (simp add: redeem_write_def map_of_map comp_def)

lemma rows_redeem_write:
  assumes "row \<in> snd ` set (blobs (redeem_write hops forwarded uuid now r db))"
  shows "rb_envelopes row = rd_remaining r \<or> (\<exists>row'\<in>snd ` set (blobs db). row = row')"
  using assms by (force simp: redeem_write_def split: if_splits)

lemma enrol_cases:
  assumes "enrol hops forwarded uuid uuid' now user body db = (a, db')"
  obtains (refused) s where "a = RecoveryRefused s" "db' = db"
  | (stored) u clean where "user = Some u" "a = CodesStored (length clean)" "blobs db' = upsert_blob uuid now u clean (blobs db)"
      "list_all (\<lambda>e. isStoredEnvelope (envelope_json e)) clean" "distinct (map re_id clean)"
proof (cases "\<exists>s. a = RecoveryRefused s \<and> db' = db")
  case False
  obtain u vs where u: "user = Some u" "list_all isStoredEnvelope vs" "distinct (map re_id (map envelope_of vs))"
      "a = CodesStored (length (map envelope_of vs))" "blobs db' = upsert_blob uuid now u (map envelope_of vs) (blobs db)"
    using assms False by (auto simp: enrol_def Let_def split: option.splits json.splits if_splits)
  from u(2) have "list_all (\<lambda>e. isStoredEnvelope (envelope_json e)) (map envelope_of vs)"
    by (auto simp: list_all_iff stored_of_json)
  with u show ?thesis
    using stored by blast
qed (use refused in blast)

lemma map_of_upsert_blob:
  "map_of (upsert_blob uuid now u clean rows) v =
     (if v = u then Some (case map_of rows u of
          None \<Rightarrow> \<lparr>rb_id = uuid, rb_envelopes = clean, rb_createdAt = now, rb_updatedAt = now, rb_lastUsedAt = None\<rparr>
        | Some row \<Rightarrow> row\<lparr>rb_envelopes := clean, rb_updatedAt := now, rb_lastUsedAt := None\<rparr>)
      else map_of rows v)"
  by (simp add: upsert_blob_def update_conv')

lemma recovery_DELETE_cases:
  assumes "recovery_DELETE hops forwarded uuid now user db = (a, db')"
  obtains (same) "db' = db" "\<And>e. a \<noteq> HandedOut e" | (removed) u where "user = Some u" "blobs db' = AList.delete u (blobs db)" "\<And>e. a \<noteq> HandedOut e"
  using assms by (auto simp: recovery_DELETE_def split: option.splits if_splits intro: that)

lemma set_delete_al: "set (AList.delete k al) \<subseteq> set al"
  by (simp add: AList.delete_eq)

section \<open>Every envelope has the one shape\<close>

definition shapes_ok :: "recovery_state \<Rightarrow> bool" where
  "shapes_ok = (\<lambda>(limits, db, pending_reads).
     (\<forall>row\<in>snd ` set (blobs db). list_all (\<lambda>e. isStoredEnvelope (envelope_json e)) (rb_envelopes row))
     \<and> (\<forall>r\<in>set pending_reads. list_all (\<lambda>e. isStoredEnvelope (envelope_json e)) (rd_match r # rd_remaining r)))"

definition recovery_trans ::
  "(byte list \<Rightarrow> byte list) \<Rightarrow> (string \<Rightarrow> ident list) \<Rightarrow> recovery_state \<Rightarrow> recovery_state \<Rightarrow> bool" where
  "recovery_trans hmac owners s s' \<longleftrightarrow> (\<exists>a. recovery_step hmac owners s a s')"

lemma shapes_row:
  "shapes_ok (limits, db, pending_reads) \<Longrightarrow> map_of (blobs db) u = Some row \<Longrightarrow> e \<in> set (rb_envelopes row) \<Longrightarrow> isStoredEnvelope (envelope_json e)"
  by (force simp: shapes_ok_def list_all_iff dest: map_of_SomeD)

lemma shapes_step: "recovery_step hmac owners s a s' \<Longrightarrow> shapes_ok s \<Longrightarrow> shapes_ok s'"
proof (induction rule: recovery_step.cases)
  case (enrols hops forwarded uuid uuid' now user body db a db' limits pending_reads)
  from enrols(4) show ?case
  proof (cases rule: enrol_cases)
    case (stored u clean)
    have "list_all (\<lambda>e. isStoredEnvelope (envelope_json e)) (rb_envelopes row)" if "row \<in> snd ` set (blobs db')" for row
    proof -
      from that consider "rb_envelopes row = clean" | "row \<in> snd ` set (blobs db)"
        unfolding stored(3) upsert_blob_def using set_update_subset by (fastforce split: option.splits)
      then show ?thesis
        using stored(4) enrols(1,6) by cases (auto simp: shapes_ok_def enrols(2))
    qed
    with enrols show ?thesis
      by (auto simp: shapes_ok_def)
  qed (use enrols in simp)
next
  case (removes hops forwarded uuid now user db a db' limits pending_reads)
  from removes(4) show ?case
    by (cases rule: recovery_DELETE_cases)
      (use removes set_delete_al in \<open>fastforce simp: shapes_ok_def\<close>)+
next
  case (reads reachable hops forwarded now body limits db r limits' pending_reads)
  obtain email where "redeem_read owners email (re_id (rd_match r)) db = Some r"
    using reads(4) by (rule redeem_start_Inr)
  then obtain row where row: "map_of (blobs db) (rd_user r) = Some row" "rd_match r \<in> set (rb_envelopes row)"
      "rd_remaining r = filter (\<lambda>e. re_id e \<noteq> re_id (rd_match r)) (rb_envelopes row)"
    by (rule redeem_read_Some)
  have "\<forall>e\<in>set (rb_envelopes row). isStoredEnvelope (envelope_json e)"
    using reads(1,5) row(1) shapes_row by blast
  then have "list_all (\<lambda>e. isStoredEnvelope (envelope_json e)) (rd_match r # rd_remaining r)"
    unfolding row(3) list_all_iff using row(2) by simp
  then show ?case
    using reads(1,3,5) by (simp add: shapes_ok_def)
next
  case (writes r pending_reads limits db hops forwarded uuid now)
  then have r: "list_all (\<lambda>e. isStoredEnvelope (envelope_json e)) (rd_match r # rd_remaining r)"
    by (simp add: shapes_ok_def)
  have "list_all (\<lambda>e. isStoredEnvelope (envelope_json e)) (rb_envelopes row)"
    if "row \<in> snd ` set (blobs (redeem_write hops forwarded uuid now r db))" for row
  proof (cases "rb_envelopes row = rd_remaining r")
    case False
    then have "row \<in> snd ` set (blobs db)"
      using rows_redeem_write [OF that] by blast
    then show ?thesis
      using writes(5) [unfolded writes(1) shapes_ok_def prod.case] by blast
  qed (use r in simp)
  moreover have "set (remove1 r pending_reads) \<subseteq> set pending_reads"
    by (rule set_remove1_subset)
  ultimately show ?case
    using writes(5) [unfolded writes(1) shapes_ok_def prod.case] unfolding writes(3) shapes_ok_def prod.case by blast
qed (auto simp: shapes_ok_def)

interpretation shapes: guarded_system "recovery_trans hmac owners" shapes_ok for hmac owners
  by unfold_locales (auto simp: recovery_trans_def intro: shapes_step)

section \<open>Requests in one piece\<close>

text \<open>Whole requests one after another; an enrolment by the account \<open>u\<close> is not among them.\<close>

definition enrols_account :: "ident \<Rightarrow> ident option \<Rightarrow> json option \<Rightarrow> bool" where
  "enrols_account u user body \<longleftrightarrow>
     user = Some u \<and> (case body of None \<Rightarrow> False | Some b \<Rightarrow> json_field b ''action'' = JStr ''enrol'')"

inductive quiet_request ::
  "(byte list \<Rightarrow> byte list) \<Rightarrow> (string \<Rightarrow> ident list) \<Rightarrow> ident option \<Rightarrow> limit_table \<times> RecoveryDb \<Rightarrow> limit_table \<times> RecoveryDb \<Rightarrow> bool"
  for hmac :: "byte list \<Rightarrow> byte list" and owners :: "string \<Rightarrow> ident list" and quiet :: "ident option" where
  posted: "\<not> (case quiet of None \<Rightarrow> False | Some u \<Rightarrow> enrols_account u user body) \<Longrightarrow> uuid \<notin> (\<lambda>p. rb_id (snd p)) ` set (blobs (snd st)) \<Longrightarrow>
    recovery_POST hmac owners reachable hops forwarded uuid uuid' now user body st = (a, st') \<Longrightarrow> quiet_request hmac owners quiet st st'"
| deleted: "recovery_DELETE hops forwarded uuid now user db = (a, db') \<Longrightarrow> quiet_request hmac owners quiet (limits, db) (limits, db')"

definition blobs_ok :: "limit_table \<times> RecoveryDb \<Rightarrow> bool" where
  "blobs_ok = (\<lambda>(limits, db). distinct (map fst (blobs db)) \<and> distinct (map (\<lambda>p. rb_id (snd p)) (blobs db)))"

definition holds_code :: "ident \<Rightarrow> string \<Rightarrow> RecoveryDb \<Rightarrow> bool" where
  "holds_code u c db \<longleftrightarrow> (case map_of (blobs db) u of None \<Rightarrow> False | Some row \<Rightarrow> c \<in> re_id ` set (rb_envelopes row))"

lemma recovery_POST_cases:
  assumes "recovery_POST hmac owners reachable hops forwarded uuid uuid' now user body (limits, db) = (a, limits', db')"
  obtains (same) "db' = db"
  | (enrolled) b where "body = Some b" "json_field b ''action'' = JStr ''enrol''" "enrol hops forwarded uuid uuid' now user b db = (a, db')"
  | (redeemed) r email c where "redeem_read owners email c db = Some r" "db' = redeem_write hops forwarded uuid now r db"
proof (cases "db' = db")
  case False
  then obtain b where b: "body = Some b" "b \<noteq> JNull"
    using assms by (auto simp: recovery_POST_def split: option.splits if_splits)
  show ?thesis
  proof (cases "json_field b ''action'' = JStr ''redeem''")
    case True
    then obtain r where "redeem_start hmac owners reachable hops forwarded now b (limits, db) = (Inr r, limits')"
        "db' = redeem_write hops forwarded uuid now r db"
      using assms b False by (auto simp: recovery_POST_def redeem_def split: prod.splits sum.splits)
    then show ?thesis
      using redeemed redeem_start_Inr by metis
  next
    case no: False
    then have "json_field b ''action'' = JStr ''enrol''" "enrol hops forwarded uuid uuid' now user b db = (a, db')"
      using assms b False by (auto simp: recovery_POST_def split: prod.splits if_splits)
    with b(1) show ?thesis
      by (rule enrolled)
  qed
qed (use same in blast)

lemma keys_upsert: "map fst (upsert_blob uuid now u clean rows) = (if u \<in> set (map fst rows) then map fst rows else map fst rows @ [u])"
  by (simp add: upsert_blob_def update_keys)

lemma ids_upsert:
  assumes "distinct (map fst rows)" "distinct (map (\<lambda>p. rb_id (snd p)) rows)" "uuid \<notin> (\<lambda>p. rb_id (snd p)) ` set rows"
  shows "distinct (map (\<lambda>p. rb_id (snd p)) (upsert_blob uuid now u clean rows))"
proof (cases "map_of rows u")
  case None
  then have "u \<notin> fst ` set rows"
    by (simp add: map_of_eq_None_iff)
  then show ?thesis
    using assms(2,3) None by (simp add: upsert_blob_def update_fresh)
next
  case (Some row)
  have "map (\<lambda>p. rb_id (snd p)) (AList.update u (row\<lparr>rb_envelopes := clean, rb_updatedAt := now, rb_lastUsedAt := None\<rparr>) rows)
      = map (\<lambda>p. rb_id (snd p)) rows"
    using Some assms(1) by (induction rows) (auto split: if_splits)
  then show ?thesis
    using Some assms(2) by (simp add: upsert_blob_def)
qed

lemma blobs_ok_redeem_write:
  "map fst (blobs (redeem_write hops forwarded uuid now r db)) = map fst (blobs db)"
  "map (\<lambda>p. rb_id (snd p)) (blobs (redeem_write hops forwarded uuid now r db)) = map (\<lambda>p. rb_id (snd p)) (blobs db)"
  by (auto simp: redeem_write_def)

lemma quiet_request_blobs: "quiet_request hmac owners q st st' \<Longrightarrow> blobs_ok st \<Longrightarrow> blobs_ok st'"
proof (induction rule: quiet_request.cases)
  case (posted user body uuid st reachable hops forwarded uuid' now a st')
  obtain limits db limits' db' where st: "st = (limits, db)" "st' = (limits', db')"
    by (cases st, cases st')
  from posted(5) show ?case
    unfolding st
  proof (cases rule: recovery_POST_cases)
    case (enrolled b)
    from enrolled(3) show ?thesis
      by (cases rule: enrol_cases)
        (use posted st in \<open>auto simp: blobs_ok_def keys_upsert ids_upsert\<close>)
  qed (use posted st in \<open>simp_all add: blobs_ok_def blobs_ok_redeem_write\<close>)
next
  case (deleted hops forwarded uuid now user db a db' limits)
  from deleted(3) show ?case
    by (cases rule: recovery_DELETE_cases)
      (use deleted in \<open>simp_all add: blobs_ok_def AList.delete_eq\<close>)
qed


lemma holds_after_write:
  assumes "blobs_ok (limits, db)" "redeem_read owners email c' db = Some r" "\<not> holds_code u c db"
  shows "\<not> holds_code u c (redeem_write hops forwarded uuid now r db)"
proof -
  obtain row where row: "map_of (blobs db) (rd_user r) = Some row" "rd_row r = rb_id row"
      "rd_remaining r = filter (\<lambda>e. re_id e \<noteq> c') (rb_envelopes row)"
    using assms(2) by (rule redeem_read_Some)
  have "rd_user r = u" if "map_of (blobs db) u = Some row'" "rb_id row' = rb_id row" for row'
    using assms(1) inj_onD [of "\<lambda>p. rb_id (snd p)" "set (blobs db)" "(rd_user r, row)" "(u, row')"] map_of_SomeD [OF row(1)] map_of_SomeD [OF that(1)] that(2)
    by (simp add: blobs_ok_def distinct_map)
  then show ?thesis
    using assms(3) row by (auto simp: holds_code_def map_of_redeem_write split: option.splits)
qed

lemma quiet_request_spent:
  assumes "quiet_request hmac owners (Some u) st st'" "blobs_ok st" "\<not> holds_code u c (snd st)"
  shows "\<not> holds_code u c (snd st')"
  using assms
proof (induction rule: quiet_request.cases)
  case (posted user body uuid st reachable hops forwarded uuid' now a st')
  obtain limits db limits' db' where st: "st = (limits, db)" "st' = (limits', db')"
    by (cases st, cases st')
  from posted(5) show ?case
    unfolding st
  proof (cases rule: recovery_POST_cases)
    case (enrolled b)
    from enrolled(3) show ?thesis
      by (cases rule: enrol_cases)
        (use posted enrolled(1,2) st in \<open>auto simp: holds_code_def map_of_upsert_blob enrols_account_def\<close>)
  next
    case (redeemed r email c')
    then show ?thesis
      using posted st by (auto dest: holds_after_write)
  qed (use posted st in simp)
next
  case (deleted hops forwarded uuid now user db a db' limits)
  from deleted(3) show ?case
    by (cases rule: recovery_DELETE_cases)
      (use deleted in \<open>auto simp: holds_code_def delete_conv' split: option.splits\<close>)
qed

lemma redeem_write_spends:
  "redeem_read owners email c db = Some r \<Longrightarrow> \<not> holds_code (rd_user r) c (redeem_write hops forwarded uuid now r db)"
  by (erule redeem_read_Some) (auto simp: holds_code_def map_of_redeem_write)

lemma spent_not_read:
  "\<not> holds_code u c db \<Longrightarrow> redeem_read owners email c db = Some r \<Longrightarrow> rd_user r \<noteq> u"
  by (erule redeem_read_Some) (auto simp: holds_code_def)

interpretation tables: guarded_system "quiet_request hmac owners q" blobs_ok for hmac owners q
  by unfold_locales (rule quiet_request_blobs)

interpretation spent: guarded_system "quiet_request hmac owners (Some u)" "\<lambda>st. blobs_ok st \<and> \<not> holds_code u c (snd st)" for hmac owners u c
  by unfold_locales (use quiet_request_blobs quiet_request_spent in blast)

definition no_blobs :: RecoveryDb where
  "no_blobs = \<lparr>blobs = [], recovery_log = []\<rparr>"

section \<open>Enrolling and redeeming\<close>

lemma code_char_of: "n < 256 \<Longrightarrow> code (char_of n) = n"
  by (simp add: of_char_of take_bit_nat_eq_self)

lemma code_lower_char:
  "code (lower_char c) = (let n = code c in if 65 \<le> n \<and> n \<le> 90 \<or> 192 \<le> n \<and> n \<le> 222 \<and> n \<noteq> 215 then n + 32 else n)"
proof -
  have "code (char_of (code c + 32)) = code c + 32" if "code c \<le> 222"
    using that by (intro code_char_of) simp
  then show ?thesis
    by (auto simp: lower_char_def Let_def)
qed

lemma lower_char_idem [simp]: "lower_char (lower_char c) = lower_char c" "is_space (lower_char c) = is_space c"
proof -
  have "code (lower_char (lower_char c)) = code (lower_char c)"
    unfolding code_lower_char Let_def by auto
  then show "lower_char (lower_char c) = lower_char c"
    by (metis char_of_char)
  show "is_space (lower_char c) = is_space c"
    unfolding is_space_def code_lower_char Let_def by auto
qed

lemma trim_lower: "js_trim (toLowerCase s) = toLowerCase (js_trim s)"
  by (simp add: js_trim_def toLowerCase_def dropWhile_map rev_map comp_def)

lemma trim_trim: "js_trim (js_trim s) = js_trim s"
proof (cases "js_trim s")
  case (Cons c cs)
  let ?d = "dropWhile is_space s"
  have parts: "?d = js_trim s @ rev (takeWhile is_space (rev ?d))"
    unfolding js_trim_def by (metis rev_append rev_rev_ident takeWhile_dropWhile_id)
  then have "hd ?d = hd (js_trim s @ rev (takeWhile is_space (rev ?d)))"
    by (rule arg_cong)
  moreover have "?d \<noteq> []"
    using parts unfolding Cons by (metis append_Cons list.distinct(1))
  ultimately have "dropWhile is_space (js_trim s) = js_trim s"
    using hd_dropWhile [of is_space s] unfolding Cons by simp
  then show ?thesis
    unfolding js_trim_def [of "js_trim s"] by (simp add: js_trim_def dropWhile_idem)
qed (simp add: js_trim_def [of "[]"])

lemma email_normal: "toLowerCase (js_trim (toLowerCase (js_trim email))) = toLowerCase (js_trim email)"
  unfolding trim_lower trim_trim by (simp add: toLowerCase_def)

lemma hex_digit_class: "n < 16 \<Longrightarrow> is_digit (hex_digit n) \<or> 97 \<le> code (hex_digit n) \<and> code (hex_digit n) \<le> 102"
  by (auto simp: hex_digit_def is_digit_def code_char_of)

lemma hex_text_code_id: "length bs = 16 \<Longrightarrow> is_code_id (hex_text bs)"
proof -
  have "list_all (\<lambda>c. is_digit c \<or> 97 \<le> code c \<and> code c \<le> 102) (hex_text bs)" for bs
  proof (induction bs)
    case (Cons b bs)
    have "unat b div 16 < 16" "unat b mod 16 < 16"
      using byte_less [of b] by simp_all
    then show ?case
      using Cons hex_digit_class by (simp add: hex_text_def)
  qed (simp add: hex_text_def)
  moreover have "length (hex_text bs) = 2 * length bs" for bs
    by (induction bs) (simp_all add: hex_text_def)
  ultimately show "length bs = 16 \<Longrightarrow> is_code_id (hex_text bs)"
    by (simp add: is_code_id_def ID_HEX_CHARS_def)
qed

lemma codeId_shape: "key_tree_ok kt \<Longrightarrow> is_code_id (recoveryCodeId kt c)"
  by (simp add: recoveryCodeId_def hex_text_code_id key_tree_ok_def ID_BYTES_def)

definition argon_ok :: "'k key_tree \<Rightarrow> bool" where
  "argon_ok kt \<longleftrightarrow> (\<forall>params p salt. p \<noteq> [] \<longrightarrow> argon2id kt params p salt \<noteq> None)"

definition draw_ok :: "Draw \<Rightarrow> bool" where
  "draw_ok d \<longleftrightarrow> length (dw_code d) = CODE_BYTES \<and> length (dw_salt d) = 16 \<and> length (dw_iv d) = 12"

lemma normalise_newCode: "length bs = CODE_BYTES \<Longrightarrow> spells s (newCode bs) \<Longrightarrow> normaliseRecoveryCode s = newCode bs"
  by (simp add: newCode_shape normalise_spelling)

lemma code_key:
  assumes "argon_ok kt" "length bs = CODE_BYTES"
  obtains key where "\<forall>s. spells s (newCode bs) \<longrightarrow> wrappingKeyFor kt s salt = Some key"
proof -
  have "newCode bs \<noteq> []"
    using newCode_shape [OF assms(2)] by (auto simp: CODE_CHARS_def)
  with assms(1) obtain b where "argon2id kt RECOVERY_ARGON2_PARAMS (newCode bs) salt = Some b"
    unfolding argon_ok_def by blast
  with assms(2) show ?thesis
    by (auto simp: wrappingKeyFor_def normalise_newCode intro: that)
qed

lemma seal_code_opens:
  assumes "platform_ok pf" "gcm_tag_ok pf" "key_tree_ok kt" "argon_ok kt" "draw_ok d" "length payload = PAYLOAD_BYTES"
  obtains e where "seal_code pf kt payload d = Inr (newCode (dw_code d), e)" "re_id e = recoveryCodeId kt (newCode (dw_code d))"
    "isStoredEnvelope (envelope_json e)"
    "\<And>s post raw. spells s (newCode (dw_code d)) \<Longrightarrow> unpackPayload payload = Some raw \<Longrightarrow>
       post (toLowerCase (js_trim email)) (re_id e) = Handed e \<Longrightarrow>
       redeemRecoveryCode pf kt post email s = Inr (importRawSecretBytes kt raw)"
proof -
  have bs: "length (dw_code d) = CODE_BYTES" "length (dw_salt d) = 16" "length (dw_iv d) = 12"
    using assms(5) by (simp_all add: draw_ok_def)
  obtain key where key: "\<forall>s. spells s (newCode (dw_code d)) \<longrightarrow> wrappingKeyFor kt s (dw_salt d) = Some key"
    using code_key [OF assms(4) bs(1), where salt = "dw_salt d"] .
  define ct where "ct = aes_encrypt pf key (dw_iv d) payload"
  have ct: "length ct = CIPHERTEXT_BYTES" "aes_decrypt pf key (dw_iv d) ct = Some payload"
    using assms(1,2,6) by (simp_all add: ct_def platform_ok_def gcm_tag_ok_def CIPHERTEXT_BYTES_def)
  define e where "e = \<lparr>re_id = recoveryCodeId kt (newCode (dw_code d)), re_salt = toB64 (dw_salt d), re_iv = toB64 (dw_iv d),
      re_ciphertext = toB64 ct\<rparr>"
  show ?thesis
  proof (rule that [of e])
    show "seal_code pf kt payload d = Inr (newCode (dw_code d), e)"
      using key spells_refl ct(1) by (simp add: seal_code_def e_def ct_def Let_def)
    show "isStoredEnvelope (envelope_json e)"
      using ct(1) bs codeId_shape [OF assms(3)]
      by (simp add: isStoredEnvelope_def) (simp add: e_def exact_b64_toB64 SALT_BYTES_def IV_BYTES_def
          ROUTE_CIPHERTEXT_BYTES_def CIPHERTEXT_BYTES_def PAYLOAD_BYTES_def SECRET_BRANCH_BYTES_def)
    fix s post raw
    assume s: "spells s (newCode (dw_code d))" and "unpackPayload payload = Some raw"
      and "post (toLowerCase (js_trim email)) (re_id e) = Handed e"
    moreover have "recoveryCodeId kt s = re_id e"
      using normalise_newCode [OF bs(1) s] normalise_newCode [OF bs(1) spells_refl] by (simp add: recoveryCodeId_def e_def)
    ultimately show "redeemRecoveryCode pf kt post email s = Inr (importRawSecretBytes kt raw)"
      using key s ct(2) by (simp add: redeemRecoveryCode_def) (simp add: e_def)
  qed (simp add: e_def)
qed

lemma seal_codes_map:
  "(\<And>d. d \<in> set ds \<Longrightarrow> seal_code pf kt payload d = Inr (f d)) \<Longrightarrow> seal_codes pf kt payload ds = Inr (map f ds)"
  by (induction ds) simp_all

lemma enrol_body_action [simp]: "json_field (enrol_body es) ''action'' = JStr ''enrol''" "enrol_body es \<noteq> JNull"
  by (simp_all add: enrol_body_def)

lemma enrol_stores:
  assumes "list_all (\<lambda>e. isStoredEnvelope (envelope_json e)) es" "distinct (map re_id es)" "1 \<le> length es" "length es \<le> 32"
  shows "fst (enrol hops forwarded uuid uuid' now (Some u) (enrol_body es) db) = CodesStored (length es)"
    and "blobs (snd (enrol hops forwarded uuid uuid' now (Some u) (enrol_body es) db)) = upsert_blob uuid now u es (blobs db)"
proof -
  have "es \<noteq> []"
    using assms(3) by auto
  with assms show "fst (enrol hops forwarded uuid uuid' now (Some u) (enrol_body es) db) = CodesStored (length es)"
    "blobs (snd (enrol hops forwarded uuid uuid' now (Some u) (enrol_body es) db)) = upsert_blob uuid now u es (blobs db)"
    by (simp_all add: enrol_def enrol_body_def list_all_iff MIN_ENVELOPES_def MAX_ENVELOPES_def Let_def comp_def)
qed

lemma find_distinct: "distinct (map f xs) \<Longrightarrow> x \<in> set xs \<Longrightarrow> find (\<lambda>y. f y = f x) xs = Some x"
  by (induction xs) force+

lemma redeem_hands_out:
  assumes "map_of (blobs db) u = Some row" "distinct (map re_id (rb_envelopes row))" "e \<in> set (rb_envelopes row)" "is_code_id (re_id e)"
    and "owners (toLowerCase (js_trim email)) = [u]"
    and "enforce reachable hops forwarded ''recovery-redeem'' REDEEM_LIMIT None
      (Some ''Too many recovery attempts. Wait ten minutes and try again.'') now limits = (None, limits')"
  shows "fst (redeem hmac owners reachable hops forwarded uuid now (redeem_body (toLowerCase (js_trim email)) (re_id e)) (limits, db)) = HandedOut e"
proof -
  have "find_blob owners (toLowerCase (js_trim email)) db = Some (u, row)"
    using assms(1,5) by (simp add: find_blob_def map_filter_simps)
  with assms find_distinct [OF assms(2,3)] show ?thesis
    by (simp add: redeem_def redeem_start_def redeem_body_def email_normal redeem_read_def Let_def)
qed

section \<open>Properties\<close>



text \<open>
  C33. A redemption that has read the old set and writes after its owner enrolled a new one puts the old set back, the
  redeemed code apart: the codes the owner was just shown open nothing, and those believed retired do.\<close>

theorem redeem_race_undoes_enrolment:
  assumes read: "recovery_step hmac owners (limits, db, pending_reads) None (limits', db, r # pending_reads)"
    and enrolled: "enrol hops forwarded uuid uuid' now (Some (rd_user r)) body db = (CodesStored n, db1)"
  shows "\<exists>db2. recovery_step hmac owners (limits', db1, r # pending_reads) (Some (HandedOut (rd_match r))) (limits', db2, pending_reads)
    \<and> (case (map_of (blobs db) (rd_user r), map_of (blobs db2) (rd_user r)) of
          (Some old, Some new) \<Rightarrow> rb_envelopes new = filter (\<lambda>e. re_id e \<noteq> re_id (rd_match r)) (rb_envelopes old)
        | _ \<Rightarrow> False)"
proof -
  obtain email where "redeem_read owners email (re_id (rd_match r)) db = Some r"
    using read by (cases rule: recovery_step.cases) (auto elim: redeem_start_Inr)
  then obtain row where row: "map_of (blobs db) (rd_user r) = Some row" "rd_row r = rb_id row"
      "rd_remaining r = filter (\<lambda>e. re_id e \<noteq> re_id (rd_match r)) (rb_envelopes row)"
    by (rule redeem_read_Some)
  obtain clean where "blobs db1 = upsert_blob uuid now (rd_user r) clean (blobs db)"
    using enrolled by (cases rule: enrol_cases) auto
  then have "map_of (blobs (redeem_write hops forwarded uuid now r db1)) (rd_user r)
      = Some (row\<lparr>rb_envelopes := rd_remaining r, rb_updatedAt := now, rb_lastUsedAt := Some now\<rparr>)"
    by (simp add: map_of_redeem_write map_of_upsert_blob row)
  moreover have "recovery_step hmac owners (limits', db1, r # pending_reads) (Some (HandedOut (rd_match r)))
      (limits', redeem_write hops forwarded uuid now r db1, remove1 r (r # pending_reads))"
    by (rule recovery_step.writes) simp
  ultimately show ?thesis
    using row by (intro exI [of _ "redeem_write hops forwarded uuid now r db1"]) simp
qed

text \<open>
  Two redemptions of one code that both read before either writes are both handed its envelope.\<close>

theorem redeem_race_serves_twice:
  assumes first: "recovery_step hmac owners (limits, db, []) None (limits1, db, [r])"
    and second: "recovery_step hmac owners (limits1, db, [r]) None (limits2, db, [r, r])"
  shows "\<exists>db1 db2. recovery_step hmac owners (limits2, db, [r, r]) (Some (HandedOut (rd_match r))) (limits2, db1, [r])
    \<and> recovery_step hmac owners (limits2, db1, [r]) (Some (HandedOut (rd_match r))) (limits2, db2, [])
    \<and> \<not> holds_code (rd_user r) (re_id (rd_match r)) db1"
proof -
  fix hops forwarded uuid now
  obtain email where read: "redeem_read owners email (re_id (rd_match r)) db = Some r"
    using first by (cases rule: recovery_step.cases) (auto elim: redeem_start_Inr)
  let ?w = "redeem_write hops forwarded uuid now r"
  have "recovery_step hmac owners (limits2, db, [r, r]) (Some (HandedOut (rd_match r))) (limits2, ?w db, remove1 r [r, r])"
    "recovery_step hmac owners (limits2, ?w db, [r]) (Some (HandedOut (rd_match r))) (limits2, ?w (?w db), remove1 r [r])"
    by (rule recovery_step.writes, simp)+
  then show ?thesis
    using redeem_write_spends [OF read] by (intro exI [of _ "?w db"] exI [of _ "?w (?w db)"]) simp
qed




section \<open>Examples\<close>

definition example_tree :: "byte key_tree" where
  "example_tree =
     \<lparr>argon2id = (\<lambda>params p salt. if p = [] then None else Some (utf8 p)),
      sha256_of = (\<lambda>b. take 32 (rev b @ replicate 32 0)),
      hkdf_bits = (\<lambda>m info n. replicate (n div 8) (foldl (+) 0 (m @ info))),
      import_key = (\<lambda>b. foldl (+) 0 (take 1 b))\<rparr>"

lemma example_tree_ok: "key_tree_ok example_tree" "argon_ok example_tree"
  by (auto simp: key_tree_ok_def argon_ok_def example_tree_def min_def)

definition example_draws :: "nat \<Rightarrow> Draw" where
  "example_draws i = \<lparr>dw_code = replicate 14 0 @ [of_nat i], dw_salt = replicate 16 1, dw_iv = replicate 12 2\<rparr>"

lemma example_draws_ok: "draw_ok (example_draws i)"
  by (simp add: draw_ok_def example_draws_def CODE_BYTES_def)

lemma example_codes:
  "map (\<lambda>i. newCode (replicate 14 0 @ [of_nat i])) [0..<10] = map (\<lambda>c. replicate 23 (CHR ''0'') @ [c]) ''0123456789''"
  by code_simp

lemma example_code_ids:
  "distinct (map (\<lambda>c. hex_text (take ID_BYTES (take 32 (rev (utf8 (ID_INFO @ normaliseRecoveryCode (replicate 23 (CHR ''0'') @ [c]))) @ replicate 32 0))))
     ''0123456789'')"
  by code_simp

lemma example_ids: "distinct (map (\<lambda>i. recoveryCodeId example_tree (newCode (dw_code (example_draws i)))) [0..<RECOVERY_CODE_COUNT])"
proof -
  have "map (\<lambda>i. recoveryCodeId example_tree (newCode (dw_code (example_draws i)))) [0..<RECOVERY_CODE_COUNT]
      = map (recoveryCodeId example_tree) (map (\<lambda>i. newCode (replicate 14 0 @ [of_nat i])) [0..<10])"
    by (simp only: example_draws_def RECOVERY_CODE_COUNT_def map_map comp_def Draw.simps)
  also have "distinct \<dots>"
    using example_code_ids unfolding example_codes
    by (simp only: map_map comp_def recoveryCodeId_def example_tree_def key_tree.simps)
  finally show ?thesis .
qed

lemma enforce_unreachable: "enforce False hops forwarded bucket rule user message now t = (None, t)"
  by (simp add: enforce_def consume_def ALLOWED_def)


definition example_id :: string where
  "example_id = replicate 32 CHR ''0''"

definition example_envelope :: RecoveryEnvelope where
  "example_envelope = decoyEnvelope (\<lambda>_. [7]) ''a@b'' example_id"

lemma example_id_ok: "is_code_id example_id" "isStoredEnvelope (envelope_json example_envelope)" "re_id example_envelope = example_id"
proof -
  show i: "is_code_id example_id"
    by code_simp
  show "isStoredEnvelope (envelope_json example_envelope)"
    unfolding example_envelope_def by (rule decoy_shape) (use i in simp_all)
  show "re_id example_envelope = example_id"
    by (simp add: example_envelope_def decoyEnvelope_def Let_def)
qed


definition example_blobs :: RecoveryDb where
  "example_blobs = snd (enrol 0 None ''b'' ''l'' 5 (Some ''u'') (enrol_body [example_envelope]) no_blobs)"

definition example_redemption :: Redemption where
  "example_redemption = \<lparr>rd_user = ''u'', rd_row = ''b'', rd_match = example_envelope, rd_remaining = []\<rparr>"

lemma example_enrolment:
  "fst (enrol hops forwarded uuid uuid' now (Some ''u'') (enrol_body [example_envelope]) db) = CodesStored 1"
  using enrol_stores(1) [of "[example_envelope]" hops forwarded uuid uuid' now "''u''" db] example_id_ok by simp

lemma example_row: "map_of (blobs example_blobs) ''u'' = Some \<lparr>rb_id = ''b'', rb_envelopes = [example_envelope], rb_createdAt = 5,
    rb_updatedAt = 5, rb_lastUsedAt = None\<rparr>"
  using enrol_stores(2) [of "[example_envelope]" 0 None "''b''" "''l''" 5 "''u''" no_blobs] example_id_ok
  by (simp add: example_blobs_def map_of_upsert_blob) (simp add: no_blobs_def)

lemma example_read:
  "redeem_start (\<lambda>_. [7]) (\<lambda>_. [''u'']) False 0 None 6 (redeem_body ''a@b'' example_id) (limits, example_blobs) = (Inr example_redemption, limits)"
  by (simp add: redeem_start_def enforce_unreachable redeem_body_def example_id_ok redeem_read_def find_blob_def example_row
      map_filter_simps example_redemption_def Let_def)


lemma example_read_step:
  "recovery_step (\<lambda>_. [7]) (\<lambda>_. [''u'']) (Map.empty, example_blobs, rs) None (Map.empty, example_blobs, example_redemption # rs)"
  by (rule recovery_step.reads [OF example_read])

theorem redeem_race_undoes_enrolment_witness:
  "\<exists>db2. recovery_step (\<lambda>_. [7]) (\<lambda>_. [''u''])
       (Map.empty, snd (enrol 0 None ''b2'' ''l3'' 7 (Some ''u'') (enrol_body [example_envelope]) example_blobs), [example_redemption])
       (Some (HandedOut example_envelope)) (Map.empty, db2, [])"
  using redeem_race_undoes_enrolment [OF example_read_step, of 0 None "''b2''" "''l3''" 7 "enrol_body [example_envelope]" 1]
    example_enrolment [of 0 None "''b2''" "''l3''" 7 example_blobs]
  by (auto simp: example_redemption_def prod_eq_iff)

theorem redeem_race_serves_twice_witness:
  "\<exists>db1 db2. recovery_step (\<lambda>_. [7]) (\<lambda>_. [''u'']) (Map.empty, example_blobs, [example_redemption, example_redemption])
       (Some (HandedOut example_envelope)) (Map.empty, db1, [example_redemption])
     \<and> recovery_step (\<lambda>_. [7]) (\<lambda>_. [''u'']) (Map.empty, db1, [example_redemption]) (Some (HandedOut example_envelope)) (Map.empty, db2, [])"
  using redeem_race_serves_twice [OF example_read_step example_read_step] by (auto simp: example_redemption_def)

end
