(* ===== verification/Rekey.thy ===== *)
theory Rekey
  imports Recovery_Server
begin

text \<open>
  Changing the password (\<open>lib/vault/rekey.ts\<close>): everything sealed under the old vault key is sealed again under the new
  one, the vault is pushed, and only then the credential is changed. The vault lives behind one endpoint and the
  credential behind another, and any request can be lost on the way there or on the way back.

  A run is a function of what the network does and of the two servers' states. The vault endpoint is the one of
  \<open>Vault_Server\<close>; what the sync before it, and other devices, leave there is an argument, a table for each later
  request. The credential check is the authentication library's and an argument, \<open>auth_change\<close>.
\<close>

section \<open>Errors and results\<close>

datatype RekeyVia = ByPassword | ByRecoveryCode

datatype RekeyError =
    SamePassword
  | DerivationRefused
  | WrongCurrentPasswordError RekeyVia
  | VaultConflictError
  | RekeyStrandedError
  | SessionExpired
  | VaultUnread
  | PushRejected nat
  | NetworkError
  | NoNetworkForSync
  | SyncThrew SyncError
  | ChangeRejected
  | KeyNotStored

record RekeyResult =
  rk_version :: "int option"
  rk_keysRewrapped :: nat
  rk_keysUnreadable :: nat
  rk_resumed :: bool
  rk_recoveryCleared :: bool

section \<open>Re-wrapping\<close>

definition rewrapKey :: "'k platform \<Rightarrow> 'k \<Rightarrow> 'k \<Rightarrow> byte list \<Rightarrow> SyncedKey \<Rightarrow> SyncedKey option" where
  "rewrapKey pf oldKey newKey iv key =
     (case (fromB64 (key_wrapped_iv key), fromB64 (key_wrapped_ciphertext key)) of
        (Some old_iv, Some ct) \<Rightarrow>
          (case aes_decrypt pf oldKey old_iv ct of
             None \<Rightarrow> None
           | Some pkcs8 \<Rightarrow> Some (key\<lparr>key_wrapped_iv := toB64 iv, key_wrapped_ciphertext := toB64 (aes_encrypt pf newKey iv pkcs8)\<rparr>))
      | _ \<Rightarrow> None)"

text \<open>The loop over the document's keys, with the random initialisation vector of each turn.\<close>

fun rewrap_keys ::
  "'k platform \<Rightarrow> 'k \<Rightarrow> 'k \<Rightarrow> (nat \<Rightarrow> byte list) \<Rightarrow> nat \<Rightarrow> SyncedKey list \<Rightarrow> SyncedKey list \<times> nat \<times> nat" where
  "rewrap_keys pf oldKey newKey ivs i [] = ([], 0, 0)"
| "rewrap_keys pf oldKey newKey ivs i (key # ks) =
     (let (rest, rewrapped, unreadable) = rewrap_keys pf oldKey newKey ivs (i + 1) ks in
      case rewrapKey pf oldKey newKey (ivs i) key of
        Some k \<Rightarrow> (k # rest, rewrapped + 1, unreadable)
      | None \<Rightarrow> (key # rest, rewrapped, unreadable + 1))"

definition toStoredKey :: "SyncedKey \<Rightarrow> StoredKey option" where
  "toStoredKey k =
     (case (fromB64 (key_publicKeyRaw k), fromB64 (key_wrapped_iv k), fromB64 (key_wrapped_ciphertext k)) of
        (Some raw, Some iv, Some ciphertext) \<Rightarrow>
          Some \<lparr>sk_id = key_id k, sk_label = key_label k, sk_mode = Portable, sk_publicKeyRaw = raw,
                sk_wrapped = Some (iv, ciphertext), sk_privateKey = None, sk_createdAt = key_createdAt k\<rparr>
      | _ \<Rightarrow> None)"

text \<open>The first key that is not base64 throws, with the keys before it stored.\<close>

fun install_keys :: "SyncedKey list \<Rightarrow> LocalStore \<Rightarrow> bool \<times> LocalStore" where
  "install_keys [] st = (True, st)"
| "install_keys (k # ks) st =
     (case toStoredKey k of None \<Rightarrow> (False, st) | Some sk \<Rightarrow> install_keys ks (putStoredKey sk st))"

section \<open>Requests\<close>

datatype Fate = Delivered | RequestLost | AnswerLost

definition pullVault :: "'k platform \<Rightarrow> Fate \<Rightarrow> ident option \<Rightarrow> vault_table \<Rightarrow> RekeyError + int \<times> VaultEnvelope option" where
  "pullVault pf fate user tbl =
     (if fate \<noteq> Delivered then Inl NetworkError
      else
        (case vault_GET user tbl of
           VaultPulled version blob \<Rightarrow>
             (case blob of
                None \<Rightarrow> Inr (version, None)
              | Some b \<Rightarrow>
                  if b = [] then Inr (version, None)
                  else (case parse_envelope pf b of None \<Rightarrow> Inl VaultUnread | Some env \<Rightarrow> Inr (version, Some env)))
         | resp \<Rightarrow> Inl (if vault_status resp = 401 then SessionExpired else VaultUnread)))"

definition push_body :: "string \<Rightarrow> int \<Rightarrow> json" where
  "push_body blob version = JObj [(''blob'', JStr blob), (''baseVersion'', JNum (Num (of_int version)))]"

definition pushVault ::
  "'k platform \<Rightarrow> Fate \<Rightarrow> ident option \<Rightarrow> VaultEnvelope \<Rightarrow> int \<Rightarrow> vault_table \<Rightarrow> (RekeyError + int) \<times> vault_table" where
  "pushVault pf fate user env version tbl =
     (if fate = RequestLost then (Inl NetworkError, tbl)
      else
        let (resp, tbl') = vault_PUT user (Some (push_body (envelope_text pf env) version)) tbl
        in (if fate = AnswerLost then Inl NetworkError
            else (case resp of
                    VaultPushed v \<Rightarrow> Inr v
                  | _ \<Rightarrow> Inl (if vault_status resp = 409 then VaultConflictError else PushRejected (vault_status resp))), tbl'))"

definition tryDecrypt :: "'k platform \<Rightarrow> 'k \<Rightarrow> VaultEnvelope \<Rightarrow> VaultDocument option" where
  "tryDecrypt pf key env = map_option normalise (decryptVault pf key env)"

text \<open>What the network and the servers do to one run.\<close>

record rekey_net =
  rn_user :: "ident option"
  rn_pull :: Fate
  rn_sync :: "nat \<Rightarrow> attempt"
  rn_pull_again :: Fate
  rn_synced :: vault_table
  rn_push :: Fate
  rn_at_push :: vault_table
  rn_ivs :: "nat \<Rightarrow> byte list"
  rn_iv :: "byte list"
  rn_change :: Fate
  rn_delete :: Fate
  rn_hops :: nat
  rn_forwarded :: "string option"
  rn_uuid :: ident
  rn_now :: millis

text \<open>The session of the tab: the installed keys, and the secrets of a redeemed code while they are held.\<close>

record 'k Device =
  dv_store :: LocalStore
  dv_keys :: "('k \<times> byte list) option"
  dv_recovered :: "'k DerivedSecrets option"

record Account =
  ac_vaults :: vault_table
  ac_token :: string
  ac_recovery :: RecoveryDb

section \<open>The run\<close>

text \<open>A run that is not resuming first syncs what this device holds, then reads the vault again.\<close>

definition rekey_refresh ::
  "'k platform \<Rightarrow> 'k DerivedSecrets \<Rightarrow> RekeyVia \<Rightarrow> rekey_net \<Rightarrow> LocalStore
     \<Rightarrow> (RekeyError + VaultDocument option \<times> bool \<times> int) \<times> LocalStore \<times> vault_table" where
  "rekey_refresh pf old via net st =
     (case syncVault pf (vaultKey_of old) (rn_sync net) st of
         (Inl e, st') \<Rightarrow> (Inl (SyncThrew e), st', rn_synced net)
       | (Inr r, st') \<Rightarrow>
           if res_status r = Offline then (Inl NoNetworkForSync, st', rn_synced net)
           else
             (case pullVault pf (rn_pull_again net) (rn_user net) (rn_synced net) of
                Inl e \<Rightarrow> (Inl e, st', rn_synced net)
              | Inr (version, None) \<Rightarrow> (Inr (None, False, version), st', rn_synced net)
              | Inr (version, Some env) \<Rightarrow>
                  (case tryDecrypt pf (vaultKey_of old) env of
                     None \<Rightarrow> (Inl (WrongCurrentPasswordError via), st', rn_synced net)
                   | Some doc \<Rightarrow> (Inr (Some doc, False, version), st', rn_synced net))))"

text \<open>
  The read phase: the document to work on, whether an earlier attempt is being resumed, the version it was read at, and
  the store and table the sync left.
\<close>

definition rekey_read ::
  "'k platform \<Rightarrow> 'k DerivedSecrets \<Rightarrow> 'k DerivedSecrets \<Rightarrow> RekeyVia \<Rightarrow> rekey_net \<Rightarrow> LocalStore \<Rightarrow> vault_table
     \<Rightarrow> (RekeyError + VaultDocument option \<times> bool \<times> int) \<times> LocalStore \<times> vault_table" where
  "rekey_read pf old new via net st tbl =
     (case pullVault pf (rn_pull net) (rn_user net) tbl of
        Inl e \<Rightarrow> (Inl e, st, tbl)
      | Inr (version, envelope) \<Rightarrow>
          let opened = (case envelope of
                None \<Rightarrow> Some (None, False)
              | Some env \<Rightarrow>
                  (case tryDecrypt pf (vaultKey_of old) env of
                     Some doc \<Rightarrow> Some (Some doc, False)
                   | None \<Rightarrow> map_option (\<lambda>doc. (Some doc, True)) (tryDecrypt pf (vaultKey_of new) env)))
          in (case opened of
                None \<Rightarrow> (Inl (WrongCurrentPasswordError via), st, tbl)
              | Some (doc, True) \<Rightarrow> (Inr (doc, True, version), st, tbl)
              | Some (doc, False) \<Rightarrow>
                  rekey_refresh pf old via net st))"

text \<open>
  The write phase on the vault: the document as pushed, the version and the two counts. Nothing is pushed for an account
  without a vault or for a resumed run; \<open>rn_at_push\<close> is what other devices have made of the table by then.
\<close>

definition rekey_push ::
  "'k platform \<Rightarrow> 'k DerivedSecrets \<Rightarrow> 'k DerivedSecrets \<Rightarrow> rekey_net \<Rightarrow> VaultDocument option \<Rightarrow> bool \<Rightarrow> int
     \<Rightarrow> (RekeyError + VaultDocument option \<times> int option \<times> nat \<times> nat) \<times> vault_table" where
  "rekey_push pf old new net document resumed version =
     (case (document, resumed) of
        (Some doc, False) \<Rightarrow>
          (case rewrap_keys pf (vaultKey_of old) (vaultKey_of new) (rn_ivs net) 0 (keys doc) of
             (ks, rewrapped, unreadable) \<Rightarrow>
               (case pushVault pf (rn_push net) (rn_user net) (encryptVault pf (rn_iv net) (vaultKey_of new) (doc\<lparr>keys := ks\<rparr>)) version (rn_at_push net) of
                  (Inl e, tbl') \<Rightarrow> (Inl e, tbl')
                | (Inr v, tbl') \<Rightarrow> (Inr (Some (doc\<lparr>keys := ks\<rparr>), Some v, rewrapped, unreadable), tbl')))
      | _ \<Rightarrow> (Inr (document, None, 0, 0), rn_at_push net))"

text \<open>
  The credential check: the stored token, the token presented as current and the new one, to the token stored after,
  when it accepts.
\<close>

definition changeCredential ::
  "(string \<Rightarrow> string \<Rightarrow> string \<Rightarrow> string option) \<Rightarrow> Fate \<Rightarrow> string \<Rightarrow> string \<Rightarrow> string \<Rightarrow> bool \<times> string" where
  "changeCredential auth_change fate old new token =
     (if fate = RequestLost then (False, token)
      else (case auth_change token old new of
              None \<Rightarrow> (False, token)
            | Some token' \<Rightarrow> (fate = Delivered, token')))"

text \<open>Whether the answer says the codes are gone, and what the endpoint did.\<close>

definition clearRecovery :: "rekey_net \<Rightarrow> RecoveryDb \<Rightarrow> bool \<times> RecoveryDb" where
  "clearRecovery net db =
     (if rn_delete net = RequestLost then (False, db)
      else
        let (answer, db') = recovery_DELETE (rn_hops net) (rn_forwarded net) (rn_uuid net) (rn_now net) (rn_user net) db
        in (rn_delete net = Delivered \<and> (case answer of RecoveryRefused status \<Rightarrow> status = 404 | _ \<Rightarrow> True), db'))"

definition rekey ::
  "'k platform \<Rightarrow> (string \<Rightarrow> string \<Rightarrow> string \<Rightarrow> string option) \<Rightarrow> 'k DerivedSecrets \<Rightarrow> 'k DerivedSecrets \<Rightarrow> RekeyVia \<Rightarrow> rekey_net
     \<Rightarrow> 'k Device \<Rightarrow> Account \<Rightarrow> (RekeyError + RekeyResult) \<times> 'k Device \<times> Account" where
  "rekey pf auth_change old new via net dv ac =
     (case rekey_read pf old new via net (dv_store dv) (ac_vaults ac) of
        (Inl e, st, tbl) \<Rightarrow> (Inl e, dv\<lparr>dv_store := st\<rparr>, ac\<lparr>ac_vaults := tbl\<rparr>)
      | (Inr (document, resumed, version), st, tbl) \<Rightarrow>
          (case rekey_push pf old new net document resumed version of
             (Inl e, tbl') \<Rightarrow> (Inl e, dv\<lparr>dv_store := st\<rparr>, ac\<lparr>ac_vaults := tbl'\<rparr>)
           | (Inr (document', pushed, rewrapped, unreadable), tbl') \<Rightarrow>
               (case changeCredential auth_change (rn_change net) (authToken old) (authToken new) (ac_token ac) of
                  (False, token) \<Rightarrow>
                    (Inl (if pushed \<noteq> None \<or> resumed then RekeyStrandedError else ChangeRejected),
                     dv\<lparr>dv_store := st\<rparr>, ac\<lparr>ac_vaults := tbl', ac_token := token\<rparr>)
                | (True, token) \<Rightarrow>
                    let (stored, st') = (case document' of None \<Rightarrow> (True, st) | Some d \<Rightarrow> install_keys (keys d) st);
                        dv' = \<lparr>dv_store = st', dv_keys = Some (vaultKey_of new, auditKey_of new), dv_recovered = None\<rparr>;
                        ac' = ac\<lparr>ac_vaults := tbl', ac_token := token\<rparr>
                    in if \<not> stored then (Inl KeyNotStored, dv', ac')
                       else
                         let (cleared, recovery) = clearRecovery net (ac_recovery ac') in
                         (Inr \<lparr>rk_version = pushed, rk_keysRewrapped = rewrapped, rk_keysUnreadable = unreadable, rk_resumed = resumed,
                            rk_recoveryCleared = cleared\<rparr>, dv', ac'\<lparr>ac_recovery := recovery\<rparr>))))"

definition changePasswordAndRekey ::
  "'k platform \<Rightarrow> 'k key_tree \<Rightarrow> (string \<Rightarrow> string \<Rightarrow> string \<Rightarrow> string option) \<Rightarrow> string \<Rightarrow> string \<Rightarrow> string \<Rightarrow> rekey_net
     \<Rightarrow> 'k Device \<Rightarrow> Account \<Rightarrow> (RekeyError + RekeyResult) \<times> 'k Device \<times> Account" where
  "changePasswordAndRekey pf kt auth_change email currentPassword newPassword net dv ac =
     (if currentPassword = newPassword then (Inl SamePassword, dv, ac)
      else (case (deriveSecrets kt email currentPassword, deriveSecrets kt email newPassword) of
              (Some old, Some new) \<Rightarrow> rekey pf auth_change old new ByPassword net dv ac
            | _ \<Rightarrow> (Inl DerivationRefused, dv, ac)))"

definition rekeyAfterRecovery ::
  "'k platform \<Rightarrow> 'k key_tree \<Rightarrow> (string \<Rightarrow> string \<Rightarrow> string \<Rightarrow> string option) \<Rightarrow> string \<Rightarrow> 'k DerivedSecrets \<Rightarrow> string \<Rightarrow> rekey_net
     \<Rightarrow> 'k Device \<Rightarrow> Account \<Rightarrow> (RekeyError + RekeyResult) \<times> 'k Device \<times> Account" where
  "rekeyAfterRecovery pf kt auth_change email old newPassword net dv ac =
     (case deriveSecrets kt email newPassword of
        None \<Rightarrow> (Inl DerivationRefused, dv, ac)
      | Some new \<Rightarrow>
          if authToken new = authToken old then (Inl SamePassword, dv, ac)
          else rekey pf auth_change old new ByRecoveryCode net dv ac)"

end
