(* ===== verification/Rekey_Safety.thy ===== *)
theory Rekey_Safety
  imports Rekey Recovery_Facts
begin

text \<open>
  What a password change promises whatever the network does: no run leaves an account whose password signs in and cannot
  open the vault, a run that stopped half-way is finished by running it again, and every key that opened still opens.
\<close>

section \<open>Requests\<close>

definition vault_opens :: "'k platform \<Rightarrow> 'k \<Rightarrow> VaultRow option \<Rightarrow> bool" where
  "vault_opens pf key row =
     (case row of
        None \<Rightarrow> True
      | Some r \<Rightarrow> row_ciphertext r = []
          \<or> (case parse_envelope pf (row_ciphertext r) of None \<Rightarrow> False | Some env \<Rightarrow> tryDecrypt pf key env \<noteq> None))"

definition sealed_document :: "'k platform \<Rightarrow> 'k \<Rightarrow> VaultRow option \<Rightarrow> VaultDocument option" where
  "sealed_document pf key row =
     Option.bind row (\<lambda>r. Option.bind (parse_envelope pf (row_ciphertext r)) (tryDecrypt pf key))"

lemma tryDecrypt_sealed: "platform_ok pf \<Longrightarrow> tryDecrypt pf key (encryptVault pf iv key d) = Some (normalise (partial_of d))"
  by (simp add: tryDecrypt_def decrypt_encrypt)

lemma vault_opens_sealed:
  "platform_ok pf \<Longrightarrow> vault_opens pf key (Some \<lparr>row_version = v, row_ciphertext = envelope_text pf (encryptVault pf iv key d)\<rparr>)"
proof -
  assume pf: "platform_ok pf"
  then have "envelope_text pf e \<noteq> [] \<and> parse_envelope pf (envelope_text pf e) = Some e" for e
    by (simp add: platform_ok_def)
  then show ?thesis
    by (simp add: vault_opens_def tryDecrypt_sealed [OF pf])
qed

lemma pullVault_Inr:
  assumes "pullVault pf fate (Some u) tbl = Inr (version, envelope)"
  shows "vault_opens pf key (tbl u) \<longleftrightarrow> (case envelope of None \<Rightarrow> True | Some env \<Rightarrow> tryDecrypt pf key env \<noteq> None)"
    and "case tbl u of None \<Rightarrow> version = 0 | Some row \<Rightarrow> version = row_version row"
    and "case envelope of None \<Rightarrow> True | Some env \<Rightarrow> sealed_document pf key (tbl u) = tryDecrypt pf key env"
  using assms by (auto simp: pullVault_def vault_GET_def vault_opens_def sealed_document_def split: if_splits option.splits)

lemma pullVault_delivered:
  "tbl u = Some row \<Longrightarrow> row_ciphertext row \<noteq> [] \<Longrightarrow> parse_envelope pf (row_ciphertext row) = Some env \<Longrightarrow>
     pullVault pf Delivered (Some u) tbl = Inr (row_version row, Some env)"
  by (simp add: pullVault_def vault_GET_def)

lemma push_body_fields [simp]:
  "json_field (push_body b v) ''blob'' = JStr b" "json_field (push_body b v) ''baseVersion'' = JNum (Num (of_int v))"
  by (simp_all add: push_body_def)

lemma vault_PUT_push:
  assumes "vault_PUT (Some u) (Some (push_body b version)) tbl = (resp, tbl')"
  obtains (kept) "tbl' = tbl" "vault_status resp \<noteq> 200"
  | (written) v where "resp = VaultPushed v" "tbl' = tbl(u \<mapsto> \<lparr>row_version = v, row_ciphertext = b\<rparr>)"
  using vault_PUT_spec [where user = "Some u" and body = "Some (push_body b version)" and tbl = tbl]
  by (cases resp) (auto simp: assms intro: that)

lemma pushVault_cases:
  assumes "pushVault pf fate (Some u) env version tbl = (x, tbl')"
  obtains (kept) e where "x = Inl e" "tbl' = tbl"
  | (written) v where "x = Inr v \<or> x = Inl NetworkError \<and> fate = AnswerLost"
      "tbl' = tbl(u \<mapsto> \<lparr>row_version = v, row_ciphertext = envelope_text pf env\<rparr>)"
proof (cases "fate = RequestLost")
  case False
  obtain resp t where put: "vault_PUT (Some u) (Some (push_body (envelope_text pf env) version)) tbl = (resp, t)"
    by force
  have x: "tbl' = t" "x = (if fate = AnswerLost then Inl NetworkError else (case resp of VaultPushed v \<Rightarrow> Inr v
      | _ \<Rightarrow> Inl (if vault_status resp = 409 then VaultConflictError else PushRejected (vault_status resp))))"
    using assms False put by (auto simp: pushVault_def)
  from put show ?thesis
  proof (cases rule: vault_PUT_push)
    case kept
    then have "\<exists>e. x = Inl e"
      using x(2) by (cases resp) auto
    then show ?thesis
      using x(1) kept(1) that(1) by blast
  next
    case (written v)
    then show ?thesis
      using x that(2) [of v] by simp
  qed
qed (use assms that(1) in \<open>auto simp: pushVault_def\<close>)

section \<open>Re-wrapping\<close>

definition private_bytes :: "'k platform \<Rightarrow> 'k \<Rightarrow> SyncedKey \<Rightarrow> byte list option" where
  "private_bytes pf key k =
     (case (fromB64 (key_wrapped_iv k), fromB64 (key_wrapped_ciphertext k)) of
        (Some iv, Some ct) \<Rightarrow> aes_decrypt pf key iv ct
      | _ \<Rightarrow> None)"

text \<open>The same key, its private part readable under the new vault key, or the very same record if it was unreadable.\<close>

definition moved_key :: "'k platform \<Rightarrow> 'k \<Rightarrow> 'k \<Rightarrow> SyncedKey \<Rightarrow> SyncedKey \<Rightarrow> bool" where
  "moved_key pf oldKey newKey k k' \<longleftrightarrow>
     k' = k\<lparr>key_wrapped_iv := key_wrapped_iv k', key_wrapped_ciphertext := key_wrapped_ciphertext k'\<rparr>
     \<and> (case private_bytes pf oldKey k of None \<Rightarrow> k' = k | Some p \<Rightarrow> private_bytes pf newKey k' = Some p)"

lemma rewrapKey_cases:
  assumes "platform_ok pf"
  shows "case rewrapKey pf oldKey newKey iv k of
      None \<Rightarrow> private_bytes pf oldKey k = None
    | Some k' \<Rightarrow> moved_key pf oldKey newKey k k' \<and> private_bytes pf oldKey k \<noteq> None"
  using assms by (auto simp: rewrapKey_def private_bytes_def moved_key_def platform_ok_def split: option.split)

lemma moved_key_unreadable: "private_bytes pf oldKey k = None \<Longrightarrow> moved_key pf oldKey newKey k k"
  by (simp add: moved_key_def)

lemma rewrap_keys_moved:
  assumes "platform_ok pf" "rewrap_keys pf oldKey newKey ivs i ks = (ks', n, m)"
  shows "list_all2 (moved_key pf oldKey newKey) ks ks' \<and> n = length (filter (\<lambda>k. private_bytes pf oldKey k \<noteq> None) ks)
    \<and> n + m = length ks"
  using assms(2)
proof (induction ks arbitrary: i ks' n m)
  case (Cons k ks)
  obtain rest n' m' where rest: "rewrap_keys pf oldKey newKey ivs (i + 1) ks = (rest, n', m')"
    by (cases "rewrap_keys pf oldKey newKey ivs (i + 1) ks")
  have prems: "(ks', n, m) = (case rewrapKey pf oldKey newKey (ivs i) k of
      Some k' \<Rightarrow> (k' # rest, n' + 1, m') | None \<Rightarrow> (k # rest, n', m' + 1))"
    using Cons.prems rest by simp
  show ?case
    using prems Cons.IH [OF rest] moved_key_unreadable [of pf oldKey k newKey]
      rewrapKey_cases [OF assms(1), where oldKey = oldKey and newKey = newKey and iv = "ivs i" and k = k]
    by (cases "rewrapKey pf oldKey newKey (ivs i) k") (simp_all del: not_None_eq)
qed simp

section \<open>The phases\<close>

lemma rekey_refresh_cases:
  assumes run: "rekey_refresh pf old via net st = (x, st', tbl')" and user: "rn_user net = Some u"
  obtains (failed) e where "x = Inl e" "tbl' = rn_synced net"
  | (empty) version where "x = Inr (None, False, version)" "tbl' = rn_synced net" "\<And>k. vault_opens pf k (rn_synced net u)"
  | (opened) doc version where "x = Inr (Some doc, False, version)" "tbl' = rn_synced net"
      "sealed_document pf (vaultKey_of old) (rn_synced net u) = Some doc" "vault_opens pf (vaultKey_of old) (rn_synced net u)"
proof -
  obtain y st1 where sync: "syncVault pf (vaultKey_of old) (rn_sync net) st = (y, st1)"
    by force
  note run3 = run [unfolded rekey_refresh_def user sync prod.case]
  show ?thesis
  proof (cases "\<exists>r. y = Inr r \<and> res_status r \<noteq> Offline")
    case False
    then have "\<exists>e. x = Inl e \<and> tbl' = rn_synced net"
      using run3 by (cases y) auto
    then show ?thesis
      using failed by blast
  next
    case True
    then obtain r where r: "y = Inr r" "res_status r \<noteq> Offline"
      by blast
    show ?thesis
    proof (cases "pullVault pf (rn_pull_again net) (Some u) (rn_synced net)")
      case (Inl e)
      then show ?thesis
        using run3 r failed [of e] by simp
    next
      case (Inr p)
      then obtain w again where again: "pullVault pf (rn_pull_again net) (Some u) (rn_synced net) = Inr (w, again)"
        by (cases p) simp
      note run4 = run3 [unfolded r(1) sum.case again prod.case] and opens = pullVault_Inr(1,3) [OF again]
      show ?thesis
      proof (cases again)
        case None
        then show ?thesis
          using run4 r(2) opens empty [of w] by simp
      next
        case (Some env)
        show ?thesis
        proof (cases "tryDecrypt pf (vaultKey_of old) env")
          case None
          then show ?thesis
            using run4 r(2) Some failed [of "WrongCurrentPasswordError via"] by simp
        next
          case doc: (Some doc)
          then show ?thesis
            using run4 r(2) Some opens opened [of doc w] by simp
        qed
      qed
    qed
  qed
qed

lemma rekey_read_cases:
  assumes run: "rekey_read pf old new via net st tbl = (x, st', tbl')" and user: "rn_user net = Some u"
  obtains (failed) e where "x = Inl e" "tbl' = tbl \<or> tbl' = rn_synced net"
  | (resuming) doc version where "x = Inr (Some doc, True, version)" "tbl' = tbl" "st' = st" "vault_opens pf (vaultKey_of new) (tbl u)"
  | (empty) version where "x = Inr (None, False, version)" "tbl' = rn_synced net" "\<And>k. vault_opens pf k (rn_synced net u)"
  | (opened) doc version where "x = Inr (Some doc, False, version)" "tbl' = rn_synced net"
      "sealed_document pf (vaultKey_of old) (rn_synced net u) = Some doc" "vault_opens pf (vaultKey_of old) (rn_synced net u)"
proof (cases "pullVault pf (rn_pull net) (Some u) tbl")
  case (Inl e)
  then show ?thesis
    using run user failed [of e] by (auto simp: rekey_read_def)
next
  case (Inr p)
  then obtain v envelope where pull: "pullVault pf (rn_pull net) (Some u) tbl = Inr (v, envelope)"
    by (cases p) simp
  define opened where "opened = (case envelope of
                None \<Rightarrow> Some (None, False)
              | Some env \<Rightarrow>
                  (case tryDecrypt pf (vaultKey_of old) env of
                     Some doc \<Rightarrow> Some (Some doc, False)
                   | None \<Rightarrow> map_option (\<lambda>doc. (Some doc, True)) (tryDecrypt pf (vaultKey_of new) env)))"
  note run' = run [unfolded rekey_read_def user pull sum.case prod.case, folded opened_def, unfolded Let_def]
  consider "opened = None" | d where "opened = Some (d, True)" | d where "opened = Some (d, False)"
    by (cases opened) (auto split: prod.splits)
  then show ?thesis
  proof cases
    case 1
    then show ?thesis
      using run' failed [of "WrongCurrentPasswordError via"] by auto
  next
    case (2 d)
    then have "\<exists>doc. d = Some doc \<and> vault_opens pf (vaultKey_of new) (tbl u)"
      using pullVault_Inr(1) [OF pull, of "vaultKey_of new"] by (auto simp: opened_def split: option.splits)
    then show ?thesis
      using 2 run' resuming by auto
  next
    case (3 d)
    show ?thesis
      using run' [unfolded 3 option.case prod.case bool.case] user
    proof (cases rule: rekey_refresh_cases)
      case (failed e)
      then show ?thesis
        using that(1) by simp
    qed (use that(3,4) in blast)+
  qed
qed

lemma rekey_push_cases:
  assumes "rekey_push pf old new net document resumed version = (x, tbl')" "rn_user net = Some u"
  obtains (skipped) "document = None \<or> resumed" "x = Inr (document, None, 0, 0)" "tbl' = rn_at_push net"
  | (refused) doc e where "document = Some doc" "\<not> resumed" "x = Inl e" "tbl' = rn_at_push net"
  | (pushed) doc ks n m v where "document = Some doc" "\<not> resumed"
      "rewrap_keys pf (vaultKey_of old) (vaultKey_of new) (rn_ivs net) 0 (keys doc) = (ks, n, m)"
      "x = Inr (Some (doc\<lparr>keys := ks\<rparr>), Some v, n, m) \<or> x = Inl NetworkError \<and> rn_push net = AnswerLost"
      "tbl' = (rn_at_push net)(u \<mapsto> \<lparr>row_version = v, row_ciphertext =
          envelope_text pf (encryptVault pf (rn_iv net) (vaultKey_of new) (doc\<lparr>keys := ks\<rparr>))\<rparr>)"
proof (cases "document = None \<or> resumed")
  case True
  then show ?thesis
    using assms skipped by (cases document; cases resumed) (auto simp: rekey_push_def)
next
  case False
  then obtain doc where doc: "document = Some doc" "\<not> resumed"
    by auto
  obtain ks n m where ks: "rewrap_keys pf (vaultKey_of old) (vaultKey_of new) (rn_ivs net) 0 (keys doc) = (ks, n, m)"
    by (cases "rewrap_keys pf (vaultKey_of old) (vaultKey_of new) (rn_ivs net) 0 (keys doc)")
  obtain y t where push: "pushVault pf (rn_push net) (Some u)
      (encryptVault pf (rn_iv net) (vaultKey_of new) (doc\<lparr>keys := ks\<rparr>)) version (rn_at_push net) = (y, t)"
    by force
  have x: "tbl' = t" "x = (case y of Inl e \<Rightarrow> Inl e | Inr v \<Rightarrow> Inr (Some (doc\<lparr>keys := ks\<rparr>), Some v, n, m))"
    using assms push ks doc by (auto simp: rekey_push_def split: sum.splits)
  from push show ?thesis
  proof (cases rule: pushVault_cases)
    case (kept e)
    then show ?thesis
      using x doc refused by simp
  next
    case (written v)
    then show ?thesis
      using x doc ks pushed [of doc ks n m v] by auto
  qed
qed

lemma rekey_cases:
  assumes "rekey pf auth_change old new via net dv ac = (x, dv', ac')"
  obtains (read_failed) e st tbl where "rekey_read pf old new via net (dv_store dv) (ac_vaults ac) = (Inl e, st, tbl)"
      "x = Inl e" "ac' = ac\<lparr>ac_vaults := tbl\<rparr>"
  | (push_failed) document resumed version st tbl e tbl' where
      "rekey_read pf old new via net (dv_store dv) (ac_vaults ac) = (Inr (document, resumed, version), st, tbl)"
      "rekey_push pf old new net document resumed version = (Inl e, tbl')" "x = Inl e" "ac' = ac\<lparr>ac_vaults := tbl'\<rparr>"
  | (change_failed) document resumed version st tbl d p n m tbl' token where
      "rekey_read pf old new via net (dv_store dv) (ac_vaults ac) = (Inr (document, resumed, version), st, tbl)"
      "rekey_push pf old new net document resumed version = (Inr (d, p, n, m), tbl')"
      "changeCredential auth_change (rn_change net) (authToken old) (authToken new) (ac_token ac) = (False, token)"
      "x = Inl (if p \<noteq> None \<or> resumed then RekeyStrandedError else ChangeRejected)"
      "ac' = ac\<lparr>ac_vaults := tbl', ac_token := token\<rparr>"
  | (changed) document resumed version st tbl d p n m tbl' token where
      "rekey_read pf old new via net (dv_store dv) (ac_vaults ac) = (Inr (document, resumed, version), st, tbl)"
      "rekey_push pf old new net document resumed version = (Inr (d, p, n, m), tbl')"
      "changeCredential auth_change (rn_change net) (authToken old) (authToken new) (ac_token ac) = (True, token)"
      "x = Inl KeyNotStored \<or> (\<exists>r. x = Inr r \<and> rk_version r = p \<and> rk_keysRewrapped r = n \<and> rk_keysUnreadable r = m \<and> rk_resumed r = resumed)"
      "ac_vaults ac' = tbl'" "ac_token ac' = token"
proof (cases "rekey_read pf old new via net (dv_store dv) (ac_vaults ac)")
  case (fields r st tbl)
  show ?thesis
  proof (cases r)
    case (Inl e)
    then show ?thesis
      using assms fields read_failed by (simp add: rekey_def)
  next
    case (Inr triple)
    then obtain document resumed version where r: "r = Inr (document, resumed, version)"
      by (cases triple) auto
    obtain y tbl' where push: "rekey_push pf old new net document resumed version = (y, tbl')"
      by force
    show ?thesis
    proof (cases y)
      case (Inl e)
      then show ?thesis
        using assms fields r push push_failed by (simp add: rekey_def)
    next
      case (Inr quad)
      then obtain d p n m where y: "y = Inr (d, p, n, m)"
        by (cases quad) auto
      obtain ok token where
        change: "changeCredential auth_change (rn_change net) (authToken old) (authToken new) (ac_token ac) = (ok, token)"
        by force
      show ?thesis
      proof (cases ok)
        case False
        then show ?thesis
          using assms fields r push y change change_failed by (simp add: rekey_def)
      next
        case True
        then show ?thesis
          using assms fields r push y change changed
          by (auto simp: rekey_def Let_def split: prod.splits if_splits)
      qed
    qed
  qed
qed

section \<open>The account\<close>

text \<open>
  The authentication library checks the token presented as the current password against the stored one and, when they
  agree, stores the new one.
\<close>

definition auth_ok :: "(string \<Rightarrow> string \<Rightarrow> string \<Rightarrow> string option) \<Rightarrow> bool" where
  "auth_ok f \<longleftrightarrow> (\<forall>token old new. f token old new = (if old = token then Some new else None))"

text \<open>A run that pushes may overlap with other devices; one that has nothing to push is assumed not to.\<close>

definition quiet_run ::
  "'k platform \<Rightarrow> 'k DerivedSecrets \<Rightarrow> 'k DerivedSecrets \<Rightarrow> RekeyVia \<Rightarrow> rekey_net \<Rightarrow> 'k Device \<Rightarrow> Account \<Rightarrow> ident \<Rightarrow> bool" where
  "quiet_run pf old new via net dv ac u \<longleftrightarrow>
     (case rekey_read pf old new via net (dv_store dv) (ac_vaults ac) of
        (Inr (Some _, False, _), _, _) \<Rightarrow> True
      | (_, _, tbl) \<Rightarrow> rn_at_push net u = tbl u)"

text \<open>The two states a password change may leave an account in.\<close>

definition survivable :: "'k platform \<Rightarrow> 'k DerivedSecrets \<Rightarrow> 'k DerivedSecrets \<Rightarrow> string \<Rightarrow> Account \<Rightarrow> ident \<Rightarrow> bool" where
  "survivable pf old new token ac u \<longleftrightarrow>
     ac_token ac = token
       \<and> (vault_opens pf (vaultKey_of old) (ac_vaults ac u) \<or> vault_opens pf (vaultKey_of new) (ac_vaults ac u))
     \<or> ac_token ac = authToken new \<and> vault_opens pf (vaultKey_of new) (ac_vaults ac u)"

lemma changeCredential_token:
  "auth_ok f \<Longrightarrow> changeCredential f fate old new token = (ok, token') \<Longrightarrow>
     token' = (if old = token \<and> fate \<noteq> RequestLost then new else token) \<and> ok = (old = token \<and> fate = Delivered)"
  by (cases fate) (auto simp: changeCredential_def auth_ok_def split: if_splits)

lemma push_opens:
  assumes read: "rekey_read pf old new via net (dv_store dv) (ac_vaults ac) = (Inr (document, resumed, version), st, tbl)"
    and push: "rekey_push pf old new net document resumed version = (Inr (d, p, n, m), tbl')"
    and pf: "platform_ok pf" and user: "rn_user net = Some u" and quiet: "quiet_run pf old new via net dv ac u"
  shows "vault_opens pf (vaultKey_of new) (tbl' u)"
  using push user
proof (cases rule: rekey_push_cases)
  case skipped
  from read user show ?thesis
  proof (cases rule: rekey_read_cases)
    case (resuming doc v)
    then show ?thesis
      using quiet skipped read by (simp add: quiet_run_def)
  next
    case (empty v)
    then show ?thesis
      using quiet skipped read by (simp add: quiet_run_def)
  qed (use skipped in auto)
next
  case (pushed doc ks n' m' v)
  then show ?thesis
    by (simp add: vault_opens_sealed [OF pf])
qed simp

text \<open>Only the credential change reports a stranded account.\<close>

lemma pull_not_stranded: "pullVault pf fate user tbl = Inl e \<Longrightarrow> e \<noteq> RekeyStrandedError"
  by (auto simp: pullVault_def vault_GET_def split: option.splits if_splits)

lemma push_not_stranded: "pushVault pf fate user env version tbl = (Inl e, t) \<Longrightarrow> e \<noteq> RekeyStrandedError"
  by (auto simp: pushVault_def split: prod.splits VaultResponse.splits if_splits)

lemma refresh_not_stranded: "rekey_refresh pf old via net st = (Inl e, r) \<Longrightarrow> e \<noteq> RekeyStrandedError"
  by (auto simp: rekey_refresh_def dest: pull_not_stranded split: prod.splits sum.splits option.splits if_splits)

lemma read_not_stranded: "rekey_read pf old new via net st tbl = (Inl e, r) \<Longrightarrow> e \<noteq> RekeyStrandedError"
  by (auto simp: rekey_read_def Let_def dest: pull_not_stranded refresh_not_stranded
      split: sum.splits option.splits prod.splits bool.splits)

lemma write_not_stranded: "rekey_push pf old new net document resumed version = (Inl e, t) \<Longrightarrow> e \<noteq> RekeyStrandedError"
  by (auto simp: rekey_push_def dest: push_not_stranded split: option.splits bool.splits prod.splits sum.splits)

lemma read_resumes:
  assumes "vault_opens pf (vaultKey_of new) (tbl u)" "\<not> vault_opens pf (vaultKey_of old) (tbl u)"
    and "rn_pull net = Delivered" "rn_user net = Some u"
  shows "\<exists>v doc. rekey_read pf old new via net st tbl = (Inr (Some doc, True, v), st, tbl)"
proof -
  obtain row env where row: "tbl u = Some row" "row_ciphertext row \<noteq> []" "parse_envelope pf (row_ciphertext row) = Some env"
    using assms(1,2) by (auto simp: vault_opens_def split: option.splits)
  with assms show ?thesis
    by (auto simp: rekey_read_def pullVault_delivered [where row = row and env = env] vault_opens_def)
qed

text \<open>A document that was opened once is written back whole.\<close>

lemma sealed_again:
  assumes "platform_ok pf" "sealed_document pf k row = Some doc"
  shows "sealed_document pf key (Some \<lparr>row_version = v, row_ciphertext = envelope_text pf (encryptVault pf iv key (doc\<lparr>keys := ks\<rparr>))\<rparr>)
    = Some (doc\<lparr>keys := ks\<rparr>)"
proof -
  have "\<exists>p. doc = normalise p"
    using assms(2) by (auto simp: sealed_document_def tryDecrypt_def bind_eq_Some_conv)
  then have "normalise (partial_of (doc\<lparr>keys := ks\<rparr>)) = doc\<lparr>keys := ks\<rparr>"
    by (auto simp: normalise_def partial_of_def)
  moreover have "parse_envelope pf (envelope_text pf e) = Some e" for e
    using assms(1) by (simp add: platform_ok_def)
  ultimately show ?thesis
    by (simp add: sealed_document_def tryDecrypt_sealed [OF assms(1)])
qed

section \<open>Properties\<close>

text \<open>
  C25. No run of a password change locks the account out, whichever request or answer is lost on the way: when it
  ends, failed or not, either the old password still signs in and the vault opens under one of the two passwords the
  user has just typed, or the new password signs in and the vault opens under it. Other devices may write to the vault
  meanwhile, unless the run has nothing to push.
\<close>

theorem rekey_never_locks_out:
  assumes pf: "platform_ok pf" and auth: "auth_ok auth_change" and user: "rn_user net = Some u"
    and quiet: "quiet_run pf old new via net dv ac u"
    and before: "survivable pf old new (ac_token ac) ac u"
    and others: "vault_opens pf (vaultKey_of old) (rn_synced net u)" "vault_opens pf (vaultKey_of old) (rn_at_push net u)
      \<or> vault_opens pf (vaultKey_of new) (rn_at_push net u)"
    and run: "rekey pf auth_change old new via net dv ac = (x, dv', ac')"
  shows "survivable pf old new (ac_token ac) ac' u"
  using run
proof (cases rule: rekey_cases)
  case (read_failed e st tbl)
  from read_failed(1) user show ?thesis
    by (cases rule: rekey_read_cases) (use read_failed before others in \<open>auto simp: survivable_def\<close>)
next
  case (push_failed document resumed version st tbl e tbl')
  from push_failed(2) user show ?thesis
    by (cases rule: rekey_push_cases)
       (use push_failed others in \<open>auto simp: survivable_def vault_opens_sealed [OF pf]\<close>)
next
  case (change_failed document resumed version st tbl d p n m tbl' token)
  from push_opens [OF change_failed(1,2) pf user quiet] changeCredential_token [OF auth change_failed(3)] show ?thesis
    using change_failed(5) by (auto simp: survivable_def split: if_splits)
next
  case (changed document resumed version st tbl d p n m tbl' token)
  from push_opens [OF changed(1,2) pf user quiet] changeCredential_token [OF auth changed(3)] show ?thesis
    using changed(5,6) by (auto simp: survivable_def split: if_splits)
qed

text \<open>
  C26. Running the change again repairs a stranded account: after a run that pushed the vault and could not change the
  credential, the same two passwords over a network that answers find the half-finished state, skip the sync and the
  re-encryption and change the credential; only storing a key on the device can still fail after that.
\<close>

theorem rekey_rerun_repairs:
  assumes pf: "platform_ok pf" and auth: "auth_ok auth_change"
    and user: "rn_user net = Some u" "rn_user net' = Some u"
    and stranded: "rekey pf auth_change old new via net dv ac = (Inl RekeyStrandedError, dv1, ac1)"
    and quiet: "quiet_run pf old new via net dv ac u" "rn_at_push net' u = ac_vaults ac1 u"
    and token: "ac_token ac1 = authToken old"
    and sealed: "\<not> vault_opens pf (vaultKey_of old) (ac_vaults ac1 u)"
    and network: "rn_pull net' = Delivered" "rn_change net' = Delivered"
    and again: "rekey pf auth_change old new via' net' dv2 ac1 = (x, dv', ac')"
  shows "ac_token ac' = authToken new \<and> (x = Inl KeyNotStored \<or> (\<exists>r. x = Inr r \<and> rk_resumed r))"
proof -
  have "vault_opens pf (vaultKey_of new) (ac_vaults ac1 u)"
    using stranded
  proof (cases rule: rekey_cases)
    case (change_failed document resumed version st tbl d p n m tbl' token)
    then show ?thesis
      using push_opens [OF change_failed(1,2) pf user(1) quiet(1)] by simp
  next
    case (read_failed e st tbl)
    then show ?thesis
      using read_not_stranded by blast
  next
    case (push_failed document resumed version st tbl e tbl')
    then show ?thesis
      using write_not_stranded by blast
  qed simp
  then obtain v doc where read: "rekey_read pf old new via' net' (dv_store dv2) (ac_vaults ac1) = (Inr (Some doc, True, v), dv_store dv2, ac_vaults ac1)"
    using sealed network user(2) read_resumes by blast
  show ?thesis
    using again
  proof (cases rule: rekey_cases)
    case (change_failed document resumed version st tbl d p n m tbl' t)
    then show ?thesis
      using changeCredential_token [OF auth change_failed(3)] network token by simp
  next
    case (changed document resumed version st tbl d p n m tbl' t)
    then show ?thesis
      using changeCredential_token [OF auth changed(3)] read network token by auto
  qed (use read in \<open>auto simp: rekey_push_def\<close>)
qed

text \<open>
  C27. A change that pushed the vault carries every key over: the document the old password opened is, but for its
  keys, the document the new password opens; every private key that could be read under the old key can be read under the
  new one, to the same bytes, every other key is kept as it was, and the two counts of the answer say how many of each.
\<close>

theorem rekey_rewraps_every_key:
  assumes pf: "platform_ok pf" and user: "rn_user net = Some u"
    and run: "rekey pf auth_change old new via net dv ac = (Inr r, dv', ac')"
    and pushed: "rk_version r = Some v"
  shows "\<exists>doc ks. sealed_document pf (vaultKey_of old) (rn_synced net u) = Some doc
    \<and> sealed_document pf (vaultKey_of new) (ac_vaults ac' u) = Some (doc\<lparr>keys := ks\<rparr>)
    \<and> list_all2 (moved_key pf (vaultKey_of old) (vaultKey_of new)) (keys doc) ks
    \<and> rk_keysRewrapped r = length (filter (\<lambda>k. private_bytes pf (vaultKey_of old) k \<noteq> None) (keys doc))
    \<and> rk_keysRewrapped r + rk_keysUnreadable r = length (keys doc)"
  using run
proof (cases rule: rekey_cases)
  case (changed document resumed version st tbl d p n m tbl' token)
  from changed(2) user show ?thesis
  proof (cases rule: rekey_push_cases)
    case skipped
    then show ?thesis
      using changed(4) pushed by simp
  next
    case (pushed doc ks n' m' v')
    from changed(1) user have doc: "sealed_document pf (vaultKey_of old) (rn_synced net u) = Some doc"
      by (cases rule: rekey_read_cases) (use pushed(1,2) in auto)
    have "sealed_document pf (vaultKey_of new) (ac_vaults ac' u) = Some (doc\<lparr>keys := ks\<rparr>)"
      using changed(5) pushed(5) by (simp add: sealed_again [OF pf doc])
    then show ?thesis
      using doc rewrap_keys_moved [OF pf pushed(3)] changed(4) pushed(4) by (intro exI [of _ doc] exI [of _ ks]) auto
  qed (use changed in simp)
qed simp_all

text \<open>
  C28. When the credential was changed and only the answer was lost, the run reports that the account still uses the old
  password and is to be repaired by running the change again; by then the new password is the one that signs in, and no
  such run, over whatever network, ever succeeds.
\<close>

theorem rekey_lost_change_answer:
  assumes auth: "auth_ok auth_change" and token: "ac_token ac = authToken old" "authToken new \<noteq> authToken old"
    and lost: "rn_change net = AnswerLost"
    and run: "rekey pf auth_change old new via net dv ac = (Inl RekeyStrandedError, dv1, ac1)"
    and again: "rekey pf auth_change old new via' net' dv2 ac1 = (x, dv', ac')"
  shows "ac_token ac' = authToken new \<and> (\<exists>e. x = Inl e)"
proof -
  have new: "ac_token ac1 = authToken new"
    using run
  proof (cases rule: rekey_cases)
    case (change_failed document resumed version st tbl d p n m tbl' t)
    then show ?thesis
      using changeCredential_token [OF auth change_failed(3)] token lost by simp
  next
    case (read_failed e st tbl)
    then show ?thesis
      using read_not_stranded by blast
  next
    case (push_failed document resumed version st tbl e tbl')
    then show ?thesis
      using write_not_stranded by blast
  qed simp
  show ?thesis
    using again
  proof (cases rule: rekey_cases)
    case (change_failed document resumed version st tbl d p n m tbl' t)
    then show ?thesis
      using changeCredential_token [OF auth change_failed(3)] token new by simp
  next
    case (changed document resumed version st tbl d p n m tbl' t)
    then show ?thesis
      using changeCredential_token [OF auth changed(3)] token new by simp
  qed (use new in simp_all)
qed


section \<open>Examples\<close>

text \<open>
  A vault of two keys, one of them wrapped under some other key and so unreadable; a platform that writes the
  re-encrypted vault of the run below as a short text, so that the endpoint's size limit lets it through.
\<close>

definition example_synced_key :: "ident \<Rightarrow> byte \<Rightarrow> SyncedKey" where
  "example_synced_key i k = \<lparr>key_id = i, key_label = ''key'', key_publicKeyRaw = toB64 [1], key_wrapped_iv = toB64 [0],
     key_wrapped_ciphertext = toB64 (aes_encrypt box_platform k [0] [1, 2, 3]), key_createdAt = 5\<rparr>"

definition example_doc :: VaultDocument where
  "example_doc = normalise (partial_of (emptyDoc\<lparr>keys := [example_synced_key ''a'' 7, example_synced_key ''b'' 5]\<rparr>))"

definition example_moved :: SyncedKey where
  "example_moved = (example_synced_key ''a'' 7)\<lparr>key_wrapped_iv := toB64 [3],
     key_wrapped_ciphertext := toB64 (aes_encrypt box_platform 9 [3] [1, 2, 3])\<rparr>"

definition example_sealed :: VaultEnvelope where
  "example_sealed = encryptVault box_platform [4] 9 (example_doc\<lparr>keys := [example_moved, example_synced_key ''b'' 5]\<rparr>)"

definition swap_index :: "nat \<Rightarrow> nat" where
  "swap_index n = (if n = to_nat example_sealed then 0 else if n = 0 then to_nat example_sealed else n)"

definition short_platform :: "byte platform" where
  "short_platform = box_platform
     \<lparr>envelope_text := (\<lambda>e. replicate (Suc (swap_index (to_nat e))) CHR ''x''),
      parse_envelope := (\<lambda>s. Some (from_nat (swap_index (length s - 1))))\<rparr>"

lemma short_platform_ok: "platform_ok short_platform"
proof -
  have "swap_index (swap_index n) = n" for n
    by (simp add: swap_index_def)
  with box_platform_ok(1) show ?thesis
    by (simp add: platform_ok_def short_platform_def)
qed

lemma short_platform_eqs [simp]:
  "aes_encrypt short_platform = aes_encrypt box_platform" "aes_decrypt short_platform = aes_decrypt box_platform"
  "encryptVault short_platform = encryptVault box_platform" "decryptVault short_platform = decryptVault box_platform"
  by (simp_all add: short_platform_def encryptVault_def decryptVault_def fun_eq_iff split: option.split)

lemma short_text: "envelope_text short_platform example_sealed = ''x''"
  by (simp add: short_platform_def swap_index_def)

definition example_old :: "byte DerivedSecrets" where
  "example_old = \<lparr>authToken = ''old'', vaultKey_of = 7, auditKey_of = []\<rparr>"

definition example_new :: "byte DerivedSecrets" where
  "example_new = \<lparr>authToken = ''new'', vaultKey_of = 9, auditKey_of = []\<rparr>"

definition example_vault :: vault_table where
  "example_vault = [''u'' \<mapsto> \<lparr>row_version = 1, row_ciphertext = envelope_text short_platform (encryptVault box_platform [1] 7 example_doc)\<rparr>]"

definition rekey_example_net :: "Fate \<Rightarrow> rekey_net" where
  "rekey_example_net change =
     \<lparr>rn_user = Some ''u'', rn_pull = Delivered, rn_sync = (\<lambda>_. sample_first), rn_pull_again = Delivered,
      rn_synced = example_vault, rn_push = Delivered, rn_at_push = example_vault, rn_ivs = (\<lambda>_. [3]), rn_iv = [4],
      rn_change = change, rn_delete = Delivered, rn_hops = 0, rn_forwarded = None, rn_uuid = ''id'', rn_now = 9\<rparr>"

definition example_device :: "byte Device" where
  "example_device = \<lparr>dv_store = empty_store, dv_keys = None, dv_recovered = None\<rparr>"

definition example_account :: Account where
  "example_account = \<lparr>ac_vaults = example_vault, ac_token = ''old'', ac_recovery = \<lparr>blobs = [], recovery_log = []\<rparr>\<rparr>"

definition example_auth :: "string \<Rightarrow> string \<Rightarrow> string \<Rightarrow> string option" where
  "example_auth token old new = (if old = token then Some new else None)"

lemma example_auth_ok: "auth_ok example_auth"
  by (simp add: auth_ok_def example_auth_def)

lemmas example_defs = example_old_def example_new_def rekey_example_net_def example_device_def example_account_def

lemma example_vault_text:
  "envelope_text short_platform e \<noteq> []" "parse_envelope short_platform (envelope_text short_platform e) = Some e"
  using short_platform_ok by (simp_all add: platform_ok_def)

lemma example_opens: "tryDecrypt short_platform 7 (encryptVault box_platform [1] 7 example_doc) = Some example_doc"
  using tryDecrypt_sealed [OF short_platform_ok, of 7 "[1]" example_doc]
  by (simp add: example_doc_def normalise_def partial_of_def)

lemma box_other_key:
  "k \<noteq> k' \<Longrightarrow> decryptVault box_platform k (encryptVault box_platform iv k' d) = None"
  by (simp add: encryptVault_def decryptVault_def box_platform_def)

lemma example_keys_moved:
  "rewrap_keys short_platform 7 9 (\<lambda>_. [3]) 0 (keys example_doc) = ([example_moved, example_synced_key ''b'' 5], 1, 1)"
  by (simp add: example_doc_def normalise_def partial_of_def rewrapKey_def example_synced_key_def example_moved_def box_platform_def)

lemma example_sync:
  "\<exists>r st. syncVault pf k (\<lambda>_. sample_first) empty_store = (Inr r, st) \<and> res_status r = Synced"
  by (simp add: syncVault_def numeral_2_eq_2 runSync.simps sync_first sync_result_def)

lemma rekey_example_read:
  "\<exists>st. rekey_read short_platform example_old example_new via (rekey_example_net change) (dv_store example_device) example_vault
     = (Inr (Some example_doc, False, 1), st, example_vault)"
proof -
  obtain r st where "syncVault short_platform 7 (\<lambda>_. sample_first) empty_store = (Inr r, st)" "res_status r = Synced"
    using example_sync [of short_platform 7] by blast
  moreover have "pullVault short_platform Delivered (Some ''u'') example_vault = Inr (1, Some (encryptVault box_platform [1] 7 example_doc))"
    by (simp add: pullVault_def vault_GET_def example_vault_def example_vault_text)
  ultimately show ?thesis
    by (simp add: rekey_read_def rekey_refresh_def example_defs example_opens)
qed

lemma example_push:
  "rekey_push short_platform example_old example_new (rekey_example_net change) (Some example_doc) False 1
     = (Inr (Some (example_doc\<lparr>keys := [example_moved, example_synced_key ''b'' 5]\<rparr>), Some 2, 1, 1),
        example_vault(''u'' \<mapsto> \<lparr>row_version = 2, row_ciphertext = ''x''\<rparr>))"
  using short_text
  by (simp add: rekey_push_def example_defs example_keys_moved pushVault_def vault_PUT_def push_body_def example_sealed_def
      MAX_BLOB_BYTES_def utf8_def utf8_char_def vault_write_def int4_of_def update_row_def) (simp add: example_vault_def)

lemma example_sels:
  "rn_user (rekey_example_net c) = Some ''u''" "rn_change (rekey_example_net c) = c" "ac_vaults example_account = example_vault"
  "ac_token example_account = ''old''" "authToken example_old = ''old''" "authToken example_new = ''new''"
  "vaultKey_of example_old = 7" "vaultKey_of example_new = 9" "rn_synced (rekey_example_net c) = example_vault"
  "rn_at_push (rekey_example_net c) = example_vault"
  by (simp_all add: example_defs)

definition example_stranded :: vault_table where
  "example_stranded = example_vault(''u'' \<mapsto> \<lparr>row_version = 2, row_ciphertext = ''x''\<rparr>)"

lemma example_install: "\<exists>st'. install_keys [example_moved, example_synced_key ''b'' 5] st = (True, st')"
  by (simp add: toStoredKey_def example_moved_def example_synced_key_def)

lemma example_finished:
  "\<exists>r dv ac. rekey short_platform example_auth example_old example_new ByPassword (rekey_example_net Delivered) example_device example_account
     = (Inr r, dv, ac) \<and> rk_version r = Some 2"
proof -
  obtain st where read: "rekey_read short_platform example_old example_new ByPassword (rekey_example_net Delivered) (dv_store example_device) example_vault
     = (Inr (Some example_doc, False, 1), st, example_vault)"
    using rekey_example_read by blast
  obtain st' where "install_keys [example_moved, example_synced_key ''b'' 5] st = (True, st')"
    using example_install by blast
  then show ?thesis
    by (simp add: rekey_def example_sels read example_push changeCredential_def example_auth_def split: prod.split)
qed

lemma example_interrupted:
  assumes "change \<noteq> Delivered"
  shows "\<exists>dv. rekey short_platform example_auth example_old example_new ByPassword (rekey_example_net change) example_device example_account
     = (Inl RekeyStrandedError, dv, example_account\<lparr>ac_vaults := example_stranded,
          ac_token := if change = RequestLost then ''old'' else ''new''\<rparr>)"
proof -
  obtain st where read: "rekey_read short_platform example_old example_new ByPassword (rekey_example_net change) (dv_store example_device) example_vault
     = (Inr (Some example_doc, False, 1), st, example_vault)"
    using rekey_example_read by blast
  show ?thesis
    using assms
    by (auto simp: rekey_def example_sels read example_push changeCredential_def example_auth_def example_stranded_def)
qed

lemma example_quiet: "quiet_run short_platform example_old example_new via (rekey_example_net change) example_device example_account ''u''"
proof -
  obtain st where "rekey_read short_platform example_old example_new via (rekey_example_net change) (dv_store example_device) example_vault
     = (Inr (Some example_doc, False, 1), st, example_vault)"
    using rekey_example_read by blast
  then show ?thesis
    by (simp add: quiet_run_def example_sels)
qed

lemma example_vault_opens: "vault_opens short_platform 7 (example_vault ''u'')" "\<not> vault_opens short_platform 9 (example_vault ''u'')"
  by (simp_all add: vault_opens_def example_vault_def example_vault_text example_opens tryDecrypt_def box_other_key)
     (use example_opens in \<open>auto simp: tryDecrypt_def\<close>)

lemma example_stranded_closed: "\<not> vault_opens short_platform 7 (example_stranded ''u'')"
  using example_vault_text(2) [of example_sealed] short_text
  by (simp add: vault_opens_def example_stranded_def) (simp add: example_sealed_def tryDecrypt_def box_other_key)

theorem rekey_never_locks_out_witness:
  "\<exists>x dv ac. rekey short_platform example_auth example_old example_new ByPassword (rekey_example_net AnswerLost) example_device example_account = (x, dv, ac)
     \<and> survivable short_platform example_old example_new ''old'' ac ''u''"
proof -
  obtain x dv ac where run: "rekey short_platform example_auth example_old example_new ByPassword (rekey_example_net AnswerLost) example_device example_account = (x, dv, ac)"
    by (cases "rekey short_platform example_auth example_old example_new ByPassword (rekey_example_net AnswerLost) example_device example_account")
  have "survivable short_platform example_old example_new (ac_token example_account) ac ''u''"
    by (rule rekey_never_locks_out [OF short_platform_ok example_auth_ok _ example_quiet _ _ _ run])
       (simp_all add: example_sels survivable_def example_vault_opens)
  with run show ?thesis
    by (simp add: example_sels)
qed

theorem rekey_rerun_repairs_witness:
  "\<exists>x dv ac. rekey short_platform example_auth example_old example_new ByPassword
      ((rekey_example_net Delivered)\<lparr>rn_at_push := example_stranded\<rparr>) example_device (example_account\<lparr>ac_vaults := example_stranded\<rparr>) = (x, dv, ac)
     \<and> ac_token ac = ''new''"
proof -
  let ?net = "(rekey_example_net Delivered)\<lparr>rn_at_push := example_stranded\<rparr>" and ?ac = "example_account\<lparr>ac_vaults := example_stranded\<rparr>"
  obtain dv1 where first: "rekey short_platform example_auth example_old example_new ByPassword (rekey_example_net RequestLost) example_device example_account
      = (Inl RekeyStrandedError, dv1, ?ac)"
    using example_interrupted [of RequestLost] by (auto simp: example_account_def)
  obtain x dv ac where run: "rekey short_platform example_auth example_old example_new ByPassword ?net example_device ?ac = (x, dv, ac)"
    by (cases "rekey short_platform example_auth example_old example_new ByPassword ?net example_device ?ac")
  have "ac_token ac = authToken example_new \<and> (x = Inl KeyNotStored \<or> (\<exists>r. x = Inr r \<and> rk_resumed r))"
    by (rule rekey_rerun_repairs [OF short_platform_ok example_auth_ok _ _ first example_quiet _ _ _ _ _ run])
       (simp_all add: example_sels example_stranded_closed, simp_all add: rekey_example_net_def)
  with run show ?thesis
    by (simp add: example_sels)
qed

theorem rekey_rewraps_every_key_witness:
  "\<exists>r dv ac doc ks. rekey short_platform example_auth example_old example_new ByPassword (rekey_example_net Delivered) example_device example_account = (Inr r, dv, ac)
     \<and> sealed_document short_platform 9 (ac_vaults ac ''u'') = Some (doc\<lparr>keys := ks\<rparr>)
     \<and> list_all2 (moved_key short_platform 7 9) (keys doc) ks"
proof -
  obtain r dv ac where run: "rekey short_platform example_auth example_old example_new ByPassword (rekey_example_net Delivered) example_device example_account
      = (Inr r, dv, ac)" "rk_version r = Some 2"
    using example_finished by blast
  show ?thesis
    using rekey_rewraps_every_key [OF short_platform_ok example_sels(1) run] run(1) unfolding example_sels by blast
qed

theorem rekey_lost_change_answer_witness:
  "\<exists>dv1 ac1 x dv ac. rekey short_platform example_auth example_old example_new ByPassword (rekey_example_net AnswerLost) example_device example_account
       = (Inl RekeyStrandedError, dv1, ac1)
     \<and> rekey short_platform example_auth example_old example_new ByPassword (rekey_example_net Delivered) example_device ac1 = (x, dv, ac)
     \<and> ac_token ac = ''new'' \<and> (\<exists>e. x = Inl e)"
proof -
  obtain dv1 ac1 where first: "rekey short_platform example_auth example_old example_new ByPassword (rekey_example_net AnswerLost) example_device example_account
      = (Inl RekeyStrandedError, dv1, ac1)"
    using example_interrupted [of AnswerLost] by auto
  obtain x dv ac where run: "rekey short_platform example_auth example_old example_new ByPassword (rekey_example_net Delivered) example_device ac1 = (x, dv, ac)"
    by (cases "rekey short_platform example_auth example_old example_new ByPassword (rekey_example_net Delivered) example_device ac1")
  have "ac_token ac = authToken example_new \<and> (\<exists>e. x = Inl e)"
    by (rule rekey_lost_change_answer [OF example_auth_ok _ _ _ first run]) (simp_all add: example_sels)
  with first run show ?thesis
    by (simp add: example_sels)
qed


end
