(* ===== verification/Tar.thy ===== *)
theory Tar
  imports Js_Text Calendar
begin

text \<open>
  Uploading a directory (\<open>lib/transfers/tar.ts\<close>, \<open>upload.ts\<close>): the streaming USTAR writer and the choice between it and
  one SFTP write per file. A file is its declared size, its time and the chunks its stream yields; the abort signal is its
  state at each test the writer makes. A reader of the format, which has no counterpart in the code, says what an archive
  holds.
\<close>

section \<open>Uploads\<close>

record UploadItem =
  it_path :: string
  it_size :: nat
  it_lastModified :: millis
  it_chunks :: "byte list list"

definition TAR_FILE_COUNT_THRESHOLD :: nat where "TAR_FILE_COUNT_THRESHOLD = 24"

definition TAR_MEAN_SIZE_THRESHOLD :: nat where "TAR_MEAN_SIZE_THRESHOLD = 512 * 1024"

datatype UploadStrategy = ViaSftp | ViaTar

definition chooseStrategy :: "UploadItem list \<Rightarrow> UploadStrategy" where
  "chooseStrategy items =
     (if length items \<le> 1 then ViaSftp
      else
        let total = sum_list (map it_size items);
            mean = rat_of_nat total / rat_of_nat (length items)
        in if TAR_FILE_COUNT_THRESHOLD \<le> length items \<or> mean < rat_of_nat TAR_MEAN_SIZE_THRESHOLD then ViaTar else ViaSftp)"

section \<open>The writer\<close>

definition BLOCK :: nat where "BLOCK = 512"

text \<open>\<open>path.replace(/^\/+/, "").replace(/\/{2,}/g, "/")\<close>.\<close>

fun single_slashes :: "string \<Rightarrow> string" where
  "single_slashes (c # d # s) =
     (if c = CHR ''/'' \<and> d = CHR ''/'' then single_slashes (d # s) else c # single_slashes (d # s))"
| "single_slashes s = s"

definition normalizePath :: "string \<Rightarrow> string" where
  "normalizePath path = single_slashes (dropWhile (\<lambda>c. c = CHR ''/'') path)"

definition padding :: "nat \<Rightarrow> nat" where
  "padding sz = (let rem = sz mod BLOCK in if rem = 0 then 0 else BLOCK - rem)"

definition truncate_name :: "string \<Rightarrow> string" where
  "truncate_name name = (if 100 < length name then take 100 name else name)"

text \<open>\<open>buf.set(encode(value).subarray(0, len), offset)\<close>.\<close>

definition put_field :: "nat \<Rightarrow> nat \<Rightarrow> string \<Rightarrow> byte list \<Rightarrow> byte list" where
  "put_field off len value buf =
     (let b = take len (utf8 value) in take off buf @ b @ drop (off + length b) buf)"

text \<open>\<open>n.toString(8)\<close>, and \<open>slice(-k)\<close>.\<close>

definition show_octal :: "int \<Rightarrow> string" where
  "show_octal n = (if n < 0 then CHR ''-'' # show_radix 8 (nat (- n)) else show_radix 8 (nat n))"

definition slice_last :: "nat \<Rightarrow> string \<Rightarrow> string" where
  "slice_last k s = drop (length s - k) s"

definition octal :: "int \<Rightarrow> nat \<Rightarrow> string" where
  "octal n len = slice_last (len - 1) (pad_start (len - 1) (CHR ''0'') (show_octal n)) @ [CHR 0x00]"

text \<open>The fields before the checksum is known, its own holding spaces.\<close>

definition header_fields :: "string \<Rightarrow> nat \<Rightarrow> millis \<Rightarrow> char \<Rightarrow> byte list" where
  "header_fields name sz mtimeMs type =
     (put_field 297 32 ''weirdvault'' \<circ> put_field 265 32 ''weirdvault'' \<circ> put_field 263 2 ''00''
      \<circ> put_field 257 6 (''ustar'' @ [CHR 0x00]) \<circ> put_field 156 1 [type] \<circ> put_field 148 8 ''        ''
      \<circ> put_field 136 12 (octal (mtimeMs div 1000) 12) \<circ> put_field 124 12 (octal (int sz) 12)
      \<circ> put_field 116 8 (octal 0 8) \<circ> put_field 108 8 (octal 0 8) \<circ> put_field 100 8 (octal 420 8) \<circ> put_field 0 100 name)
     (replicate BLOCK 0)"

definition tar_header :: "string \<Rightarrow> nat \<Rightarrow> millis \<Rightarrow> char \<Rightarrow> byte list" where
  "tar_header name sz mtimeMs type =
     (let buf = header_fields name sz mtimeMs type;
          sum = sum_list (map unat buf)
      in put_field 148 8 (slice_last 6 (pad_start 6 (CHR ''0'') (show_radix 8 sum)) @ [CHR 0x00, CHR '' '']) buf)"

definition longNameEntry :: "string \<Rightarrow> byte list option" where
  "longNameEntry name =
     (let bytes = utf8 name in
      if length bytes \<le> 100 then None
      else Some (tar_header ''././@LongLink'' (length bytes) 0 (CHR ''L'') @ bytes @ replicate (padding (length bytes)) 0))"

datatype TarError = TarCancelled | FileChanged string nat nat

text \<open>The reading loop: the chunks passed on, whether the signal stopped it, and the next test of the signal.\<close>

fun read_file :: "(nat \<Rightarrow> bool) \<Rightarrow> nat \<Rightarrow> byte list list \<Rightarrow> byte list list \<times> bool \<times> nat" where
  "read_file aborted n [] = ([], False, n)"
| "read_file aborted n (value # values) =
     (if aborted n then ([], True, n + 1)
      else let (out, cancelled, n') = read_file aborted (n + 1) values in (value # out, cancelled, n'))"

text \<open>What precedes the contents of a file: its header, after a GNU entry for a name too long for the field.\<close>

definition entry_start :: "UploadItem \<Rightarrow> byte list list" where
  "entry_start item =
     (let name = normalizePath (it_path item);
          long = longNameEntry name
      in (case long of None \<Rightarrow> [] | Some entry \<Rightarrow> [entry])
         @ [tar_header (if long = None then name else truncate_name name) (it_size item) (it_lastModified item) (CHR ''0'')])"

text \<open>What the generator yields, and the error it ends with.\<close>

fun tarChunks :: "(nat \<Rightarrow> bool) \<Rightarrow> nat \<Rightarrow> UploadItem list \<Rightarrow> byte list list \<times> TarError option" where
  "tarChunks aborted n [] = ([replicate (BLOCK * 2) 0], None)"
| "tarChunks aborted n (item # items) =
     (if aborted n then ([], Some TarCancelled)
      else
        let start = entry_start item;
            (data, cancelled, n') = read_file aborted (n + 1) (it_chunks item);
            written = length (concat data)
        in if cancelled then (start @ data, Some TarCancelled)
           else if written \<noteq> it_size item then (start @ data, Some (FileChanged (it_path item) (it_size item) written))
           else
             let pad = padding (it_size item);
                 (rest, e) = tarChunks aborted n' items
             in (start @ data @ (if 0 < pad then [replicate pad 0] else []) @ rest, e))"

section \<open>A reader of the format\<close>

definition tar_field :: "nat \<Rightarrow> nat \<Rightarrow> byte list \<Rightarrow> byte list" where
  "tar_field off len h = take len (drop off h)"

definition cstring :: "byte list \<Rightarrow> byte list" where
  "cstring bs = takeWhile (\<lambda>b. b \<noteq> 0) bs"

definition octal_value :: "byte list \<Rightarrow> nat" where
  "octal_value bs = foldl (\<lambda>v b. v * 8 + (unat b - 48)) 0 (takeWhile (\<lambda>b. 48 \<le> unat b \<and> unat b < 56) bs)"

definition header_sum :: "byte list \<Rightarrow> nat" where
  "header_sum h = sum_list (map unat (tar_field 0 148 h)) + 8 * 32 + sum_list (map unat (tar_field 156 356 h))"

text \<open>
  Names, times in seconds and contents; an entry of type \<open>L\<close> holds the name of the next one. \<^const>\<open>None\<close> when a checksum
  is wrong or the archive is cut short.
\<close>

function untar :: "byte list option \<Rightarrow> byte list \<Rightarrow> (byte list \<times> nat \<times> byte list) list option" where
  "untar long bs =
     (if length bs < 512 then None
      else
        let h = take 512 bs;
            sz = octal_value (tar_field 124 12 h);
            contents = take sz (drop 512 bs);
            rest = drop (512 + sz + padding sz) bs
        in if list_all (\<lambda>b. b = 0) h then Some []
           else if octal_value (tar_field 148 8 h) \<noteq> header_sum h \<or> length bs < 512 + sz + padding sz then None
           else if tar_field 156 1 h = [76] then untar (Some contents) rest
           else map_option (\<lambda>es. (case long of Some name \<Rightarrow> name | None \<Rightarrow> cstring (tar_field 0 100 h),
                  octal_value (tar_field 136 12 h), contents) # es) (untar None rest))"
  by pat_completeness auto
termination
  by (relation "measure (\<lambda>(long, bs). length bs)") auto

declare untar.simps [simp del]

section \<open>Octal fields\<close>

primrec octal_digits :: "nat \<Rightarrow> nat \<Rightarrow> string" where
  "octal_digits 0 n = []"
| "octal_digits (Suc k) n = octal_digits k (n div 8) @ [digit_char (n mod 8)]"

lemma slice_pad:
  "slice_last k (pad_start k c s) = replicate (k - length s) c @ drop (length s - k) s"
  by (auto simp: slice_last_def pad_start_def)

lemma octal_digits_eq: "slice_last k (pad_start k (CHR ''0'') (show_radix 8 n)) = octal_digits k n"
proof (induction k arbitrary: n)
  case (Suc k)
  have zero: "digit_char 0 = CHR ''0''"
    by (simp add: zero_char)
  show ?case
  proof (cases "n < 8")
    case True
    have "octal_digits k 0 = replicate k (CHR ''0'')" for k
      by (induction k) (simp_all add: zero replicate_append_same)
    then show ?thesis
      using True by (simp add: slice_pad show_radix.simps [of 8 n])
  next
    case False
    then have s: "show_radix 8 n = show_radix 8 (n div 8) @ [digit_char (n mod 8)]"
      by (subst show_radix.simps) simp
    show ?thesis
      using Suc.IH [of "n div 8"] by (simp add: slice_pad s)
  qed
qed (simp add: slice_pad)

lemma length_octal_digits [simp]: "length (octal_digits k n) = k"
  by (induction k arbitrary: n) simp_all

lemma octal_digits_mod: "octal_digits k (n mod 8 ^ k) = octal_digits k n"
proof (induction k arbitrary: n)
  case (Suc k)
  have "n mod 8 ^ Suc k div 8 = n div 8 mod 8 ^ k"
    by (simp add: mod_mult2_eq)
  moreover have "n mod 8 ^ Suc k mod 8 = n mod 8"
    by (simp add: mod_mult2_eq)
  ultimately show ?case
    using Suc.IH [of "n div 8"] by simp
qed simp

lemma unat_of_char: "unat (of_char c :: byte) = of_char c"
proof -
  have "(of_char c :: byte) = of_nat (of_char c)"
    by (simp add: of_nat_of_char)
  moreover have "of_char c < (256 :: nat)"
    by simp
  ultimately show ?thesis
    by (simp add: unat_of_nat)
qed

lemma octal_digit_byte: "d < 8 \<Longrightarrow> unat (of_char (digit_char d) :: byte) = 48 + d"
  by (simp add: unat_of_char of_char_digit_char)

lemma octal_digits_ascii: "is_ascii (octal_digits k n)"
  by (induction k arbitrary: n) (auto simp: is_ascii_def of_char_digit_char)

lemma octal_value_digits: "octal_value (map of_char (octal_digits k n) @ 0 # bs) = n mod 8 ^ k"
proof -
  have "takeWhile (\<lambda>b. 48 \<le> unat b \<and> unat (b :: byte) < 56) (map of_char (octal_digits k n) @ 0 # bs) = map of_char (octal_digits k n)"
  proof -
    have "\<forall>b\<in>set (map of_char (octal_digits k n)). 48 \<le> unat (b :: byte) \<and> unat b < 56"
      by (induction k arbitrary: n) (auto simp: octal_digit_byte)
    then show ?thesis
      by (subst takeWhile_append2) auto
  qed
  moreover have "foldl (\<lambda>v b. v * 8 + (unat (b :: byte) - 48)) 0 (map of_char (octal_digits k n)) = n mod 8 ^ k"
  proof (induction k arbitrary: n)
    case (Suc k)
    then show ?case
      by (simp add: octal_digit_byte mod_mult2_eq)
  qed simp
  ultimately show ?thesis
    by (simp add: octal_value_def)
qed

section \<open>Fields of a header\<close>

lemma length_put_field: "off + len \<le> length buf \<Longrightarrow> length (put_field off len v buf) = length buf"
  by (simp add: put_field_def Let_def)

lemma tar_field_put_other:
  assumes "off + len \<le> length buf" "off + len \<le> o' \<or> o' + l \<le> off"
  shows "tar_field o' l (put_field off len v buf) = tar_field o' l buf"
proof -
  define b where "b = take len (utf8 v)"
  have b: "length b \<le> len"
    by (simp add: b_def)
  from assms(2) show ?thesis
  proof
    assume "off + len \<le> o'"
    then have "drop o' (take off buf @ b @ drop (off + length b) buf) = drop o' buf"
      using assms(1) b by simp
    then show ?thesis
      by (simp add: tar_field_def put_field_def Let_def flip: b_def)
  next
    assume "o' + l \<le> off"
    then have "take l (drop o' (take off buf @ b @ drop (off + length b) buf)) = take l (drop o' buf)"
      using assms(1) by (simp add: drop_take)
    then show ?thesis
      by (simp add: tar_field_def put_field_def Let_def flip: b_def)
  qed
qed

lemma tar_field_put_same:
  assumes "off + len \<le> length buf"
  shows "tar_field off len (put_field off len v buf) = take len (utf8 v) @ drop (length (take len (utf8 v))) (tar_field off len buf)"
  using assms by (simp add: tar_field_def put_field_def Let_def take_drop add.commute)

lemma tar_field_zeros: "o' + l \<le> n \<Longrightarrow> tar_field o' l (replicate n 0) = replicate l 0"
  by (simp add: tar_field_def)

lemma octal_bytes: "0 \<le> n \<Longrightarrow> utf8 (octal n (Suc k)) = map of_char (octal_digits k (nat n)) @ [0]"
  using octal_digits_ascii [of k "nat n"]
  by (simp add: octal_def show_octal_def octal_digits_eq utf8_append utf8_ascii) (simp add: utf8_def utf8_char_def)

lemmas put_field_simps = length_put_field tar_field_put_other tar_field_put_same tar_field_zeros

lemma length_header_fields: "length (header_fields name n mt ty) = 512"
  by (simp add: header_fields_def BLOCK_def length_put_field)

lemma header_fields_fields:
  "tar_field 0 100 (header_fields name n mt ty) = take 100 (utf8 name) @ replicate (100 - length (utf8 name)) 0"
  "tar_field 124 12 (header_fields name n mt ty) = map of_char (octal_digits 11 n) @ [0]"
  "0 \<le> mt \<Longrightarrow> tar_field 136 12 (header_fields name n mt ty) = map of_char (octal_digits 11 (nat (mt div 1000))) @ [0]"
  "tar_field 148 8 (header_fields name n mt ty) = [32, 32, 32, 32, 32, 32, 32, 32]"
  "is_ascii [ty] \<Longrightarrow> tar_field 156 1 (header_fields name n mt ty) = [of_char ty]"
  "tar_field 257 6 (header_fields name n mt ty) = [117, 115, 116, 97, 114, 0]"
  using octal_bytes [of "int n" 11] octal_bytes [of "mt div 1000" 11]
  by (simp_all add: header_fields_def BLOCK_def put_field_simps utf8_ascii is_ascii_def)

lemma header_split:
  assumes "length h = 512"
  shows "h = tar_field 0 148 h @ tar_field 148 8 h @ tar_field 156 356 h"
proof -
  have "h = take 148 h @ take 8 (drop 148 h) @ drop 8 (drop 148 h)"
    by (simp only: append_take_drop_id)
  then show ?thesis
    using assms by (simp add: tar_field_def)
qed

lemma header_sum_pre: "sum_list (map unat (header_fields name n mt ty)) = header_sum (header_fields name n mt ty)"
proof -
  let ?h = "header_fields name n mt ty"
  have "sum_list (map unat ?h) = sum_list (map unat (tar_field 0 148 ?h @ tar_field 148 8 ?h @ tar_field 156 356 ?h))"
    using header_split [OF length_header_fields, of name n mt ty] by simp
  then show ?thesis
    by (simp add: header_fields_fields(4) header_sum_def)
qed

lemma header_sum_less: "header_sum (header_fields name n mt ty) < 8 ^ 6"
proof -
  have "sum_list (map unat bs) \<le> 256 * length bs" for bs :: "byte list"
  proof (induction bs)
    case (Cons b bs)
    have "unat b < 256"
      using unsigned_less [of b, where ?'a = nat] by simp
    with Cons show ?case by simp
  qed simp
  from this [of "header_fields name n mt ty"] show ?thesis
    by (simp add: header_sum_pre length_header_fields)
qed

lemma tar_header_eq:
  "tar_header name n mt ty = put_field 148 8 (octal_digits 6 (header_sum (header_fields name n mt ty)) @ [CHR 0x00, CHR '' '']) (header_fields name n mt ty)"
  by (simp add: tar_header_def Let_def header_sum_pre octal_digits_eq)

lemma length_tar_header [simp]: "length (tar_header name n mt ty) = 512"
  by (simp add: tar_header_eq length_put_field length_header_fields)

lemma tar_header_other:
  "156 \<le> o' \<or> o' + l \<le> 148 \<Longrightarrow> tar_field o' l (tar_header name n mt ty) = tar_field o' l (header_fields name n mt ty)"
  by (simp add: tar_header_eq tar_field_put_other length_header_fields)

lemma checksum_text: "utf8 (octal_digits 6 m @ [CHR 0x00, CHR '' '']) = map of_char (octal_digits 6 m) @ [0, 32]"
  using octal_digits_ascii [of 6 m] by (simp add: utf8_append utf8_ascii) (simp add: utf8_def utf8_char_def)

lemma tar_header_checks: "octal_value (tar_field 148 8 (tar_header name n mt ty)) = header_sum (tar_header name n mt ty)"
proof -
  have "tar_field 148 8 (tar_header name n mt ty)
      = map of_char (octal_digits 6 (header_sum (header_fields name n mt ty))) @ [0, 32]"
    by (simp add: tar_header_eq tar_field_put_same length_header_fields checksum_text header_fields_fields(4))
  moreover have "header_sum (tar_header name n mt ty) = header_sum (header_fields name n mt ty)"
    by (simp add: header_sum_def tar_header_other)
  ultimately show ?thesis
    using header_sum_less [of name n mt ty] octal_value_digits [of 6 _ "[32]"] by simp
qed

lemma tar_header_fields:
  "tar_field 0 100 (tar_header name n mt ty) = take 100 (utf8 name) @ replicate (100 - length (utf8 name)) 0"
  "octal_value (tar_field 124 12 (tar_header name n mt ty)) = n mod 8 ^ 11"
  "0 \<le> mt \<Longrightarrow> octal_value (tar_field 136 12 (tar_header name n mt ty)) = nat (mt div 1000) mod 8 ^ 11"
  "is_ascii [ty] \<Longrightarrow> tar_field 156 1 (tar_header name n mt ty) = [of_char ty]"
  "\<not> list_all (\<lambda>b. b = 0) (tar_header name n mt ty)"
proof -
  have "117 \<in> set (tar_field 257 6 (tar_header name n mt ty))"
    by (simp add: tar_header_other header_fields_fields)
  then have "117 \<in> set (tar_header name n mt ty)"
    by (auto simp: tar_field_def dest: in_set_takeD in_set_dropD)
  then show "\<not> list_all (\<lambda>b. b = 0) (tar_header name n mt ty)"
    by (force simp: list_all_iff)
qed (simp_all add: tar_header_other header_fields_fields octal_value_digits del: One_nat_def)

section \<open>Reading entries back\<close>

lemma untar_entry:
  assumes "length contents = n" "n < 8 ^ 11" "is_ascii [ty]"
  shows "untar long (tar_header name n mt ty @ contents @ replicate (padding n) 0 @ rest) =
    (if ty = CHR ''L'' then untar (Some contents) rest
     else map_option (\<lambda>es. (case long of Some name \<Rightarrow> name | None \<Rightarrow> cstring (tar_field 0 100 (tar_header name n mt ty)),
            octal_value (tar_field 136 12 (tar_header name n mt ty)), contents) # es) (untar None rest))"
proof -
  have L: "of_char ty = (76 :: byte) \<longleftrightarrow> ty = CHR ''L''"
  proof
    assume "of_char ty = (76 :: byte)"
    then have "of_char ty = (of_char (CHR ''L'') :: nat)"
      using unat_of_char [of ty] by simp
    then show "ty = CHR ''L''"
      by (simp only: of_char_eq_iff)
  qed simp
  show ?thesis
    using assms
    by (subst untar.simps) (simp add: Let_def tar_header_fields tar_header_checks L del: One_nat_def)
qed

lemma untar_end: "untar long (replicate (BLOCK * 2) 0) = Some []"
  by (subst untar.simps) (simp add: BLOCK_def list_all_length)

definition tar_item_ok :: "UploadItem \<Rightarrow> bool" where
  "tar_item_ok item \<longleftrightarrow> it_size item < 8 ^ 11 \<and> 0 \<le> it_lastModified item \<and> it_lastModified item div 1000 < 8 ^ 11
     \<and> CHR 0x00 \<notin> set (it_path item) \<and> length (utf8 (normalizePath (it_path item))) < 8 ^ 11"

definition tar_entry :: "UploadItem \<Rightarrow> byte list \<times> nat \<times> byte list" where
  "tar_entry item = (utf8 (normalizePath (it_path item)), nat (it_lastModified item div 1000), concat (it_chunks item))"

lemma utf8_no_zero: "CHR 0x00 \<notin> set s \<Longrightarrow> 0 \<notin> set (utf8 s)"
proof (induction s)
  case (Cons c s)
  have "0 \<notin> set (utf8_char c)"
  proof
    assume "0 \<in> set (utf8_char c)"
    then have "\<exists>b\<in>set (utf8_char c). unat b = 0"
      by (rule bexI [rotated]) simp
    moreover have "(of_char c :: nat) div 64 < 4"
      by (rule less_mult_imp_div_less) simp
    then have "\<not> 256 dvd 192 + (of_char c :: nat) div 64 mod 256"
      by (intro nat_dvd_not_less) simp_all
    ultimately have "of_char c = (0 :: nat)"
      by (auto simp: utf8_char_def Let_def unat_word_ariths unat_of_nat split: if_splits)
    then have "of_char c = (of_char (CHR 0x00) :: nat)"
      by simp
    then show False
      using Cons.prems by (simp only: of_char_eq_iff) simp
  qed
  with Cons show ?case
    by (auto simp: utf8_def)
qed simp

lemma set_single_slashes: "set (single_slashes s) \<subseteq> set s"
  by (induction s rule: single_slashes.induct) auto

lemma name_no_zero: "CHR 0x00 \<notin> set path \<Longrightarrow> 0 \<notin> set (utf8 (normalizePath path))"
  using set_single_slashes set_dropWhileD by (intro utf8_no_zero) (fastforce simp: normalizePath_def)

lemma cstring_padded: "0 \<notin> set bs \<Longrightarrow> cstring (bs @ replicate k 0) = bs"
  by (cases k) (auto simp: cstring_def takeWhile_tail)

lemma read_file_whole: "read_file aborted n cs = (out, False, n') \<Longrightarrow> out = cs"
  by (induction aborted n cs arbitrary: out n' rule: read_file.induct) (auto split: if_splits prod.splits)

lemma untar_named:
  assumes "tar_item_ok item" "length contents = it_size item"
  defines "name \<equiv> normalizePath (it_path item)"
  shows "untar None (concat (entry_start item) @ contents @ replicate (padding (it_size item)) 0 @ rest)
    = map_option ((#) (utf8 name, nat (it_lastModified item div 1000), contents)) (untar None rest)"
proof -
  have ok: "it_size item < 8 ^ 11" "0 \<le> it_lastModified item" "nat (it_lastModified item div 1000) < 8 ^ 11"
      "0 \<notin> set (utf8 name)" "length (utf8 name) < 8 ^ 11"
    using assms(1) name_no_zero by (auto simp: tar_item_ok_def name_def)
  have ascii: "is_ascii [CHR ''0'']" "is_ascii [CHR ''L'']"
    by (simp_all add: is_ascii_def)
  show ?thesis
  proof (cases "length (utf8 name) \<le> 100")
    case True
    have "cstring (tar_field 0 100 (tar_header name (it_size item) (it_lastModified item) (CHR ''0''))) = utf8 name"
      using True ok(4) by (simp add: tar_header_fields(1) cstring_padded)
    then show ?thesis
      using True ok untar_entry [OF assms(2) ok(1) ascii(1)]
      by (simp add: entry_start_def name_def [symmetric] longNameEntry_def Let_def tar_header_fields(3))
  next
    case False
    then show ?thesis
      using ok untar_entry [OF refl ok(5) ascii(2), of None "''././@LongLink''" 0] untar_entry [OF assms(2) ok(1) ascii(1)]
      by (simp add: entry_start_def name_def [symmetric] longNameEntry_def Let_def tar_header_fields(3))
  qed
qed

section \<open>Properties\<close>


text \<open>
  A file of 8 GiB or more is written without an error, but the eleven octal digits of its header declare another
  size: what a reader takes for the file is cut, and what follows is read as headers.
\<close>

theorem tar_large_file_is_cut:
  assumes "length (concat (it_chunks item)) = it_size item" "8 ^ 11 \<le> it_size item"
  shows "\<exists>out. tarChunks (\<lambda>_. False) n [item] = (out, None)
    \<and> octal_value (tar_field 124 12 (last (entry_start item))) < it_size item"
proof -
  have "read_file (\<lambda>_. False) n cs = (cs, False, n + length cs)" for n cs
    by (induction cs arbitrary: n) simp_all
  then have "\<exists>out. tarChunks (\<lambda>_. False) n [item] = (out, None)"
    using assms(1) by (simp add: Let_def)
  moreover have "it_size item mod 8 ^ 11 < it_size item"
    by (rule less_le_trans [OF _ assms(2)]) simp
  ultimately show ?thesis
    by (simp add: entry_start_def Let_def tar_header_fields(2))
qed

section \<open>Examples\<close>


theorem tar_large_file_is_cut_witness:
  "\<exists>out. tarChunks (\<lambda>_. False) 0 [\<lparr>it_path = ''big'', it_size = 8 ^ 11, it_lastModified = 0, it_chunks = [replicate (8 ^ 11) 0]\<rparr>] = (out, None)"
  using tar_large_file_is_cut [of "\<lparr>it_path = ''big'', it_size = 8 ^ 11, it_lastModified = 0, it_chunks = [replicate (8 ^ 11) 0]\<rparr>" 0]
  by auto

end
