(* ===== verification/Chunk_Bridge.thy ===== *)
theory Chunk_Bridge
  imports Js_Text
begin

text \<open>
  Copying between two hosts (\<open>lib/transfers/remote.ts\<close>): the download pushes chunks into a queue, the upload pulls them
  out, each side waits for the other when the queue is full or empty, and either may fail at any time. An asynchronous
  method is what it does up to its \<open>await\<close> and what it does when the promise it registered has been resolved; a step
  relation interleaves these with the settling of the two transfers and a cancellation.
\<close>

section \<open>The queue\<close>

definition HIGH_WATER_CHUNKS :: nat where "HIGH_WATER_CHUNKS = 8"

text \<open>
  The failure is read for its truth only, and the empty string stands for every false value, the initial \<open>null\<close> among
  them. A resolver is registered or not; a side that waits and has no resolver registered any more can go on.
\<close>

record 'c ChunkBridge =
  br_queue :: "'c list"
  br_ended :: bool
  br_failure :: string
  br_wakeReader :: bool
  br_wakeWriter :: bool

definition newBridge :: "'c ChunkBridge" where
  "newBridge = \<lparr>br_queue = [], br_ended = False, br_failure = [], br_wakeReader = False, br_wakeWriter = False\<rparr>"

definition failed :: "'c ChunkBridge \<Rightarrow> bool" where
  "failed b \<longleftrightarrow> br_failure b \<noteq> []"

definition bridge_wake :: "'c ChunkBridge \<Rightarrow> 'c ChunkBridge" where
  "bridge_wake b = b\<lparr>br_wakeReader := False, br_wakeWriter := False\<rparr>"

definition bridge_end :: "'c ChunkBridge \<Rightarrow> 'c ChunkBridge" where
  "bridge_end b = bridge_wake (b\<lparr>br_ended := True\<rparr>)"

definition bridge_fail :: "string \<Rightarrow> 'c ChunkBridge \<Rightarrow> 'c ChunkBridge" where
  "bridge_fail e b = bridge_wake (b\<lparr>br_failure := e\<rparr>)"

text \<open>\<open>push\<close> up to its loop, and one turn of the loop: whether the push returns, throws or waits.\<close>

datatype turn = Returns | Throws | Waits

definition bridge_push :: "'c \<Rightarrow> 'c ChunkBridge \<Rightarrow> 'c ChunkBridge option" where
  "bridge_push chunk b =
     (if failed b then None else Some (b\<lparr>br_queue := br_queue b @ [chunk], br_wakeReader := False\<rparr>))"

definition bridge_room :: "'c ChunkBridge \<Rightarrow> turn \<times> 'c ChunkBridge" where
  "bridge_room b =
     (if HIGH_WATER_CHUNKS \<le> length (br_queue b) \<and> \<not> failed b \<and> \<not> br_ended b then (Waits, b\<lparr>br_wakeWriter := True\<rparr>)
      else (if failed b then Throws else Returns, b))"

text \<open>One turn of the loop of \<open>next\<close>.\<close>

datatype 'c pulled = Chunk 'c | EndOfStream | NextThrows | NextWaits

definition bridge_next :: "'c ChunkBridge \<Rightarrow> 'c pulled \<times> 'c ChunkBridge" where
  "bridge_next b =
     (if failed b then (NextThrows, b)
      else
        (case br_queue b of
           c # cs \<Rightarrow> (Chunk c, b\<lparr>br_queue := cs, br_wakeWriter := False\<rparr>)
         | [] \<Rightarrow> if br_ended b then (EndOfStream, b) else (NextWaits, b\<lparr>br_wakeReader := True\<rparr>)))"

section \<open>A copy\<close>

text \<open>
  The side that reads the source writes into the queue. Each transfer is running, waits in the queue, is about to have its
  outcome handled, or has settled; the outcome is \<^const>\<open>None\<close> or the error.
\<close>

datatype side = Running | Waiting | Finishing "string option" | Settled "string option"

record 'c Copy =
  cp_bridge :: "'c ChunkBridge"
  cp_source :: "'c list"
  cp_reading :: side
  cp_writing :: side
  cp_written :: "'c list"
  cp_aborted :: bool

definition copy_start :: "'c list \<Rightarrow> 'c Copy" where
  "copy_start chunks =
     \<lparr>cp_bridge = newBridge, cp_source = chunks, cp_reading = Running, cp_writing = Running, cp_written = [], cp_aborted = False\<rparr>"

definition settled :: "'c Copy \<Rightarrow> bool" where
  "settled s \<longleftrightarrow> (\<exists>r w. cp_reading s = Settled r \<and> cp_writing s = Settled w)"

text \<open>
  A transfer rejects with some error of the set given, whether the connection failed or a callback threw; that the error
  is the thrown one is not relied on.
\<close>

inductive copy_step :: "(string \<Rightarrow> bool) \<Rightarrow> 'c Copy \<Rightarrow> 'c Copy \<Rightarrow> bool" for E where
  pushes: "cp_reading s = Running \<Longrightarrow> cp_source s = c # cs \<Longrightarrow> bridge_push c (cp_bridge s) = Some b \<Longrightarrow> bridge_room b = (t, b') \<Longrightarrow>
    t \<noteq> Throws \<Longrightarrow>
    copy_step E s (s\<lparr>cp_bridge := b', cp_source := cs, cp_reading := (if t = Waits then Waiting else Running)\<rparr>)"
| push_throws: "cp_reading s = Running \<Longrightarrow> cp_source s = c # cs \<Longrightarrow> bridge_push c (cp_bridge s) = None \<Longrightarrow> E e \<Longrightarrow>
    copy_step E s (s\<lparr>cp_reading := Finishing (Some e)\<rparr>)"
| push_resumes: "cp_reading s = Waiting \<Longrightarrow> \<not> br_wakeWriter (cp_bridge s) \<Longrightarrow> bridge_room (cp_bridge s) = (t, b) \<Longrightarrow> E e \<Longrightarrow>
    copy_step E s (s\<lparr>cp_bridge := b,
      cp_reading := (case t of Returns \<Rightarrow> Running | Waits \<Rightarrow> Waiting | Throws \<Rightarrow> Finishing (Some e))\<rparr>)"
| source_ends: "cp_reading s = Running \<Longrightarrow> cp_source s = [] \<Longrightarrow> copy_step E s (s\<lparr>cp_reading := Finishing None\<rparr>)"
| source_fails: "cp_reading s = Running \<Longrightarrow> E e \<Longrightarrow> copy_step E s (s\<lparr>cp_reading := Finishing (Some e)\<rparr>)"
| reading_settles: "cp_reading s = Finishing r \<Longrightarrow>
    copy_step E s (s\<lparr>cp_bridge := (case r of None \<Rightarrow> bridge_end (cp_bridge s) | Some e \<Rightarrow> bridge_fail e (cp_bridge s)),
      cp_reading := Settled r\<rparr>)"
| takes: "cp_writing s = Running \<or> cp_writing s = Waiting \<and> \<not> br_wakeReader (cp_bridge s) \<Longrightarrow>
    bridge_next (cp_bridge s) = (Chunk c, b) \<Longrightarrow>
    copy_step E s (s\<lparr>cp_bridge := b, cp_writing := Running, cp_written := cp_written s @ [c]\<rparr>)"
| drains: "cp_writing s = Running \<or> cp_writing s = Waiting \<and> \<not> br_wakeReader (cp_bridge s) \<Longrightarrow>
    bridge_next (cp_bridge s) = (EndOfStream, b) \<Longrightarrow> w = None \<or> w = Some e \<and> E e \<Longrightarrow>
    copy_step E s (s\<lparr>cp_bridge := b, cp_writing := Finishing w\<rparr>)"
| next_throws: "cp_writing s = Running \<or> cp_writing s = Waiting \<and> \<not> br_wakeReader (cp_bridge s) \<Longrightarrow>
    bridge_next (cp_bridge s) = (NextThrows, b) \<Longrightarrow> E e \<Longrightarrow>
    copy_step E s (s\<lparr>cp_bridge := b, cp_writing := Finishing (Some e)\<rparr>)"
| next_waits: "cp_writing s = Running \<or> cp_writing s = Waiting \<and> \<not> br_wakeReader (cp_bridge s) \<Longrightarrow>
    bridge_next (cp_bridge s) = (NextWaits, b) \<Longrightarrow>
    copy_step E s (s\<lparr>cp_bridge := b, cp_writing := Waiting\<rparr>)"
| destination_fails: "cp_writing s = Running \<Longrightarrow> E e \<Longrightarrow> copy_step E s (s\<lparr>cp_writing := Finishing (Some e)\<rparr>)"
| writing_settles: "cp_writing s = Finishing w \<Longrightarrow>
    copy_step E s (s\<lparr>cp_bridge := (case w of None \<Rightarrow> cp_bridge s | Some e \<Rightarrow> bridge_fail e (cp_bridge s)), cp_writing := Settled w\<rparr>)"

text \<open>The listener for a cancellation fires once and is removed when both transfers have settled.\<close>

inductive abort_step :: "'c Copy \<Rightarrow> 'c Copy \<Rightarrow> bool" where
  aborts: "\<not> cp_aborted s \<Longrightarrow> \<not> settled s \<Longrightarrow>
    abort_step s (s\<lparr>cp_bridge := bridge_fail ''cancelled'' (cp_bridge s), cp_aborted := True\<rparr>)"

inductive reachable_copy :: "(string \<Rightarrow> bool) \<Rightarrow> 'c list \<Rightarrow> 'c Copy \<Rightarrow> bool" for E chunks where
  start: "reachable_copy E chunks (copy_start chunks)"
| goes_on: "reachable_copy E chunks s \<Longrightarrow> copy_step E s s' \<Longrightarrow> reachable_copy E chunks s'"
| cancelled: "reachable_copy E chunks s \<Longrightarrow> abort_step s s' \<Longrightarrow> reachable_copy E chunks s'"

section \<open>The outcome\<close>

definition contains_text :: "string \<Rightarrow> string \<Rightarrow> bool" where
  "contains_text pat s \<longleftrightarrow> list_ex (\<lambda>k. take (length pat) (drop k s) = pat) [0..<length s + 1]"

definition asError :: "string \<Rightarrow> bool \<Rightarrow> string" where
  "asError message isDir =
     (let m = map (\<lambda>c. if is_upper c then char_of (of_char c + 32 :: nat) else c) message in
      if isDir \<and> (contains_text ''not found'' m \<or> contains_text ''no such file'' m \<or> contains_text ''127'' m)
      then message @ '' -- copying a directory between hosts uses tar on both ends, and one of them does not appear to have it.''
      else message)"

definition copy_result :: "bool \<Rightarrow> 'c Copy \<Rightarrow> (string + 'c list) option" where
  "copy_result isDir s =
     (case (cp_reading s, cp_writing s) of
        (Settled (Some e), Settled _) \<Rightarrow> Some (Inl (asError e isDir))
      | (Settled None, Settled (Some e)) \<Rightarrow> Some (Inl (asError e isDir))
      | (Settled None, Settled None) \<Rightarrow> Some (Inr (cp_written s))
      | _ \<Rightarrow> None)"

definition basename :: "string \<Rightarrow> string" where
  "basename path =
     (let trimmed = rev (dropWhile (\<lambda>c. c = CHR ''/'') (rev path));
          base = rev (takeWhile (\<lambda>c. c \<noteq> CHR ''/'') (rev trimmed))
      in if base \<noteq> [] then base else trimmed)"

definition joinPath :: "string \<Rightarrow> string \<Rightarrow> string" where
  "joinPath dir name = (if dir \<noteq> [] \<and> List.last dir = CHR ''/'' then dir @ name else dir @ ''/'' @ name)"

section \<open>Nothing is lost\<close>

lemmas bridge_defs = bridge_wake_def bridge_end_def bridge_fail_def bridge_push_def bridge_room_def bridge_next_def failed_def
  HIGH_WATER_CHUNKS_def

definition copy_inv :: "'c list \<Rightarrow> 'c Copy \<Rightarrow> bool" where
  "copy_inv chunks s \<longleftrightarrow>
     cp_written s @ br_queue (cp_bridge s) @ cp_source s = chunks
     \<and> (cp_reading s \<in> {Finishing None, Settled None} \<longrightarrow> cp_source s = [])
     \<and> (br_ended (cp_bridge s) \<longrightarrow> cp_reading s = Settled None)
     \<and> (cp_writing s \<in> {Finishing None, Settled None} \<longrightarrow> br_queue (cp_bridge s) = [] \<and> br_ended (cp_bridge s))
     \<and> length (br_queue (cp_bridge s)) \<le> HIGH_WATER_CHUNKS
     \<and> (cp_reading s = Running \<longrightarrow> length (br_queue (cp_bridge s)) < HIGH_WATER_CHUNKS)"

lemma copy_inv_start: "copy_inv chunks (copy_start chunks)"
  by (simp add: copy_inv_def copy_start_def newBridge_def bridge_defs)

lemma copy_inv_step: "copy_step E s s' \<Longrightarrow> copy_inv chunks s \<Longrightarrow> copy_inv chunks s'"
proof (induction rule: copy_step.induct)
  case (pushes s c cs b t b')
  then show ?case
    by (auto simp: copy_inv_def bridge_defs split: if_splits)
next
  case (push_resumes s t b e)
  then show ?case
    by (auto simp: copy_inv_def bridge_defs split: if_splits)
qed (auto simp: copy_inv_def bridge_defs split: if_splits list.splits option.splits)

lemma copy_inv_abort: "abort_step s s' \<Longrightarrow> copy_inv chunks s \<Longrightarrow> copy_inv chunks s'"
  by (induction rule: abort_step.induct) (auto simp: copy_inv_def bridge_defs)

lemma copy_inv_reachable: "reachable_copy E chunks s \<Longrightarrow> copy_inv chunks s"
  by (induction rule: reachable_copy.induct) (auto intro: copy_inv_start copy_inv_step copy_inv_abort)

section \<open>Nobody is left waiting\<close>

definition wake_inv :: "'c Copy \<Rightarrow> bool" where
  "wake_inv s \<longleftrightarrow>
     (let b = cp_bridge s in
        (cp_writing s = Waiting \<longrightarrow> br_wakeReader b = (br_queue b = [] \<and> \<not> br_ended b \<and> \<not> failed b))
      \<and> (cp_reading s = Waiting \<longrightarrow> br_wakeWriter b = (HIGH_WATER_CHUNKS \<le> length (br_queue b) \<and> \<not> br_ended b \<and> \<not> failed b))
      \<and> (cp_reading s = Settled None \<longrightarrow> br_ended b)
      \<and> (\<forall>e. cp_reading s = Settled (Some e) \<or> cp_writing s = Settled (Some e) \<longrightarrow> failed b)
      \<and> (\<forall>e. cp_reading s = Finishing (Some e) \<or> cp_writing s = Finishing (Some e) \<longrightarrow> e \<noteq> []))"

lemma wake_inv_start: "wake_inv (copy_start chunks)"
  by (simp add: wake_inv_def copy_start_def)

lemma wake_inv_step:
  assumes "\<And>e. E e \<Longrightarrow> e \<noteq> []"
  shows "copy_step E s s' \<Longrightarrow> copy_inv chunks s \<Longrightarrow> wake_inv s \<Longrightarrow> wake_inv s'"
proof (induction rule: copy_step.induct)
  case (pushes s c cs b t b')
  then show ?case
    by (auto simp: copy_inv_def wake_inv_def Let_def bridge_defs split: if_splits)
next
  case (push_resumes s t b e)
  then show ?case
    using assms by (auto simp: copy_inv_def wake_inv_def Let_def bridge_defs split: if_splits)
next
  case (takes s c b)
  then show ?case
    by (auto simp: copy_inv_def wake_inv_def Let_def bridge_defs split: if_splits list.splits)
qed (use assms in \<open>auto simp: copy_inv_def wake_inv_def Let_def bridge_defs split: if_splits list.splits option.splits\<close>)

lemma wake_inv_abort: "abort_step s s' \<Longrightarrow> wake_inv s \<Longrightarrow> wake_inv s'"
  by (induction rule: abort_step.induct) (auto simp: wake_inv_def Let_def bridge_defs)

lemma wake_inv_reachable:
  "reachable_copy E chunks s \<Longrightarrow> (\<And>e. E e \<Longrightarrow> e \<noteq> []) \<Longrightarrow> wake_inv s"
  by (induction rule: reachable_copy.induct)
     (blast intro: wake_inv_start wake_inv_step wake_inv_abort copy_inv_reachable)+

text \<open>Whoever has not settled can go on, or the other side can.\<close>

lemma reading_goes_on:
  assumes "cp_reading s = Running \<or> cp_reading s = Waiting \<and> \<not> br_wakeWriter (cp_bridge s) \<or> (\<exists>r. cp_reading s = Finishing r)" "E e"
  shows "\<exists>t. copy_step E s t"
  using assms(1)
proof (elim disjE conjE exE)
  assume "cp_reading s = Running"
  then show ?thesis
    using source_fails assms(2) by blast
next
  assume "cp_reading s = Waiting" "\<not> br_wakeWriter (cp_bridge s)"
  then show ?thesis
    using push_resumes [of s _ _ E e] assms(2) by (cases "bridge_room (cp_bridge s)") blast
qed (blast intro: reading_settles)

lemma writing_goes_on:
  assumes "cp_writing s = Running \<or> cp_writing s = Waiting \<and> \<not> br_wakeReader (cp_bridge s) \<or> (\<exists>w. cp_writing s = Finishing w)" "E e"
  shows "\<exists>t. copy_step E s t"
proof (cases "\<exists>w. cp_writing s = Finishing w")
  case False
  obtain r b where "bridge_next (cp_bridge s) = (r, b)"
    by force
  then show ?thesis
    using False assms by (cases r) (blast intro: takes drains next_throws next_waits)+
qed (blast intro: writing_settles)

lemma copy_progress:
  assumes "copy_inv chunks s" "wake_inv s" "\<not> settled s" "E e"
  shows "\<exists>t. copy_step E s t"
proof (rule ccontr)
  assume stuck: "\<not> ?thesis"
  then have reading: "cp_reading s = Waiting \<and> br_wakeWriter (cp_bridge s) \<or> (\<exists>r. cp_reading s = Settled r)"
    using reading_goes_on [of s E e] assms(4) by (cases "cp_reading s") auto
  have writing: "cp_writing s = Waiting \<and> br_wakeReader (cp_bridge s) \<or> (\<exists>w. cp_writing s = Settled w)"
    using stuck writing_goes_on [of s E e] assms(4) by (cases "cp_writing s") auto
  show False
    using reading writing assms(1-3)
    by (elim disjE exE conjE; cases "cp_reading s"; cases "cp_writing s")
       (auto simp: settled_def wake_inv_def copy_inv_def Let_def HIGH_WATER_CHUNKS_def)
qed

fun reading_rank :: "side \<Rightarrow> nat" where
  "reading_rank Waiting = 3"
| "reading_rank Running = 2"
| "reading_rank (Finishing _) = 1"
| "reading_rank (Settled _) = 0"

fun writing_rank :: "side \<Rightarrow> nat" where
  "writing_rank Running = 3"
| "writing_rank Waiting = 2"
| "writing_rank (Finishing _) = 1"
| "writing_rank (Settled _) = 0"

definition copy_measure :: "'c Copy \<Rightarrow> nat" where
  "copy_measure s = 4 * length (cp_source s) + 2 * length (br_queue (cp_bridge s))
     + reading_rank (cp_reading s) + writing_rank (cp_writing s) + (if cp_aborted s then 0 else 1)"

lemma copy_measure_step: "copy_step E s s' \<Longrightarrow> wake_inv s \<Longrightarrow> copy_measure s' < copy_measure s"
proof (induction rule: copy_step.induct)
  case (pushes s c cs b t b')
  then show ?case
    by (auto simp: copy_measure_def bridge_defs split: if_splits)
next
  case (push_resumes s t b e)
  then show ?case
    by (auto simp: copy_measure_def wake_inv_def Let_def bridge_defs split: if_splits)
next
  case (takes s c b)
  then show ?case
    by (auto simp: copy_measure_def bridge_defs split: if_splits list.splits)
next
  case (next_waits s b)
  then show ?case
    by (auto simp: copy_measure_def wake_inv_def Let_def bridge_defs split: if_splits list.splits)
qed (auto simp: copy_measure_def bridge_defs split: if_splits list.splits option.splits)

lemma copy_measure_abort: "abort_step s s' \<Longrightarrow> copy_measure s' < copy_measure s"
  by (induction rule: abort_step.induct) (simp add: copy_measure_def bridge_defs)

text \<open>Every run from here, however it goes on and whether or not it is cancelled, comes to an end with both sides settled.\<close>

inductive copy_ends :: "(string \<Rightarrow> bool) \<Rightarrow> 'c Copy \<Rightarrow> bool" for E where
  over: "settled s \<Longrightarrow> copy_ends E s"
| onward: "\<exists>t. copy_step E s t \<Longrightarrow> (\<And>t. copy_step E s t \<or> abort_step s t \<Longrightarrow> copy_ends E t) \<Longrightarrow> copy_ends E s"

section \<open>Properties\<close>

text \<open>
  C34. A copy that reports success wrote exactly the chunks of the source, in order, however the two transfers interleaved;
  errors of any kind and cancellations on the way cannot make it report a part.
\<close>

theorem copy_delivers_source:
  assumes "reachable_copy E chunks s" "copy_result isDir s = Some (Inr written)"
  shows "written = chunks"
  using copy_inv_reachable [OF assms(1)] assms(2)
  by (auto simp: copy_inv_def copy_result_def split: side.splits option.splits)

text \<open>
  A copy never holds more than eight chunks in memory, whatever the size of the source and the speed of either side.
\<close>

theorem copy_queue_bounded:
  assumes "reachable_copy E chunks s"
  shows "length (br_queue (cp_bridge s)) \<le> 8"
  using copy_inv_reachable [OF assms] by (simp add: copy_inv_def HIGH_WATER_CHUNKS_def)

text \<open>
  C35. A copy always ends: from every reachable state every run reaches, after finitely many steps and without one side
  being left waiting for the other, a state in which both transfers have settled, provided that errors are not false in
  the sense of JavaScript.
\<close>

theorem copy_always_ends:
  assumes "reachable_copy E chunks s" "\<And>e. E e \<Longrightarrow> e \<noteq> []" "E e"
  shows "copy_ends E s"
  using assms(1)
proof (induction "copy_measure s" arbitrary: s rule: less_induct)
  case less
  have inv: "copy_inv chunks s" "wake_inv s"
    using less.prems copy_inv_reachable wake_inv_reachable [OF less.prems assms(2)] by blast+
  show ?case
  proof (cases "settled s")
    case False
    have "copy_ends E t" if "copy_step E s t \<or> abort_step s t" for t
      using that less copy_measure_step [OF _ inv(2)] copy_measure_abort by (blast intro: reachable_copy.intros)
    then show ?thesis
      using copy_progress [of chunks s E e] inv False assms(3) by (blast intro: onward)
  qed (rule over)
qed

text \<open>
  An error that is false in the sense of JavaScript, an empty string say, is not seen by the side that waits: it registers
  again and nothing is left to wake it.
\<close>

theorem copy_hangs_on_a_false_error:
  "\<exists>s. reachable_copy (\<lambda>_. True) [] s \<and> \<not> settled s \<and> (\<nexists>t. copy_step (\<lambda>_. True) s t)"
proof -
  let ?E = "\<lambda>_. True" and ?B = "newBridge\<lparr>br_wakeReader := True\<rparr> :: 'a ChunkBridge"
  let ?s1 = "(copy_start [])\<lparr>cp_bridge := ?B, cp_writing := Waiting\<rparr> :: 'a Copy"
  let ?s2 = "?s1\<lparr>cp_reading := Finishing (Some [])\<rparr>"
  let ?s3 = "?s2\<lparr>cp_bridge := bridge_fail [] ?B, cp_reading := Settled (Some [])\<rparr>"
  let ?s4 = "?s3\<lparr>cp_bridge := ?B, cp_writing := Waiting\<rparr>"
  have "reachable_copy ?E [] ?s1"
    by (rule goes_on [OF start next_waits]) (simp_all add: copy_start_def newBridge_def bridge_defs)
  then have "reachable_copy ?E [] ?s2"
    by (rule goes_on [OF _ source_fails]) (simp_all add: copy_start_def)
  moreover have "copy_step ?E ?s2 ?s3"
    using reading_settles [of ?s2 "Some []" ?E] by simp
  ultimately have "reachable_copy ?E [] ?s3"
    by (rule goes_on)
  then have "reachable_copy ?E [] ?s4"
    by (rule goes_on [OF _ next_waits]) (simp_all add: newBridge_def bridge_defs)
  moreover have "\<nexists>t. copy_step ?E ?s4 t"
    by (auto elim!: copy_step.cases)
  moreover have "\<not> settled ?s4"
    by (simp add: settled_def)
  ultimately show ?thesis
    by blast
qed

section \<open>Examples\<close>

definition example_copied :: "nat Copy" where
  "example_copied = \<lparr>cp_bridge = newBridge\<lparr>br_ended := True\<rparr>, cp_source = [], cp_reading = Settled None, cp_writing = Settled None,
     cp_written = [1], cp_aborted = False\<rparr>"

lemma example_copy: "reachable_copy E [1] example_copied"
proof -
  let ?b = "newBridge\<lparr>br_queue := [1 :: nat]\<rparr>"
  let ?s1 = "(copy_start [1])\<lparr>cp_bridge := ?b, cp_source := [], cp_reading := Running\<rparr>"
  let ?s2 = "?s1\<lparr>cp_bridge := newBridge, cp_writing := Running, cp_written := [1]\<rparr>"
  let ?s3 = "?s2\<lparr>cp_reading := Finishing None\<rparr>"
  let ?s4 = "?s3\<lparr>cp_bridge := newBridge\<lparr>br_ended := True\<rparr>, cp_reading := Settled None\<rparr>"
  let ?s5 = "?s4\<lparr>cp_bridge := newBridge\<lparr>br_ended := True\<rparr>, cp_writing := Finishing None\<rparr>"
  have "copy_step E (copy_start [1]) ?s1"
    using pushes [of "copy_start [1]" 1 "[]" ?b Returns ?b E] by (simp add: copy_start_def newBridge_def bridge_defs)
  then have "reachable_copy E [1] ?s1"
    by (rule goes_on [OF start])
  moreover have "copy_step E ?s1 ?s2"
    using takes [of ?s1 1 newBridge E] by (simp add: copy_start_def newBridge_def bridge_defs)
  ultimately have "reachable_copy E [1] ?s2"
    by (rule goes_on)
  then have "reachable_copy E [1] ?s3"
    by (rule goes_on [OF _ source_ends]) (simp_all add: copy_start_def)
  moreover have "copy_step E ?s3 ?s4"
    using reading_settles [of ?s3 None E] by (simp add: newBridge_def bridge_defs)
  ultimately have "reachable_copy E [1] ?s4"
    by (rule goes_on)
  moreover have "copy_step E ?s4 ?s5"
    using drains [of ?s4 _ None undefined E] by (simp add: newBridge_def bridge_defs)
  ultimately have "reachable_copy E [1] ?s5"
    by (rule goes_on)
  moreover have "copy_step E ?s5 example_copied"
    using writing_settles [of ?s5 None E] by (simp add: copy_start_def example_copied_def)
  ultimately show ?thesis
    by (rule goes_on)
qed

theorem copy_delivers_source_witness: "copy_result False example_copied = Some (Inr [1]) \<and> cp_written example_copied = [1]"
proof -
  have result: "copy_result False example_copied = Some (Inr (cp_written example_copied))"
    by (simp add: copy_result_def example_copied_def)
  with copy_delivers_source [OF example_copy [of "\<lambda>_. True"] result] show ?thesis
    by simp
qed

theorem copy_queue_bounded_witness: "length (br_queue (cp_bridge example_copied)) \<le> 8"
  by (rule copy_queue_bounded [OF example_copy [of "\<lambda>_. True"]])

theorem copy_always_ends_witness: "copy_ends (\<lambda>e. e = ''connection lost'') (copy_start [1, 2, 3 :: nat])"
  by (rule copy_always_ends [OF start, where e = "''connection lost''"]) simp_all

end
