(* ===== verification/Auto_Sync.thy ===== *)
theory Auto_Sync
  imports Vault_Sync
begin

text \<open>
  When the vault syncs (\<open>lib/vault/auto-sync.ts\<close>): at most one sync runs, whoever asks meanwhile is handed the running one,
  and a caller that has just written first waits for it. A step relation interleaves the triggers, the writers and the
  three points at which a sync settles: its outcome, the clearing of \<open>inFlight\<close>, and a waiting caller going on.
\<close>

section \<open>The module\<close>

text \<open>
  A running sync is known by the time it began, the number of the step; the flag says that its outcome is in and
  \<open>inFlight\<close> not yet cleared. Answers pair the time of a call of \<open>pushLocalChange\<close> with the sync it was handed.
\<close>

record AutoSync =
  as_now :: nat
  as_unlocked :: bool
  as_inFlight :: "(nat \<times> bool) option"
  as_revision :: nat
  as_waiting :: "(nat \<times> nat) list"
  as_answers :: "(nat \<times> nat option) list"

definition syncNow :: "AutoSync \<Rightarrow> nat option \<times> AutoSync" where
  "syncNow s =
     (case as_inFlight s of
        Some (began, _) \<Rightarrow> (Some began, s)
      | None \<Rightarrow>
          if \<not> as_unlocked s then (None, s)
          else (Some (as_now s), s\<lparr>as_inFlight := Some (as_now s, False)\<rparr>))"

text \<open>\<open>pushLocalChange\<close> up to its \<open>await\<close>, and after it.\<close>

definition answer_push :: "nat \<Rightarrow> AutoSync \<Rightarrow> AutoSync" where
  "answer_push called s = (let (sync, s') = syncNow s in s'\<lparr>as_answers := as_answers s' @ [(called, sync)]\<rparr>)"

definition pushLocalChange :: "AutoSync \<Rightarrow> AutoSync" where
  "pushLocalChange s =
     (case as_inFlight s of
        Some (began, _) \<Rightarrow> s\<lparr>as_waiting := as_waiting s @ [(as_now s, began)]\<rparr>
      | None \<Rightarrow> answer_push (as_now s) s)"

text \<open>The outcome of the running sync; \<^const>\<open>None\<close> when it threw.\<close>

definition sync_outcome :: "SyncStatus option \<Rightarrow> AutoSync \<Rightarrow> AutoSync" where
  "sync_outcome status s =
     (case as_inFlight s of
        Some (began, False) \<Rightarrow>
          s\<lparr>as_inFlight := Some (began, True),
            as_revision := as_revision s + (case status of None \<Rightarrow> 0 | Some r \<Rightarrow> if r = UpToDate then 0 else 1)\<rparr>
      | _ \<Rightarrow> s)"

definition start_module :: AutoSync where
  "start_module = \<lparr>as_now = 0, as_unlocked = False, as_inFlight = None, as_revision = 0, as_waiting = [], as_answers = []\<rparr>"

definition tick :: "AutoSync \<Rightarrow> AutoSync" where
  "tick s = s\<lparr>as_now := as_now s + 1\<rparr>"

text \<open>Unlocking triggers a sync; so do focus, visibility, the connection coming back and the timer.\<close>

inductive auto_step :: "AutoSync \<Rightarrow> AutoSync \<Rightarrow> bool" where
  unlocks: "auto_step s (tick (snd (syncNow (s\<lparr>as_unlocked := True\<rparr>))))"
| locks: "auto_step s (tick (s\<lparr>as_unlocked := False\<rparr>))"
| triggers: "as_unlocked s \<Longrightarrow> auto_step s (tick (snd (syncNow s)))"
| pushes: "auto_step s (tick (pushLocalChange s))"
| comes_back: "as_inFlight s = Some (began, False) \<Longrightarrow> auto_step s (tick (sync_outcome status s))"
| clears: "as_inFlight s = Some (began, True) \<Longrightarrow> auto_step s (tick (s\<lparr>as_inFlight := None\<rparr>))"
| resumes: "as_waiting s = before @ (called, began) # after \<Longrightarrow> map_option fst (as_inFlight s) \<noteq> Some began \<Longrightarrow>
    auto_step s (tick (answer_push called (s\<lparr>as_waiting := before @ after\<rparr>)))"

section \<open>Freshness\<close>

definition fresh_inv :: "AutoSync \<Rightarrow> bool" where
  "fresh_inv s \<longleftrightarrow>
     (\<forall>called began. (called, Some began) \<in> set (as_answers s) \<longrightarrow> called \<le> began)
     \<and> (\<forall>called awaited. (called, awaited) \<in> set (as_waiting s) \<longrightarrow> called < as_now s)
     \<and> (\<forall>called awaited began. (called, awaited) \<in> set (as_waiting s) \<and> map_option fst (as_inFlight s) = Some began
          \<longrightarrow> began = awaited \<or> called \<le> began)"

lemmas auto_defs = syncNow_def answer_push_def pushLocalChange_def sync_outcome_def tick_def

lemma fresh_inv_waiting: "fresh_inv s \<Longrightarrow> set w \<subseteq> set (as_waiting s) \<Longrightarrow> fresh_inv (s\<lparr>as_waiting := w\<rparr>)"
  by (simp add: fresh_inv_def) blast

lemma fresh_inv_syncNow: "fresh_inv s \<Longrightarrow> fresh_inv (snd (syncNow s)) \<and> as_waiting (snd (syncNow s)) = as_waiting s
    \<and> as_answers (snd (syncNow s)) = as_answers s \<and> as_now (snd (syncNow s)) = as_now s"
  by (cases "as_inFlight s") (simp_all add: syncNow_def fresh_inv_def split_beta, (fastforce intro: less_imp_le)+)

lemma fresh_inv_tick: "fresh_inv s \<Longrightarrow> fresh_inv (tick s)"
  by (auto simp: fresh_inv_def tick_def less_Suc_eq)

lemma fresh_inv_answer:
  assumes "fresh_inv s" "called \<le> as_now s" "\<And>began. map_option fst (as_inFlight s) = Some began \<Longrightarrow> called \<le> began"
  shows "fresh_inv (tick (answer_push called s))"
proof -
  obtain sync s' where run: "syncNow s = (sync, s')"
    by force
  have "sync = Some began \<Longrightarrow> called \<le> began" for began
    using run assms(2,3) by (auto simp: syncNow_def split: option.splits if_splits)
  moreover have "fresh_inv s'"
    using fresh_inv_syncNow [OF assms(1)] run by simp
  ultimately have "fresh_inv (answer_push called s)"
    by (simp add: answer_push_def run) (auto simp: fresh_inv_def)
  then show ?thesis
    by (rule fresh_inv_tick)
qed

lemma fresh_inv_step: "auto_step s s' \<Longrightarrow> fresh_inv s \<Longrightarrow> fresh_inv s'"
proof (induction rule: auto_step.induct)
  case (unlocks s)
  then show ?case
    using fresh_inv_syncNow [of "s\<lparr>as_unlocked := True\<rparr>"] by (intro fresh_inv_tick) (simp add: fresh_inv_def)
next
  case (triggers s)
  then show ?case
    using fresh_inv_syncNow by (intro fresh_inv_tick) blast
next
  case (resumes s before called began after)
  have "called < as_now s" "\<And>start. map_option fst (as_inFlight s) = Some start \<Longrightarrow> called \<le> start"
    using resumes by (force simp: fresh_inv_def)+
  then show ?case
    using resumes fresh_inv_waiting [of s "before @ after"] by (intro fresh_inv_answer) auto
next
  case (pushes s)
  show ?case
  proof (cases "as_inFlight s")
    case None
    then show ?thesis
      using pushes fresh_inv_answer [of s "as_now s"] by (simp add: pushLocalChange_def)
  next
    case (Some p)
    then have "\<exists>began over. as_inFlight s = Some (began, over)"
      by (cases p) simp
    then show ?thesis
      using pushes by (fastforce simp: pushLocalChange_def fresh_inv_def tick_def less_Suc_eq)
  qed
next
  case (comes_back s began status)
  then have "map_option fst (as_inFlight (sync_outcome status s)) = map_option fst (as_inFlight s)"
    by (simp add: sync_outcome_def)
  with comes_back show ?case
    by (intro fresh_inv_tick) (simp add: fresh_inv_def sync_outcome_def)
qed (auto simp: fresh_inv_def tick_def less_Suc_eq)

interpretation auto_sync: guarded_system auto_step fresh_inv
  by unfold_locales (rule fresh_inv_step)

section \<open>Properties\<close>

text \<open>
  C37. A change is pushed by a sync that began after it: whatever triggers, other writers, locking and settling syncs come
  in between, the sync a call of \<open>pushLocalChange\<close> is handed did not begin before the call.
\<close>

theorem push_local_change_is_fresh:
  assumes "auto_step\<^sup>*\<^sup>* start_module s" "(called, Some began) \<in> set (as_answers s)"
  shows "called \<le> began"
proof -
  have "fresh_inv s"
    by (rule auto_sync.run_keeps [OF _ assms(1)]) (simp add: fresh_inv_def start_module_def)
  with assms(2) show ?thesis
    by (auto simp: fresh_inv_def)
qed

text \<open>A write that meets the sync of the unlocking waits for it and is pushed by the next one.\<close>

theorem push_local_change_is_fresh_witness:
  "\<exists>s. auto_step\<^sup>*\<^sup>* start_module s \<and> (1, Some 4) \<in> set (as_answers s) \<and> (1 :: nat) \<le> 4"
proof -
  let ?run = "\<lambda>n unlocked running revision waiting answers. \<lparr>as_now = n, as_unlocked = unlocked, as_inFlight = running,
    as_revision = revision, as_waiting = waiting, as_answers = answers\<rparr>"
  have "auto_step start_module (?run 1 True (Some (0, False)) 0 [] [])"
    using unlocks [of start_module] by (simp add: start_module_def auto_defs eval_nat_numeral)
  moreover have "auto_step (?run 1 True (Some (0, False)) 0 [] []) (?run 2 True (Some (0, False)) 0 [(1, 0)] [])"
    using pushes [of "?run 1 True (Some (0, False)) 0 [] []"] by (simp add: auto_defs eval_nat_numeral)
  moreover have "auto_step (?run 2 True (Some (0, False)) 0 [(1, 0)] []) (?run 3 True (Some (0, True)) 1 [(1, 0)] [])"
    using comes_back [of "?run 2 True (Some (0, False)) 0 [(1, 0)] []" 0 "Some Synced"] by (simp add: auto_defs eval_nat_numeral)
  moreover have "auto_step (?run 3 True (Some (0, True)) 1 [(1, 0)] []) (?run 4 True None 1 [(1, 0)] [])"
    using clears [of "?run 3 True (Some (0, True)) 1 [(1, 0)] []" 0] by (simp add: auto_defs eval_nat_numeral)
  moreover have "auto_step (?run 4 True None 1 [(1, 0)] []) (?run 5 True (Some (4, False)) 1 [] [(1, Some 4)])"
    using resumes [of "?run 4 True None 1 [(1, 0)] []" "[]" 1 0 "[]"] by (simp add: auto_defs eval_nat_numeral)
  ultimately have run: "auto_step\<^sup>*\<^sup>* start_module (?run 5 True (Some (4, False)) 1 [] [(1, Some 4)])"
    by (meson converse_rtranclp_into_rtranclp rtranclp.rtrancl_refl)
  then show ?thesis
    using push_local_change_is_fresh [OF run, of 1 4] by (intro exI conjI) auto
qed

end
