(* ===== verification/Devices.thy ===== *)
theory Devices
  imports Audit_Log
begin

text \<open>
  The devices of an account (\<open>app/api/devices/route.ts\<close>): registering a browser, binding its session to it, and revoking
  it with its sessions. The session of a request is its row's identifier and its account; the unique index over account
  and signing key is part of the insert.
\<close>

section \<open>The tables\<close>

record DeviceRow =
  dr_userId :: ident
  dr_label :: string
  dr_platform :: "string option"
  dr_signingKey :: string
  dr_lastSeenIpPrefix :: "string option"
  dr_revokedAt :: "millis option"
  dr_lastSeenAt :: millis
  dr_createdAt :: millis

record SessionRow =
  se_userId :: ident
  se_deviceId :: "ident option"

record DeviceDb =
  devices :: "(ident \<times> DeviceRow) list"
  sessions :: "(ident \<times> SessionRow) list"
  device_log :: "AuditRow list"

datatype DeviceAnswer =
    DeviceRefused nat
  | DeviceList "(ident \<times> DeviceRow) list"
  | DeviceIs ident
  | DeviceRegistered ident
  | DeviceRevoked

definition device_GET :: "ident option \<Rightarrow> DeviceDb \<Rightarrow> DeviceAnswer" where
  "device_GET user db =
     (case user of
        None \<Rightarrow> DeviceRefused 401
      | Some u \<Rightarrow> DeviceList (sort_key (\<lambda>(d, row). - dr_lastSeenAt row) (filter (\<lambda>(d, row). dr_userId row = u) (devices db))))"

section \<open>Registering\<close>

text \<open>The checks of the body: a status, or the proposed identifier, the label, the platform and the key.\<close>

definition device_fields :: "json option \<Rightarrow> nat + string \<times> string \<times> string option \<times> string" where
  "device_fields body =
     (case body of
        None \<Rightarrow> Inl 400
      | Some b \<Rightarrow>
          if b = JNull then Inl 500
          else
            (case (json_field b ''id'', json_field b ''label'', json_field b ''signingKey'') of
               (JStr d, JStr label, JStr signingKey) \<Rightarrow>
                 if 64 < length d \<or> 80 < length label \<or> 128 < length signingKey then Inl 400
                 else Inr (d, label, (case json_field b ''platform'' of JStr p \<Rightarrow> Some p | _ \<Rightarrow> None), signingKey)
             | _ \<Rightarrow> Inl 400))"

definition find_device :: "ident \<Rightarrow> string \<Rightarrow> DeviceDb \<Rightarrow> (ident \<times> DeviceRow) option" where
  "find_device u signingKey db = find (\<lambda>(d, row). dr_userId row = u \<and> dr_signingKey row = signingKey) (devices db)"

text \<open>What the handler has decided after its reads: to refresh a row, or to insert one under the identifier chosen.\<close>

datatype Registration = Refresh ident | Register ident ident string "string option" string

definition device_read :: "ident \<Rightarrow> ident \<Rightarrow> json option \<Rightarrow> DeviceDb \<Rightarrow> nat + Registration" where
  "device_read fresh u body db =
     (case device_fields body of
        Inl status \<Rightarrow> Inl status
      | Inr (d, label, platform, signingKey) \<Rightarrow>
          (case find_device u signingKey db of
             Some (existing, row) \<Rightarrow> if dr_revokedAt row \<noteq> None then Inl 403 else Inr (Refresh existing)
           | None \<Rightarrow> Inr (Register u (if map_of (devices db) d \<noteq> None then fresh else d) label platform signingKey)))"

definition bindSessionToDevice :: "ident \<Rightarrow> ident \<Rightarrow> DeviceDb \<Rightarrow> DeviceDb" where
  "bindSessionToDevice sid d db =
     db\<lparr>sessions := map (\<lambda>(i, se). (i, if i = sid then se\<lparr>se_deviceId := Some d\<rparr> else se)) (sessions db)\<rparr>"

definition device_event ::
  "nat \<Rightarrow> string option \<Rightarrow> ident \<Rightarrow> millis \<Rightarrow> ident \<Rightarrow> ident option \<Rightarrow> string \<Rightarrow> (string \<times> json) list \<Rightarrow> AuditRow" where
  "device_event hops forwarded uuid now u d t meta =
     \<lparr>ar_id = uuid, ar_userId = u, ar_deviceId = d, ar_eventType = t, ar_source = Server, ar_targetRef = None,
      ar_ipPrefix = ipPrefix (clientAddress hops forwarded), ar_metadata = meta, ar_createdAt = now\<rparr>"

definition refresh_device :: "nat \<Rightarrow> string option \<Rightarrow> millis \<Rightarrow> ident \<Rightarrow> DeviceDb \<Rightarrow> DeviceDb" where
  "refresh_device hops forwarded now d db =
     db\<lparr>devices := map (\<lambda>(i, row). (i, if i = d
         then row\<lparr>dr_lastSeenAt := now, dr_lastSeenIpPrefix := ipPrefix (clientAddress hops forwarded)\<rparr> else row)) (devices db)\<rparr>"

definition device_write ::
  "nat \<Rightarrow> string option \<Rightarrow> ident \<Rightarrow> millis \<Rightarrow> ident \<Rightarrow> Registration \<Rightarrow> DeviceDb \<Rightarrow> DeviceAnswer \<times> DeviceDb" where
  "device_write hops forwarded uuid now sid plan db =
     (case plan of
        Refresh d \<Rightarrow> (DeviceIs d, bindSessionToDevice sid d (refresh_device hops forwarded now d db))
      | Register u d label platform signingKey \<Rightarrow>
          if map_of (devices db) d \<noteq> None \<or> find_device u signingKey db \<noteq> None then (DeviceRefused 500, db)
          else
            (DeviceRegistered d,
             bindSessionToDevice sid d
               (db\<lparr>devices := devices db @ [(d, \<lparr>dr_userId = u, dr_label = label, dr_platform = platform,
                    dr_signingKey = signingKey, dr_lastSeenIpPrefix = ipPrefix (clientAddress hops forwarded),
                    dr_revokedAt = None, dr_lastSeenAt = now, dr_createdAt = now\<rparr>)],
                  device_log := device_log db @ [device_event hops forwarded uuid now u (Some d) ''device.registered''
                    (case platform of None \<Rightarrow> [] | Some p \<Rightarrow> [(''platform'', JStr p)])]\<rparr>)))"

text \<open>The two identifiers drawn are the row's and the audit row's.\<close>

definition device_POST ::
  "nat \<Rightarrow> string option \<Rightarrow> ident \<Rightarrow> ident \<Rightarrow> millis \<Rightarrow> (ident \<times> ident) option \<Rightarrow> json option \<Rightarrow> DeviceDb \<Rightarrow> DeviceAnswer \<times> DeviceDb" where
  "device_POST hops forwarded fresh uuid now session body db =
     (case session of
        None \<Rightarrow> (DeviceRefused 401, db)
      | Some (sid, u) \<Rightarrow>
          (case device_read fresh u body db of
             Inl status \<Rightarrow> (DeviceRefused status, db)
           | Inr plan \<Rightarrow> device_write hops forwarded uuid now sid plan db))"

section \<open>Revoking\<close>

definition revoke_row :: "ident \<Rightarrow> ident \<Rightarrow> millis \<Rightarrow> ident \<times> DeviceRow \<Rightarrow> ident \<times> DeviceRow" where
  "revoke_row u d now p =
     (let (i, row) = p in
      if i = d \<and> dr_userId row = u \<and> dr_revokedAt row = None then (i, row\<lparr>dr_revokedAt := Some now\<rparr>) else (i, row))"

definition device_DELETE ::
  "nat \<Rightarrow> string option \<Rightarrow> ident \<Rightarrow> millis \<Rightarrow> ident option \<Rightarrow> string option \<Rightarrow> DeviceDb \<Rightarrow> DeviceAnswer \<times> DeviceDb" where
  "device_DELETE hops forwarded uuid now user param db =
     (case (user, param) of
        (None, _) \<Rightarrow> (DeviceRefused 401, db)
      | (_, None) \<Rightarrow> (DeviceRefused 400, db)
      | (Some u, Some d) \<Rightarrow>
          if d = [] then (DeviceRefused 400, db)
          else if \<not> list_ex (\<lambda>(i, row). i = d \<and> dr_userId row = u \<and> dr_revokedAt row = None) (devices db)
          then (DeviceRefused 404, db)
          else
            (DeviceRevoked,
             \<lparr>devices = map (revoke_row u d now) (devices db),
              sessions = filter (\<lambda>(i, se). \<not> (se_userId se = u \<and> se_deviceId se = Some d)) (sessions db),
              device_log = device_log db
                @ [device_event hops forwarded uuid now u None ''device.revoked'' [(''revokedDeviceId'', JStr d)]]\<rparr>))"

section \<open>Requests of many browsers\<close>

text \<open>
  A registration is its reads and, later, its writes; any other request may come between. Signing in adds a session and
  signing out removes some.
\<close>

inductive device_step :: "DeviceDb \<times> (ident \<times> Registration) list \<Rightarrow> DeviceDb \<times> (ident \<times> Registration) list \<Rightarrow> bool" where
  reads: "device_read fresh u body db = Inr plan \<Longrightarrow> device_step (db, pending) (db, (sid, plan) # pending)"
| writes: "(sid, plan) \<in> set pending \<Longrightarrow> device_write hops forwarded uuid now sid plan db = (answer, db') \<Longrightarrow>
    device_step (db, pending) (db', remove1 (sid, plan) pending)"
| revokes: "device_DELETE hops forwarded uuid now user param db = (answer, db') \<Longrightarrow> device_step (db, pending) (db', pending)"
| signs_in: "sid \<notin> fst ` set (sessions db) \<Longrightarrow>
    device_step (db, pending) (db\<lparr>sessions := (sid, \<lparr>se_userId = u, se_deviceId = None\<rparr>) # sessions db\<rparr>, pending)"
| signs_out: "device_step (db, pending) (db\<lparr>sessions := filter P (sessions db)\<rparr>, pending)"

definition no_devices :: DeviceDb where
  "no_devices = \<lparr>devices = [], sessions = [], device_log = []\<rparr>"

section \<open>What every request keeps\<close>

definition identity_of :: "ident \<times> DeviceRow \<Rightarrow> ident \<times> string" where
  "identity_of p = (dr_userId (snd p), dr_signingKey (snd p))"

definition device_inv :: "DeviceDb \<Rightarrow> bool" where
  "device_inv db \<longleftrightarrow> distinct (map fst (devices db)) \<and> distinct (map identity_of (devices db))"

definition revoked_as :: "ident \<Rightarrow> string \<Rightarrow> ident \<Rightarrow> DeviceDb \<Rightarrow> bool" where
  "revoked_as u k d db \<longleftrightarrow> (\<exists>row. (d, row) \<in> set (devices db) \<and> identity_of (d, row) = (u, k) \<and> dr_revokedAt row \<noteq> None)"

lemma find_device_Some:
  "find_device u k db = Some (d, row) \<Longrightarrow> (d, row) \<in> set (devices db) \<and> identity_of (d, row) = (u, k)"
  using nth_mem by (fastforce simp: find_device_def find_Some_iff identity_of_def)

lemma find_device_None: "find_device u k db = None \<longleftrightarrow> (u, k) \<notin> identity_of ` set (devices db)"
  by (force simp: find_device_def find_None_iff identity_of_def)

text \<open>An update of rows in place that leaves the identities alone and takes no revocation back.\<close>

definition same_devices :: "(ident \<times> DeviceRow) list \<Rightarrow> (ident \<times> DeviceRow) list \<Rightarrow> bool" where
  "same_devices rows rows' \<longleftrightarrow> map fst rows' = map fst rows \<and> map identity_of rows' = map identity_of rows
     \<and> (\<forall>d row. (d, row) \<in> set rows \<and> dr_revokedAt row \<noteq> None
          \<longrightarrow> (\<exists>row'. (d, row') \<in> set rows' \<and> identity_of (d, row') = identity_of (d, row) \<and> dr_revokedAt row' \<noteq> None))"

lemma same_devices_map:
  assumes "\<And>p. fst (f p) = fst p \<and> identity_of (f p) = identity_of p \<and> (dr_revokedAt (snd p) \<noteq> None \<longrightarrow> dr_revokedAt (snd (f p)) \<noteq> None)"
  shows "same_devices rows (map f rows)"
proof -
  have "(d, row) \<in> set rows \<Longrightarrow> dr_revokedAt row \<noteq> None \<Longrightarrow>
      \<exists>row'. (d, row') \<in> set (map f rows) \<and> identity_of (d, row') = identity_of (d, row) \<and> dr_revokedAt row' \<noteq> None" for d row
    using assms [of "(d, row)"] by (intro exI [of _ "snd (f (d, row))"]) (auto simp: image_iff identity_of_def prod_eq_iff intro: bexI [of _ "(d, row)"])
  then show ?thesis
    using assms by (auto simp: same_devices_def)
qed

lemma device_write_devices:
  assumes "device_write hops forwarded uuid now sid plan db = (answer, db')"
  shows "same_devices (devices db) (devices db')
    \<or> (\<exists>d row. devices db' = devices db @ [(d, row)] \<and> map_of (devices db) d = None \<and> identity_of (d, row) \<notin> identity_of ` set (devices db))"
proof (cases plan)
  case (Refresh d)
  have "same_devices (devices db) (devices (refresh_device hops forwarded now d db))"
    unfolding refresh_device_def by (simp, rule same_devices_map) (auto simp: identity_of_def)
  then show ?thesis
    using assms Refresh by (auto simp: device_write_def bindSessionToDevice_def)
next
  case (Register u d label platform k)
  then show ?thesis
    using assms by (auto simp: device_write_def bindSessionToDevice_def find_device_None identity_of_def same_devices_def split: if_splits)
qed

lemma device_DELETE_devices:
  assumes "device_DELETE hops forwarded uuid now user param db = (answer, db')"
  shows "same_devices (devices db) (devices db')"
proof -
  have "same_devices rows rows" for rows
    by (auto simp: same_devices_def)
  moreover have "same_devices rows (map (revoke_row u d now) rows)" for u d rows
    by (rule same_devices_map) (auto simp: identity_of_def revoke_row_def)
  ultimately show ?thesis
    using assms by (auto simp: device_DELETE_def split: option.splits if_splits)
qed

lemma device_step_devices:
  assumes "device_step st st'"
  shows "same_devices (devices (fst st)) (devices (fst st'))
    \<or> (\<exists>d row. devices (fst st') = devices (fst st) @ [(d, row)] \<and> map_of (devices (fst st)) d = None
        \<and> identity_of (d, row) \<notin> identity_of ` set (devices (fst st)))"
  using assms
proof (induction rule: device_step.induct)
  case (writes sid plan pending hops forwarded uuid now db answer db')
  then show ?case
    using device_write_devices by simp
next
  case (revokes hops forwarded uuid now user param db answer db' pending)
  then show ?case
    using device_DELETE_devices by simp
qed (auto simp: same_devices_def)

lemma device_inv_step: "device_inv (fst st) \<Longrightarrow> device_step st st' \<Longrightarrow> device_inv (fst st')"
  by (drule device_step_devices) (auto simp: device_inv_def same_devices_def map_of_eq_None_iff)

lemma revoked_as_step: "revoked_as u k d (fst st) \<Longrightarrow> device_step st st' \<Longrightarrow> revoked_as u k d (fst st')"
  by (drule device_step_devices) (fastforce simp: revoked_as_def same_devices_def)

interpretation registry: guarded_system device_step "\<lambda>st. device_inv (fst st)"
  by unfold_locales (rule device_inv_step)

interpretation revoked: guarded_system device_step "\<lambda>st. revoked_as u k d (fst st)" for u k d
  by unfold_locales (rule revoked_as_step)

lemma find_revoked:
  assumes "device_inv db" "revoked_as u k d db"
  shows "\<exists>row. find_device u k db = Some (d, row) \<and> dr_revokedAt row \<noteq> None"
proof -
  obtain row where row: "(d, row) \<in> set (devices db)" "identity_of (d, row) = (u, k)" "dr_revokedAt row \<noteq> None"
    using assms(2) by (auto simp: revoked_as_def)
  then obtain d' row' where found: "find_device u k db = Some (d', row')"
    using find_device_None [of u k db] by (cases "find_device u k db") force+
  then have "(d', row') \<in> set (devices db)" "identity_of (d', row') = identity_of (d, row)"
    using find_device_Some row(2) by metis+
  then have "(d', row') = (d, row)"
    using assms(1) row(1) unfolding device_inv_def distinct_map inj_on_def by blast
  with found row(3) show ?thesis
    by simp
qed

section \<open>Properties\<close>

text \<open>
  C38. A revoked device does not come back: once the row of a browser is revoked, in every later state and whatever requests
  of other browsers are under way, a registration with its key for its account is refused with 403 and changes nothing,
  whichever identifier, label or session it comes with.
\<close>

theorem revoked_device_stays_out:
  assumes "device_step\<^sup>*\<^sup>* (no_devices, []) (db, pending)" "(d, row) \<in> set (devices db)" "dr_revokedAt row \<noteq> None"
    and "device_step\<^sup>*\<^sup>* (db, pending) (db', pending')"
    and "device_fields body = Inr (proposed, label, platform, dr_signingKey row)"
  shows "device_POST hops forwarded fresh uuid now (Some (sid, dr_userId row)) body db' = (DeviceRefused 403, db')"
proof -
  have "device_inv db'"
    using registry.run_keeps [OF _ rtranclp_trans [OF assms(1,4)]] by (simp add: device_inv_def no_devices_def)
  moreover have "revoked_as (dr_userId row) (dr_signingKey row) d db"
    using assms(2,3) by (auto simp: revoked_as_def identity_of_def)
  then have "revoked_as (dr_userId row) (dr_signingKey row) d db'"
    using revoked.run_keeps [OF _ assms(4)] by simp
  ultimately obtain row' where "find_device (dr_userId row) (dr_signingKey row) db' = Some (d, row')" "dr_revokedAt row' \<noteq> None"
    using find_revoked by blast
  then show ?thesis
    by (simp add: device_POST_def device_read_def assms(5))
qed

text \<open>
  A registration that read the row of a device before it was revoked and writes after the revocation binds its session
  to it: the device is revoked and a session of it is left, which the revocation was to end.
\<close>

theorem revocation_race_leaves_session:
  assumes "device_read fresh u body db = Inr (Refresh d)" "(sid, \<lparr>se_userId = u, se_deviceId = None\<rparr>) \<in> set (sessions db)"
    and "device_DELETE hops forwarded uuid now (Some u) (Some d) db = (DeviceRevoked, db1)"
    and "device_write hops' forwarded' uuid' now' sid (Refresh d) db1 = (answer, db2)"
  shows "(sid, \<lparr>se_userId = u, se_deviceId = Some d\<rparr>) \<in> set (sessions db2)
    \<and> (\<exists>row. (d, row) \<in> set (devices db2) \<and> dr_userId row = u \<and> dr_revokedAt row \<noteq> None)"
proof -
  have "(sid, \<lparr>se_userId = u, se_deviceId = None\<rparr>) \<in> set (sessions db1)"
    using assms(2,3) by (auto simp: device_DELETE_def split: if_splits)
  then have "(sid, \<lparr>se_userId = u, se_deviceId = Some d\<rparr>) \<in> set (sessions db2)"
    using assms(4) by (force simp: device_write_def bindSessionToDevice_def refresh_device_def)
  moreover have "\<exists>row. (d, row) \<in> set (devices db1) \<and> dr_userId row = u \<and> dr_revokedAt row \<noteq> None"
    using assms(3) by (force simp: device_DELETE_def revoke_row_def list_ex_iff split: if_splits)
  then have "\<exists>row. (d, row) \<in> set (devices db2) \<and> dr_userId row = u \<and> dr_revokedAt row \<noteq> None"
    using assms(4) by (force simp: device_write_def bindSessionToDevice_def refresh_device_def)
  ultimately show ?thesis ..
qed

text \<open>
  The platform of a registration is stored in the audit log without the check every other row passes: whatever text a
  browser sends, of whatever length, becomes metadata of a row marked as written by the server.
\<close>

theorem device_platform_is_not_checked:
  assumes "device_fields (Some b) = Inr (d, label, Some p, k)" "find_device u k db = None" "map_of (devices db) d = None"
    and "p \<notin> set [''macos'', ''windows'', ''linux'', ''ios'', ''android'', ''other'']"
  shows "\<exists>db'. device_POST hops forwarded fresh uuid now (Some (sid, u)) (Some b) db = (DeviceRegistered d, db')
    \<and> ar_source (last (device_log db')) = Server \<and> ar_metadata (last (device_log db')) = [(''platform'', JStr p)]
    \<and> \<not> the (map_of (the (map_of AUDIT_METADATA ''device.registered'')) ''platform'') (JStr p)"
  using assms
  by (simp add: device_POST_def device_read_def device_write_def bindSessionToDevice_def device_event_def
      AUDIT_METADATA_def isEnum_def)

section \<open>Examples\<close>

definition example_device_row :: "millis option \<Rightarrow> DeviceRow" where
  "example_device_row revoked =
     \<lparr>dr_userId = ''u'', dr_label = ''laptop'', dr_platform = None, dr_signingKey = ''key'', dr_lastSeenIpPrefix = None,
      dr_revokedAt = revoked, dr_lastSeenAt = 1, dr_createdAt = 1\<rparr>"

definition example_devices :: "millis option \<Rightarrow> DeviceDb" where
  "example_devices revoked =
     \<lparr>devices = [(''d'', example_device_row revoked)], sessions = [(''s'', \<lparr>se_userId = ''u'', se_deviceId = None\<rparr>)], device_log = []\<rparr>"

definition example_body :: json where
  "example_body = JObj [(''id'', JStr ''d2''), (''label'', JStr ''other''), (''signingKey'', JStr ''key'')]"

theorem revoked_device_stays_out_witness:
  "\<exists>db. device_POST 0 None ''f'' ''x'' 9 (Some (''s'', ''u'')) (Some example_body) db = (DeviceRefused 403, db)"
proof -
  have "device_step (no_devices, []) (no_devices, [(''s'', Register ''u'' ''d'' ''laptop'' None ''key'')])"
    by (rule reads [of _ _ "Some (JObj [(''id'', JStr ''d''), (''label'', JStr ''laptop''), (''signingKey'', JStr ''key'')])"])
       (simp add: device_read_def device_fields_def find_device_def no_devices_def)
  moreover obtain db1 where "device_write 0 None ''x'' 1 ''s'' (Register ''u'' ''d'' ''laptop'' None ''key'') no_devices = (DeviceRegistered ''d'', db1)"
      and db1: "devices db1 = [(''d'', (example_device_row None)\<lparr>dr_lastSeenIpPrefix := ipPrefix (clientAddress 0 None)\<rparr>)]"
    by (simp add: device_write_def no_devices_def find_device_def bindSessionToDevice_def example_device_row_def)
  then have "device_step (no_devices, [(''s'', Register ''u'' ''d'' ''laptop'' None ''key'')]) (db1, [])"
    using writes [of "''s''" "Register ''u'' ''d'' ''laptop'' None ''key''" "[(''s'', Register ''u'' ''d'' ''laptop'' None ''key'')]"] by fastforce
  moreover obtain db2 where "device_DELETE 0 None ''y'' 5 (Some ''u'') (Some ''d'') db1 = (DeviceRevoked, db2)"
      and db2: "devices db2 = [(''d'', (example_device_row (Some 5))\<lparr>dr_lastSeenIpPrefix := ipPrefix (clientAddress 0 None)\<rparr>)]"
    using db1 by (simp add: device_DELETE_def revoke_row_def example_device_row_def)
  then have "device_step (db1, []) (db2, [])"
    using revokes by blast
  ultimately have run: "device_step\<^sup>*\<^sup>* (no_devices, []) (db2, [])"
    by (meson converse_rtranclp_into_rtranclp rtranclp.rtrancl_refl)
  have "device_POST 0 None ''f'' ''x'' 9 (Some (''s'', dr_userId (example_device_row (Some 5)))) (Some example_body) db2 = (DeviceRefused 403, db2)"
    using revoked_device_stays_out [OF run, of "''d''" "(example_device_row (Some 5))\<lparr>dr_lastSeenIpPrefix := ipPrefix (clientAddress 0 None)\<rparr>" db2 "[]"
        "Some example_body" "''d2''" "''other''" None 0 None "''f''" "''x''" 9 "''s''"]
    by (simp add: db2 example_device_row_def example_body_def device_fields_def)
  then show ?thesis
    by (auto simp: example_device_row_def)
qed

theorem revocation_race_leaves_session_witness:
  "\<exists>db1 answer db2. device_DELETE 0 None ''x'' 5 (Some ''u'') (Some ''d'') (example_devices None) = (DeviceRevoked, db1)
     \<and> device_write 0 None ''y'' 6 ''s'' (Refresh ''d'') db1 = (answer, db2)
     \<and> (''s'', \<lparr>se_userId = ''u'', se_deviceId = Some ''d''\<rparr>) \<in> set (sessions db2)"
proof -
  have read: "device_read ''f'' ''u'' (Some example_body) (example_devices None) = Inr (Refresh ''d'')"
    by (simp add: device_read_def device_fields_def find_device_def example_devices_def example_device_row_def example_body_def)
  have session: "(''s'', \<lparr>se_userId = ''u'', se_deviceId = None\<rparr>) \<in> set (sessions (example_devices None))"
    by (simp add: example_devices_def)
  obtain db1 where revoked: "device_DELETE 0 None ''x'' 5 (Some ''u'') (Some ''d'') (example_devices None) = (DeviceRevoked, db1)"
    by (simp add: device_DELETE_def example_devices_def example_device_row_def)
  obtain answer db2 where "device_write 0 None ''y'' 6 ''s'' (Refresh ''d'') db1 = (answer, db2)"
    by force
  with revoked revocation_race_leaves_session [OF read session revoked this] show ?thesis
    by blast
qed

theorem device_platform_is_not_checked_witness:
  "\<exists>db. device_POST 0 None ''f'' ''x'' 9 (Some (''s'', ''u''))
       (Some (JObj [(''id'', JStr ''d''), (''label'', JStr ''l''), (''platform'', JStr ''any text''), (''signingKey'', JStr ''k'')])) no_devices
     = (DeviceRegistered ''d'', db) \<and> ar_metadata (last (device_log db)) = [(''platform'', JStr ''any text'')]"
  using device_platform_is_not_checked [where db = no_devices and d = "''d''" and label = "''l''" and p = "''any text''" and k = "''k''" and u = "''u''"
      and b = "JObj [(''id'', JStr ''d''), (''label'', JStr ''l''), (''platform'', JStr ''any text''), (''signingKey'', JStr ''k'')]"
      and hops = 0 and forwarded = None and fresh = "''f''" and uuid = "''x''" and now = 9 and sid = "''s''"]
  by (auto simp: device_fields_def find_device_def no_devices_def)

end
