(* ===== verification/Maintenance.thy ===== *)
theory Maintenance
  imports Rate_Limit
begin

text \<open>
  The nightly run (\<open>lib/maintenance\<close>, \<open>app/api/cron/route.ts\<close>): deleting audit rows that have aged out and counters nobody
  reads, and the route that runs all jobs in turn. The jobs on machines, enrolments and recordings are modelled with
  those components and are arguments here.
\<close>

section \<open>Audit rows\<close>

definition PRUNE_BATCH :: nat where "PRUNE_BATCH = 5000"
definition MAX_BATCHES :: nat where "MAX_BATCHES = 20"

text \<open>\<open>subscribed u\<close> says whether the account has a row in \<open>subscription\<close>, of whatever status.\<close>

definition prune_cutoff :: "(ident \<Rightarrow> bool) \<Rightarrow> millis \<Rightarrow> AuditRow \<Rightarrow> millis" where
  "prune_cutoff subscribed now r =
     (if subscribed (ar_userId r) then now - AUDIT_RETENTION_DAYS Pro * DAY_MS else now - AUDIT_RETENTION_DAYS Free * DAY_MS)"

definition expired_row :: "(ident \<Rightarrow> bool) \<Rightarrow> millis \<Rightarrow> AuditRow \<Rightarrow> bool" where
  "expired_row subscribed now r \<longleftrightarrow> ar_createdAt r < prune_cutoff subscribed now r"

text \<open>One statement: the oldest of the expired rows, by identifier.\<close>

definition prune_batch :: "(ident \<Rightarrow> bool) \<Rightarrow> millis \<Rightarrow> AuditRow list \<Rightarrow> nat \<times> AuditRow list" where
  "prune_batch subscribed now rows =
     (let ids = map ar_id (take PRUNE_BATCH (sort_key ar_createdAt (filter (expired_row subscribed now) rows)));
          rows' = filter (\<lambda>r. ar_id r \<notin> set ids) rows
      in (length rows - length rows', rows'))"

text \<open>The loop over what is left of the batches: rows deleted, and whether it ran out of batches.\<close>

fun prune_loop :: "(ident \<Rightarrow> bool) \<Rightarrow> millis \<Rightarrow> nat \<Rightarrow> AuditRow list \<Rightarrow> nat \<times> bool \<times> AuditRow list" where
  "prune_loop subscribed now 0 rows = (0, True, rows)"
| "prune_loop subscribed now (Suc left) rows =
     (let (removed, rows') = prune_batch subscribed now rows in
      if removed = 0 then (0, False, rows')
      else let (deleted, truncated, rows'') = prune_loop subscribed now left rows' in (removed + deleted, truncated, rows''))"

record AuditPruneResult =
  pr_deleted :: nat
  pr_truncated :: bool
  pr_expired :: nat

definition pruneAuditEvents :: "bool \<Rightarrow> (ident \<Rightarrow> bool) \<Rightarrow> millis \<Rightarrow> AuditRow list \<Rightarrow> AuditPruneResult \<times> AuditRow list" where
  "pruneAuditEvents dryRun subscribed now rows =
     (let n = length (filter (expired_row subscribed now) rows) in
      if dryRun \<or> n = 0 then (\<lparr>pr_deleted = 0, pr_truncated = False, pr_expired = n\<rparr>, rows)
      else
        let (deleted, truncated, rows') = prune_loop subscribed now MAX_BATCHES rows
        in (\<lparr>pr_deleted = deleted, pr_truncated = truncated, pr_expired = n\<rparr>, rows'))"

section \<open>Counters\<close>

definition COUNTER_KEEP_MS :: int where "COUNTER_KEEP_MS = 24 * 60 * 60 * 1000"

definition stale_counter :: "millis \<Rightarrow> LimitRow \<Rightarrow> bool" where
  "stale_counter now r \<longleftrightarrow> lr_window_start r < now - COUNTER_KEEP_MS"

text \<open>\<open>keys\<close> are the keys of the table. The answer is how many rows were deleted and how many were stale.\<close>

definition clearStaleCounters :: "bool \<Rightarrow> millis \<Rightarrow> string list \<Rightarrow> limit_table \<Rightarrow> (nat \<times> nat) \<times> limit_table" where
  "clearStaleCounters dryRun now keys t =
     (let stale = length (filter (\<lambda>k. case t k of None \<Rightarrow> False | Some r \<Rightarrow> stale_counter now r) keys) in
      if dryRun \<or> stale = 0 then ((0, stale), t)
      else ((stale, stale), \<lambda>k. case t k of None \<Rightarrow> None | Some r \<Rightarrow> if stale_counter now r then None else Some r))"

section \<open>The run\<close>

record JobOutcome =
  jo_job :: string
  jo_ok :: bool
  jo_summary :: string
  jo_truncated :: "bool option"

text \<open>A job on the tables: the summary of the error it threw, or its own summary and flag.\<close>

type_synonym 'db job = "'db \<Rightarrow> (string + string \<times> bool option) \<times> 'db"

definition run_job :: "string \<Rightarrow> 'db job \<Rightarrow> 'db \<Rightarrow> JobOutcome \<times> 'db" where
  "run_job job work db =
     (case work db of
        (Inl e, db') \<Rightarrow> (\<lparr>jo_job = job, jo_ok = False, jo_summary = ''failed: '' @ e, jo_truncated = None\<rparr>, db')
      | (Inr (summary, truncated), db') \<Rightarrow>
          (\<lparr>jo_job = job, jo_ok = True, jo_summary = summary, jo_truncated = truncated\<rparr>, db'))"

fun run_jobs :: "(string \<times> 'db job) list \<Rightarrow> 'db \<Rightarrow> JobOutcome list \<times> 'db" where
  "run_jobs [] db = ([], db)"
| "run_jobs ((job, work) # jobs) db =
     (let (outcome, db') = run_job job work db;
          (outcomes, db'') = run_jobs jobs db'
      in (outcome # outcomes, db''))"

record 'x MaintenanceDb =
  md_audit :: "AuditRow list"
  md_counters :: limit_table
  md_rest :: 'x

text \<open>Two jobs on their own tables; a statement may also fail, with the tables as they were.\<close>

definition audit_job :: "bool \<Rightarrow> bool \<Rightarrow> (ident \<Rightarrow> bool) \<Rightarrow> millis \<Rightarrow> 'x MaintenanceDb job" where
  "audit_job reachable dryRun subscribed now db =
     (if \<not> reachable then (Inl ''database'', db)
      else
        let (r, rows) = pruneAuditEvents dryRun subscribed now (md_audit db)
        in (Inr (if dryRun then show_nat (pr_expired r) @ '' expired, none deleted''
                 else ''deleted '' @ show_nat (pr_deleted r) @ '' of '' @ show_nat (pr_expired r) @ '' expired'',
                 Some (pr_truncated r)), db\<lparr>md_audit := rows\<rparr>))"

definition counters_job :: "bool \<Rightarrow> bool \<Rightarrow> millis \<Rightarrow> string list \<Rightarrow> 'x MaintenanceDb job" where
  "counters_job reachable dryRun now keys db =
     (if \<not> reachable then (Inl ''database'', db)
      else
        let ((deleted, stale), t) = clearStaleCounters dryRun now keys (md_counters db)
        in (Inr (if dryRun then show_nat stale @ '' stale, none deleted'' else ''deleted '' @ show_nat deleted @ '' stale'', None),
            db\<lparr>md_counters := t\<rparr>))"

definition on_rest :: "'x job \<Rightarrow> 'x MaintenanceDb job" where
  "on_rest work db = (let (r, x) = work (md_rest db) in (r, db\<lparr>md_rest := x\<rparr>))"

definition runMaintenance ::
  "(bool \<Rightarrow> 'x job) \<Rightarrow> (bool \<Rightarrow> 'x job) \<Rightarrow> (bool \<Rightarrow> 'x job) \<Rightarrow> bool \<Rightarrow> bool \<Rightarrow> (ident \<Rightarrow> bool) \<Rightarrow> millis \<Rightarrow> string list
     \<Rightarrow> bool \<Rightarrow> 'x MaintenanceDb \<Rightarrow> (bool \<times> JobOutcome list) \<times> 'x MaintenanceDb" where
  "runMaintenance rotate_keys enrollments objects audit_ok counters_ok subscribed now keys dryRun db =
     (let (jobs, db') = run_jobs
        [(''audit-events'', audit_job audit_ok dryRun subscribed now),
         (''agent-command-keys'', on_rest (rotate_keys dryRun)),
         (''agent-enrollments'', on_rest (enrollments dryRun)),
         (''rate-limit-counters'', counters_job counters_ok dryRun now keys),
         (''recording-objects'', on_rest (objects dryRun))] db
      in ((list_all jo_ok jobs, jobs), db'))"

text \<open>The route; the run is an argument.\<close>

definition cron_authorised :: "string \<Rightarrow> string option \<Rightarrow> bool" where
  "cron_authorised secret header =
     (if secret = [] then False
      else
        let h = (case header of None \<Rightarrow> [] | Some s \<Rightarrow> s);
            presented = (if starts_with ''Bearer '' h then drop 7 h else [])
        in length (utf8 presented) = length (utf8 secret) \<and> utf8 presented = utf8 secret)"

definition cron_POST ::
  "string \<Rightarrow> string option \<Rightarrow> string option \<Rightarrow> (bool \<Rightarrow> 'db \<Rightarrow> (bool \<times> JobOutcome list) \<times> 'db) \<Rightarrow> 'db \<Rightarrow> nat \<times> 'db" where
  "cron_POST secret header dryRun maintenance db =
     (if secret = [] then (503, db)
      else if \<not> cron_authorised secret header then (401, db)
      else let ((ok, jobs), db') = maintenance (dryRun = Some ''1'') db in (if ok then 200 else 500, db'))"

section \<open>Pruning\<close>

lemma length_filter_split: "length xs = length (filter P xs) + length (filter (\<lambda>x. \<not> P x) xs)"
  by (induction xs) auto

lemma prune_batch_spec:
  assumes "distinct (map ar_id rows)" "prune_batch subscribed now rows = (removed, rows')"
  shows "removed = min PRUNE_BATCH (length (filter (expired_row subscribed now) rows))"
    and "\<exists>P. rows' = filter P rows \<and> (\<forall>r\<in>set rows. \<not> P r \<longrightarrow> expired_row subscribed now r)"
    and "length (filter (expired_row subscribed now) rows') = length (filter (expired_row subscribed now) rows) - PRUNE_BATCH"
proof -
  let ?e = "filter (expired_row subscribed now) rows"
  define gone where "gone = take PRUNE_BATCH (sort_key ar_createdAt ?e)"
  define keep where "keep = (\<lambda>r :: AuditRow. ar_id r \<notin> set (map ar_id gone))"
  have rows': "rows' = filter keep rows" "removed = length rows - length rows'"
    using assms(2) by (auto simp: prune_batch_def Let_def keep_def gone_def)
  have sub: "set gone \<subseteq> set ?e"
    using set_take_subset [of PRUNE_BATCH "sort_key ar_createdAt ?e"] by (simp add: gone_def)
  have same: "\<not> keep r \<longleftrightarrow> r \<in> set gone" if "r \<in> set rows" for r
  proof
    assume "\<not> keep r"
    then obtain g where "g \<in> set gone" "ar_id g = ar_id r"
      by (auto simp: keep_def)
    moreover from this sub have "g \<in> set rows"
      by auto
    ultimately show "r \<in> set gone"
      using assms(1) that by (metis distinct_map inj_onD)
  qed (simp add: keep_def)
  have "distinct rows"
    using assms(1) by (simp add: distinct_map)
  then have gone: "distinct gone" "length gone = min PRUNE_BATCH (length ?e)"
    by (simp_all add: gone_def distinct_take min.commute)
  have "set (filter (\<lambda>r. \<not> keep r) rows) = set gone"
    using same sub by auto
  then have n: "length (filter (\<lambda>r. \<not> keep r) rows) = min PRUNE_BATCH (length ?e)"
    using \<open>distinct rows\<close> gone by (metis distinct_card distinct_filter)
  then show "removed = min PRUNE_BATCH (length ?e)"
    using rows' length_filter_split [of rows keep] by simp
  show "\<exists>P. rows' = filter P rows \<and> (\<forall>r\<in>set rows. \<not> P r \<longrightarrow> expired_row subscribed now r)"
    using rows'(1) same sub by (intro exI [of _ keep]) auto
  have "filter (\<lambda>r. \<not> keep r) ?e = filter (\<lambda>r. \<not> keep r) rows"
    unfolding filter_filter by (rule filter_cong) (use same sub in auto)
  moreover have "filter (expired_row subscribed now) rows' = filter keep ?e"
    by (simp add: rows'(1) filter_filter conj_commute)
  ultimately show "length (filter (expired_row subscribed now) rows') = length ?e - PRUNE_BATCH"
    using n length_filter_split [of ?e keep] by simp
qed

lemma prune_loop_spec:
  assumes "distinct (map ar_id rows)" "prune_loop subscribed now n rows = (deleted, truncated, rows')"
  shows "\<exists>P. rows' = filter P rows \<and> (\<forall>r\<in>set rows. \<not> P r \<longrightarrow> expired_row subscribed now r)"
    and "length (filter (expired_row subscribed now) rows') = length (filter (expired_row subscribed now) rows) - n * PRUNE_BATCH"
    and "truncated \<longleftrightarrow> n = 0 \<or> (n - 1) * PRUNE_BATCH < length (filter (expired_row subscribed now) rows)"
  using assms
proof (induction n arbitrary: rows deleted truncated rows')
  case 0
  {
    case 1
    then show ?case by (intro exI [of _ "\<lambda>_. True"]) simp
  next
    case 2
    then show ?case by simp
  next
    case 3
    then show ?case by simp
  }
next
  case (Suc n)
  have batch: "\<exists>removed rest. prune_batch subscribed now rows = (removed, rest)" for rows
    by (cases "prune_batch subscribed now rows") simp
  {
    fix rows deleted truncated rows'
    assume d: "distinct (map ar_id (rows :: AuditRow list))" and run: "prune_loop subscribed now (Suc n) rows = (deleted, truncated, rows')"
    obtain removed rest where one: "prune_batch subscribed now rows = (removed, rest)"
      using batch by blast
    note spec = prune_batch_spec [OF d one]
    obtain P where P: "rest = filter P rows" "\<forall>r\<in>set rows. \<not> P r \<longrightarrow> expired_row subscribed now r"
      using spec(2) by blast
    let ?e = "length (filter (expired_row subscribed now) rows)"
    have "(\<exists>P. rows' = filter P rows \<and> (\<forall>r\<in>set rows. \<not> P r \<longrightarrow> expired_row subscribed now r))
        \<and> length (filter (expired_row subscribed now) rows') = ?e - Suc n * PRUNE_BATCH
        \<and> (truncated \<longleftrightarrow> n * PRUNE_BATCH < ?e)"
    proof (cases "removed = 0")
      case True
      then have "?e = 0" "rows' = rest" "\<not> truncated"
        using spec(1) run one by (auto simp: PRUNE_BATCH_def min_def split: if_splits)
      then show ?thesis
        using P spec(3) by auto
    next
      case False
      then obtain deleted' where next_one: "prune_loop subscribed now n rest = (deleted', truncated, rows')"
        using run one by (auto split: prod.splits)
      have d': "distinct (map ar_id rest)"
        using d P(1) by (simp add: distinct_map_filter)
      obtain Q where Q: "rows' = filter Q rest" "\<forall>r\<in>set rest. \<not> Q r \<longrightarrow> expired_row subscribed now r"
        using Suc.IH(1) [OF d' next_one] by blast
      have "\<exists>P. rows' = filter P rows \<and> (\<forall>r\<in>set rows. \<not> P r \<longrightarrow> expired_row subscribed now r)"
        using P Q by (intro exI [of _ "\<lambda>r. P r \<and> Q r"]) (auto simp: filter_filter)
      moreover have "length (filter (expired_row subscribed now) rows') = ?e - Suc n * PRUNE_BATCH"
        using Suc.IH(2) [OF d' next_one] spec(3) by simp
      moreover have "truncated \<longleftrightarrow> n * PRUNE_BATCH < ?e"
        using Suc.IH(3) [OF d' next_one] spec(1,3) False by (cases n) auto
      ultimately show ?thesis
        by blast
    qed
  }
  note step = this
  {
    case 1
    then show ?case using step by blast
  next
    case 2
    then show ?case using step by blast
  next
    case 3
    then show ?case using step by force
  }
qed

text \<open>A row that is expired for the pruner is outside the window of the account's tier at any later time.\<close>

lemma expired_outside_window:
  assumes "expired_row subscribed now r" "now \<le> later" "tier = Pro \<Longrightarrow> subscribed (ar_userId r)"
  shows "ar_createdAt r < auditRetentionCutoff tier later"
  using assms by (cases tier) (auto simp: expired_row_def prune_cutoff_def auditRetentionCutoff_def auditRetentionDays_def
      AUDIT_RETENTION_DAYS_def DAY_MS_def split: if_splits)

section \<open>Counters and the limiter\<close>

text \<open>Two tables the limiter cannot tell apart from \<open>now\<close> on.\<close>

definition same_limits :: "millis \<Rightarrow> limit_table \<Rightarrow> limit_table \<Rightarrow> bool" where
  "same_limits now t t' \<longleftrightarrow> (\<forall>k. t' k = t k \<or> t' k = None \<and> (case t k of None \<Rightarrow> True | Some r \<Rightarrow> stale_counter now r))"

lemma consume_same_limits:
  assumes "same_limits now t t'" "now \<le> at_time" "windowSeconds rule \<le> 86400"
  shows "fst (consume True key rule at_time t') = fst (consume True key rule at_time t)
    \<and> same_limits now (snd (consume True key rule at_time t)) (snd (consume True key rule at_time t'))"
proof -
  have "upsert key at_time (windowSeconds rule * 1000) t' = map_option (\<lambda>(r, _). (r, t'(key \<mapsto> r))) (upsert key at_time (windowSeconds rule * 1000) t)"
  proof (cases "t' key = t key")
    case False
    then obtain r where r: "t key = Some r" "t' key = None" "stale_counter now r"
      using assms(1) unfolding same_limits_def by (cases "t key") (metis option.simps(4), metis option.simps(5))
    then have "windowSeconds rule * 1000 \<le> at_time - lr_window_start r"
      using assms(2,3) by (simp add: stale_counter_def COUNTER_KEEP_MS_def)
    with r show ?thesis
      by (simp add: upsert_def Let_def)
  qed (simp add: upsert_def Let_def)
  moreover have "same_limits now (t(key \<mapsto> r)) (t'(key \<mapsto> r))" for r
    using assms(1) by (simp add: same_limits_def)
  ultimately show ?thesis
    using assms(1) by (auto simp: consume_def Let_def upsert_def split: option.splits if_splits)
qed

lemma serve_same_limits:
  assumes "same_limits now t t'" "list_all (\<lambda>(k, at_time). now \<le> at_time) reqs" "\<And>k. windowSeconds (rules k) \<le> 86400"
  shows "fst (serve rules reqs t') = fst (serve rules reqs t)"
  using assms(1,2)
proof (induction reqs arbitrary: t t')
  case (Cons req reqs)
  obtain k at_time where req: "req = (k, at_time)"
    by force
  have one: "fst (consume True k (rules k) at_time t') = fst (consume True k (rules k) at_time t)"
    "same_limits now (snd (consume True k (rules k) at_time t)) (snd (consume True k (rules k) at_time t'))"
    using consume_same_limits [OF Cons.prems(1) _ assms(3)] Cons.prems(2) req by auto
  show ?case
    using Cons.IH [OF one(2)] one(1) Cons.prems(2) by (simp add: req split_beta Let_def)
qed simp

section \<open>Properties\<close>


text \<open>
  C40. Clearing old counters shows nowhere: every request served afterwards, of any caller and in any order, is allowed or
  refused with the same answer as without it, the windows of all rules being at most a day.
\<close>

theorem clearing_counters_is_invisible:
  assumes "clearStaleCounters dryRun now keys t = (result, t')"
    and "list_all (\<lambda>(k, at_time). now \<le> at_time) reqs" "\<And>k. windowSeconds (rules k) \<le> 86400"
  shows "fst (serve rules reqs t') = fst (serve rules reqs t)"
proof -
  have "same_limits now t t'"
    using assms(1) by (auto simp: clearStaleCounters_def same_limits_def Let_def split: if_splits option.splits)
  then show ?thesis
    by (rule serve_same_limits) (use assms in auto)
qed

text \<open>
  The report of a pruning run says that work remains whenever the last batch it may take deletes anything: with more
  than nineteen and at most twenty batches of expired rows it reports that it was cut short with none of them left.
\<close>

theorem prune_reports_truncation_early:
  assumes "distinct (map ar_id rows)"
    and "19 * 5000 < length (filter (expired_row subscribed now) rows)" "length (filter (expired_row subscribed now) rows) \<le> 20 * 5000"
  shows "\<exists>result rows'. pruneAuditEvents False subscribed now rows = (result, rows') \<and> pr_truncated result
    \<and> filter (expired_row subscribed now) rows' = []"
proof -
  obtain deleted truncated rows' where run: "prune_loop subscribed now MAX_BATCHES rows = (deleted, truncated, rows')"
    by (cases "prune_loop subscribed now MAX_BATCHES rows")
  have "truncated" "filter (expired_row subscribed now) rows' = []"
    using prune_loop_spec(2,3) [OF assms(1) run] assms(2,3) by (simp_all add: MAX_BATCHES_def PRUNE_BATCH_def flip: length_0_conv)
  then show ?thesis
    using run assms(2) by (auto simp: pruneAuditEvents_def Let_def)
qed

section \<open>Examples\<close>

definition example_audit_row :: "nat \<Rightarrow> millis \<Rightarrow> AuditRow" where
  "example_audit_row n at_time =
     \<lparr>ar_id = replicate n CHR ''x'', ar_userId = ''u'', ar_deviceId = None, ar_eventType = ''recovery.disabled'', ar_source = Server,
      ar_targetRef = None, ar_ipPrefix = None, ar_metadata = [], ar_createdAt = at_time\<rparr>"


theorem clearing_counters_is_invisible_witness:
  "\<exists>result t'. clearStaleCounters False (10 ^ 9) [''k''] [''k'' \<mapsto> \<lparr>lr_count = 3, lr_window_start = 5\<rparr>] = (result, t') \<and> t' = Map.empty
     \<and> fst (serve (\<lambda>_. \<lparr>max_requests = 2, windowSeconds = 60\<rparr>) [(''k'', 10 ^ 9)] t')
       = fst (serve (\<lambda>_. \<lparr>max_requests = 2, windowSeconds = 60\<rparr>) [(''k'', 10 ^ 9)] [''k'' \<mapsto> \<lparr>lr_count = 3, lr_window_start = 5\<rparr>])"
proof -
  let ?t = "[''k'' \<mapsto> \<lparr>lr_count = 3, lr_window_start = 5\<rparr>] :: limit_table"
  have run: "clearStaleCounters False (10 ^ 9) [''k''] ?t = ((1, 1), Map.empty)"
    by (auto simp: clearStaleCounters_def stale_counter_def COUNTER_KEEP_MS_def)
  from clearing_counters_is_invisible [OF run, of "[(''k'', 10 ^ 9)]" "\<lambda>_. \<lparr>max_requests = 2, windowSeconds = 60\<rparr>"] run show ?thesis
    by simp
qed

theorem prune_reports_truncation_early_witness:
  "\<exists>result rows'. pruneAuditEvents False (\<lambda>_. False) (10 ^ 12) (map (\<lambda>n. example_audit_row n 5) [0..<96000]) = (result, rows')
     \<and> pr_truncated result \<and> filter (expired_row (\<lambda>_. False) (10 ^ 12)) rows' = []"
proof (rule prune_reports_truncation_early)
  let ?rows = "map (\<lambda>n. example_audit_row n 5) [0..<96000]"
  have expired: "expired_row (\<lambda>_. False) (10 ^ 12) (example_audit_row n 5)" for n
    by (simp add: expired_row_def prune_cutoff_def example_audit_row_def AUDIT_RETENTION_DAYS_def DAY_MS_def)
  show "distinct (map ar_id ?rows)"
    by (simp add: distinct_map example_audit_row_def inj_on_def o_def)
  have "filter (expired_row (\<lambda>_. False) (10 ^ 12)) ?rows = ?rows"
    using expired by (simp add: filter_map o_def)
  then show "19 * 5000 < length (filter (expired_row (\<lambda>_. False) (10 ^ 12)) ?rows)"
    "length (filter (expired_row (\<lambda>_. False) (10 ^ 12)) ?rows) \<le> 20 * 5000"
    by simp_all
qed

end
