(* ===== verification/Spec2Isabelle.thy ===== *)
theory Spec2Isabelle
  imports Vault_Sync Qr_Matrix Share_Views Recording_Quota Machine_Safety Recovery_Safety Rekey_Safety
    Tar Chunk_Bridge Auto_Sync Devices Maintenance
begin

text \<open>
  A verification library for WeirdVault, a browser SSH client with a zero-knowledge vault. The paths below are relative
  to \<open>src/apps/web/src/\<close>, the web application, which holds the vault, its server and everything the relay and the
  machine agents ask of it.

  \<^bold>\<open>The parts and how they meet.\<close> A device keeps hosts, pinned host keys, snippets and wrapped SSH keys in IndexedDB. A
  sync reads them as one document, merges it with the document pulled from the server, lands the result on the device
  and pushes it sealed. The server keeps one opaque row per account under a version number. A password is the root of a
  key tree: one branch signs in, one opens the vault, one blinds names; recovery codes escrow the three branches.
  Around this stand the audit log, the rate limiter every public route shares, the mirror of the payment provider's
  state, the token and the metering of the relay, recorded sessions with their share links, and the machines an account
  has enrolled.

  \<^bold>\<open>Theories and what they model.\<close>
  \<^item> \<open>Prelude\<close>, \<open>Js_Text\<close>, \<open>Calendar\<close>, \<open>Base64\<close>: what the program takes from JavaScript. A \<open>Map\<close> or object is an
    association list in insertion order, an IndexedDB store a list sorted by key; both interpret the locale
    \<open>keyed_container\<close>, whose lemmas carry the landing of a merge. JSON values, UTF-8, \<open>trim\<close>, \<open>split\<close>, \<open>parseInt\<close>, the
    UTC calendar of \<open>Date\<close>, \<open>btoa\<close>, \<open>atob\<close> and \<open>Buffer\<close>'s base64.
  \<^item> \<open>Vault_Merge\<close> (\<open>lib/vault/sync.ts\<close>: \<open>mergeById\<close>, \<open>mergeVault\<close>), \<open>Vault_Store\<close> (\<open>lib/hosts.ts\<close>, \<open>hostkeys.ts\<close>,
    \<open>snippets.ts\<close>, \<open>keys.ts\<close>, \<open>idb.ts\<close>, \<open>vault/tombstones.ts\<close>, \<open>applyVaultLocally\<close>), \<open>Vault_Server\<close>
    (\<open>app/api/vault/route.ts\<close>), \<open>Vault_Sync\<close> (\<open>runSync\<close>, \<open>vault/crypto.ts\<close>, \<open>vault/restore.ts\<close>).
  \<^item> \<open>Recovery_Codes\<close> (\<open>lib/vault/kdf.ts\<close>, \<open>lib/vault/recovery.ts\<close>) with \<open>Recovery_Facts\<close>, \<open>Recovery_Server\<close>
    (\<open>app/api/recovery/route.ts\<close>) with \<open>Recovery_Safety\<close>, and \<open>Rekey\<close> (\<open>lib/vault/rekey.ts\<close>) with \<open>Rekey_Safety\<close>. A
    password change is one function of what the network does: every request or answer may be lost, and other devices may
    have written to the vault before the sync, the second read and the push.
  \<^item> \<open>Auto_Sync\<close> (\<open>lib/vault/auto-sync.ts\<close>): when a sync runs; \<open>Devices\<close> (\<open>app/api/devices/route.ts\<close>): the browsers of an
    account and their sessions; \<open>Maintenance\<close> (\<open>lib/maintenance/index.ts\<close>, \<open>audit.ts\<close>, \<open>counters.ts\<close>, \<open>app/api/cron\<close>):
    the nightly run.
  \<^item> \<open>Tar\<close> (\<open>lib/transfers/tar.ts\<close>, the strategy of \<open>upload.ts\<close>) and \<open>Chunk_Bridge\<close> (\<open>lib/transfers/remote.ts\<close>): a
    directory as a stream, and a copy between two hosts through a bounded queue.
  \<^item> \<open>Qr_Field\<close>, \<open>Qr_Encode\<close>, \<open>Qr_Matrix\<close> (\<open>lib/qr.ts\<close>).
  \<^item> \<open>Audit_Log\<close> (\<open>lib/audit\<close>, \<open>app/api/audit\<close>), \<open>Rate_Limit\<close> (\<open>lib/rate-limit.ts\<close>), \<open>Billing\<close> (\<open>lib/billing/tiers.ts\<close>,
    \<open>subscription.ts\<close>, the webhook), \<open>Relay_Usage\<close> (\<open>lib/usage.ts\<close>, \<open>app/api/relay/usage\<close>), \<open>Relay_Token\<close>
    (\<open>app/api/relay-token\<close>).
  \<^item> \<open>Cast_Format\<close> (\<open>lib/recording/format.ts\<close>), \<open>Recorder\<close> (\<open>lib/recording/capture.ts\<close>), \<open>Recording_Store\<close>
    (\<open>lib/recording/blobs.ts\<close>, \<open>app/api/recordings\<close>, \<open>app/api/shares\<close>, \<open>lib/maintenance/objects.ts\<close>) and the theories
    of what they promise, \<open>Recording_Safety\<close>, \<open>Share_Views\<close>, \<open>Recording_Quota\<close>.
  \<^item> \<open>Agents\<close> (\<open>lib/agents\<close>), \<open>Machines\<close> (\<open>app/api/agents\<close> and the two maintenance jobs on machines),
    \<open>Machine_Safety\<close>.

  Each handler is one definition from the request and the tables to the answer and the tables, with every refusal of the
  code as a branch. A SQL statement is one step; where the code reads in one statement and writes in another and the
  gap matters (share views, recovery codes, recorder saves, device registrations, the queue of a copy, the sync schedule), a step relation interleaves the halves of any number of
  requests, and the invariants are proved by rule induction over its reachable states.

  \<^bold>\<open>What the lemmas show.\<close> The merge keeps the newest copy of every record and loses none; a landed merge makes the
  device hold exactly it; syncing again finds nothing to do; concurrent pushes never overwrite each other unseen. The QR
  symbol reads back as its payload and its error-correction words have vanishing syndromes. The limiter allows exactly
  the maximum per window and its subject cannot be forged; audit rows carry only the declared metadata; billing events
  in any order leave the newest state, each applied once; tokens and usage match. A saved recording survives everything
  but its deletion, a deleted one leaves no copy, a share is served at most as often as it was made for. A token enrols
  one machine, a revoked machine is shut out, only its owner's command is signed. A recovery code brings back the secrets
  it sealed in any spelling and is spent by its use, and nothing in an answer tells a stored envelope from a decoy. A
  password change carries every readable key over, never leaves a password that signs in without opening the vault
  (given a vault to push), and is finished by running it again; the races and lost answers outside these bounds are
  theorems too. A copy between hosts delivers the whole source or reports an error, and always ends; an uploaded stream
  reads back as the files it was made of; a local change is pushed by a sync that began after it; a revoked device stays
  out; a maintenance run changes no answer of the log or the limiter.

  \<^bold>\<open>Interfaces.\<close> The locale \<open>keyed_container\<close> is what a merge needs of a map; \<open>codec\<close> is a decoder that inverts an encoder
  on what it can encode, interpreted by the base64 variants and the recovery payload; \<open>guarded_system\<close>
  is a step relation with an invariant its steps keep, from which the invariant follows for every reachable state.

  \<^bold>\<open>Bounds and fuel.\<close> \<open>runSync\<close> has the three attempts of the code. The decoy loop has one turn per byte, which is enough
  because a digest is not empty. A rotation run takes at most 200 machines, a pruning run twenty batches of 5000 rows. All other loops are structural.
  Integer columns are \<open>int4\<close> where a request can reach past them; JavaScript numbers are exact integers or rationals, so
  statements about byte sums assume totals below \<open>2 ^ 53\<close>, where doubles are exact. Strings are code units below 256.

  \<^bold>\<open>Parameters.\<close> Code outside the repository is an argument: AES-GCM, HMAC, SHA-256, HKDF, Argon2id, Ed25519, the
  session lookup, the payment provider, the object store's answers, the URL and date parsers, \<open>JSON.parse\<close> of sealed
  documents, how a fraction is printed. The laws assumed of them (decryption inverts encryption, digest lengths) are
  named predicates such as \<open>platform_ok\<close>, with an instance in each witness.

  \<^bold>\<open>Not modelled.\<close> The React pages and components (\<open>app/**/*.tsx\<close>, \<open>components\<close>), which render and call what is
  modelled; the WebAssembly glue of \<open>lib/ssh\<close>, downloads and drag and drop; the client helpers of the audit log and
  the device list; the configuration of the authentication library (\<open>lib/auth.ts\<close>,
  \<open>lib/auth-client.ts\<close>) and the schema (\<open>lib/db\<close>); the provider's client and its three thin routes; the request signing
  and XML of \<open>lib/storage\<close>; the installer script; SEO and legal text; the Go and Rust programs, which are other
  languages.
\<close>

end
